(* ===== verification/Iceberg_Prelude.thy ===== *)
theory Iceberg_Prelude
  imports Main "HOL-Library.Sublist" "HOL-Library.AList"
begin

text \<open>
  The shared vocabulary of the development.  It holds the error sum that models Python
  exceptions, Python strings as lists of code points with the few \<open>str\<close> operations the
  sources use (slices, \<open>find\<close>, \<open>replace\<close>, decimal formatting), and the SQL table operations
  (conditional \<open>UPDATE\<close>, \<open>SELECT ... WHERE\<close>) that the control plane is written in.  Every
  generic lemma used by more than one component lives here.
\<close>

named_theorems table_simps
named_theorems str_simps
named_theorems err_simps

section \<open>Python exceptions\<close>

text \<open>
  A function that may raise returns a sum whose left summand is the exception.  The
  message is kept where it tells two raises of the same class apart.
\<close>

datatype py_error =
    ValueError string
  | KeyError string
  | TypeError string
  | RedactionError string
  | IntegrityError string

definition bindE :: "'e + 'a \<Rightarrow> ('a \<Rightarrow> 'e + 'b) \<Rightarrow> 'e + 'b" where
  "bindE r f = (case r of Inl e \<Rightarrow> Inl e | Inr x \<Rightarrow> f x)"

fun mapE :: "('a \<Rightarrow> 'e + 'b) \<Rightarrow> 'a list \<Rightarrow> 'e + 'b list" where
  "mapE f [] = Inr []"
| "mapE f (x # xs) = bindE (f x) (\<lambda>y. bindE (mapE f xs) (\<lambda>ys. Inr (y # ys)))"

lemma bindE_simps [simp]:
  "bindE (Inl e) f = Inl e"
  "bindE (Inr x) f = f x"
  by (simp_all add: bindE_def)

lemma bindE_eq_Inr [err_simps]: "bindE r f = Inr y \<longleftrightarrow> (\<exists>x. r = Inr x \<and> f x = Inr y)"
  by (cases r) auto

lemma bindE_eq_Inl [err_simps]:
  "bindE r f = Inl e \<longleftrightarrow> r = Inl e \<or> (\<exists>x. r = Inr x \<and> f x = Inl e)"
  by (cases r) auto

lemma mapE_all_Inr: "(\<And>x. x \<in> set xs \<Longrightarrow> f x = Inr (g x)) \<Longrightarrow> mapE f xs = Inr (map g xs)"
  by (induction xs) auto

lemma mapE_eq_Inr: "mapE f xs = Inr ys \<Longrightarrow> list_all2 (\<lambda>x y. f x = Inr y) xs ys"
  by (induction xs arbitrary: ys) (auto simp: bindE_eq_Inr)

section \<open>Python strings\<close>

text \<open>
  A Python \<open>str\<close> is a sequence of Unicode code points, and its length counts code points.
  \<open>cps\<close> turns an ASCII literal into one.
\<close>

type_synonym pystr = "int list"

definition cps :: "string \<Rightarrow> pystr" where
  "cps = map of_char"

text \<open>\<open>s[a:b]\<close> for non-negative bounds.\<close>

definition slice :: "'a list \<Rightarrow> nat \<Rightarrow> nat \<Rightarrow> 'a list" where
  "slice xs a b = take (b - a) (drop a xs)"

lemma length_slice [str_simps]: "length (slice xs a b) = min b (length xs) - a"
  by (auto simp: slice_def)

lemma slice_all [simp]: "slice xs 0 (length xs) = xs"
  by (simp add: slice_def)

lemma nth_slice [str_simps]: "a + k < b \<Longrightarrow> b \<le> length xs \<Longrightarrow> slice xs a b ! k = xs ! (a + k)"
  by (simp add: slice_def)

text \<open>An occurrence of one string in another, by its position.\<close>

definition occurs_at :: "'a list \<Rightarrow> 'a list \<Rightarrow> nat \<Rightarrow> bool" where
  "occurs_at text sub i \<longleftrightarrow> i + length sub \<le> length text \<and> slice text i (i + length sub) = sub"

lemma occurs_at_bound: "occurs_at text sub i \<Longrightarrow> i + length sub \<le> length text"
  by (simp add: occurs_at_def)

lemma sublist_iff_occurs_at: "sublist sub text \<longleftrightarrow> (\<exists>i. occurs_at text sub i)"
proof
  assume "sublist sub text"
  then obtain p q where "text = p @ sub @ q" by (auto simp: sublist_def)
  then have "occurs_at text sub (length p)" by (simp add: occurs_at_def slice_def)
  then show "\<exists>i. occurs_at text sub i" ..
next
  assume "\<exists>i. occurs_at text sub i"
  then obtain i where i: "slice text i (i + length sub) = sub" by (auto simp: occurs_at_def)
  have "text = take i text @ drop i text" by simp
  also have "drop i text = take (length sub) (drop i text) @ drop (length sub) (drop i text)"
    by (metis append_take_drop_id)
  finally show "sublist sub text"
    using i by (metis add_diff_cancel_left' slice_def sublist_appendI)
qed

text \<open>
  \<open>text.find(sub, lo, hi)\<close> for non-negative \<open>lo\<close>: the least position at or after \<open>lo\<close> where
  \<open>sub\<close> occurs and ends at or before \<open>hi\<close>; \<open>None\<close> is Python's \<open>-1\<close>.
\<close>

definition py_find :: "'a list \<Rightarrow> 'a list \<Rightarrow> nat \<Rightarrow> nat \<Rightarrow> nat option" where
  "py_find text sub lo hi =
     List.find (\<lambda>i. i + length sub \<le> hi \<and> occurs_at text sub i) [lo..<Suc (length text)]"

lemma find_upt_Some:
  "List.find P [lo..<hi] = Some i \<longleftrightarrow> lo \<le> i \<and> i < hi \<and> P i \<and> (\<forall>j. lo \<le> j \<and> j < i \<longrightarrow> \<not> P j)"
proof -
  have "List.find P [lo..<hi] = Some i \<longleftrightarrow>
      (\<exists>k < hi - lo. P (lo + k) \<and> i = lo + k \<and> (\<forall>j < k. \<not> P (lo + j)))"
    by (auto simp: find_Some_iff)
  also have "\<dots> \<longleftrightarrow> lo \<le> i \<and> i < hi \<and> P i \<and> (\<forall>j. lo \<le> j \<and> j < i \<longrightarrow> \<not> P j)"
  proof
    assume "\<exists>k < hi - lo. P (lo + k) \<and> i = lo + k \<and> (\<forall>j < k. \<not> P (lo + j))"
    then obtain k where k: "k < hi - lo" "P (lo + k)" "i = lo + k" "\<forall>j < k. \<not> P (lo + j)"
      by blast
    have "\<not> P j" if "lo \<le> j" "j < i" for j
      using k that by (metis add_less_cancel_left le_Suc_ex)
    then show "lo \<le> i \<and> i < hi \<and> P i \<and> (\<forall>j. lo \<le> j \<and> j < i \<longrightarrow> \<not> P j)"
      using k by auto
  next
    assume "lo \<le> i \<and> i < hi \<and> P i \<and> (\<forall>j. lo \<le> j \<and> j < i \<longrightarrow> \<not> P j)"
    then show "\<exists>k < hi - lo. P (lo + k) \<and> i = lo + k \<and> (\<forall>j < k. \<not> P (lo + j))"
      by (intro exI [of _ "i - lo"]) auto
  qed
  finally show ?thesis .
qed

lemma py_find_Some:
  "py_find text sub lo hi = Some i \<longleftrightarrow>
     lo \<le> i \<and> i + length sub \<le> hi \<and> occurs_at text sub i \<and>
     (\<forall>j. lo \<le> j \<and> j < i \<longrightarrow> \<not> (j + length sub \<le> hi \<and> occurs_at text sub j))"
  unfolding py_find_def find_upt_Some by (auto dest: occurs_at_bound)

lemma py_find_None:
  "py_find text sub lo hi = None \<longleftrightarrow>
     (\<forall>i. lo \<le> i \<and> i + length sub \<le> hi \<longrightarrow> \<not> occurs_at text sub i)"
  unfolding py_find_def find_None_iff by (fastforce dest: occurs_at_bound)

text \<open>\<open>s.replace(old, new)\<close> for a non-empty \<open>old\<close>: leftmost, non-overlapping.\<close>

function py_replace :: "'a list \<Rightarrow> 'a list \<Rightarrow> 'a list \<Rightarrow> 'a list" where
  "py_replace [] old new = []"
| "py_replace (c # cs) old new =
     (if old \<noteq> [] \<and> prefix old (c # cs)
      then new @ py_replace (drop (length old) (c # cs)) old new
      else c # py_replace cs old new)"
  by pat_completeness auto
termination
  by (relation "measure (\<lambda>(s, old, new). length s)") (auto simp: neq_Nil_conv)

text \<open>\<open>str(n)\<close> for a non-negative integer, as code points.\<close>

fun py_digits :: "nat \<Rightarrow> pystr" where
  "py_digits n = (if n < 10 then [48 + int n] else py_digits (n div 10) @ [48 + int (n mod 10)])"

declare py_digits.simps [simp del]

lemma py_digits_small [simp]: "n < 10 \<Longrightarrow> py_digits n = [48 + int n]"
  by (simp add: py_digits.simps)

lemma py_digits_range: "c \<in> set (py_digits n) \<Longrightarrow> 48 \<le> c \<and> c \<le> 57"
proof (induction n rule: py_digits.induct)
  case (1 n)
  show ?case
  proof (cases "n < 10")
    case True
    then show ?thesis using "1.prems" by auto
  next
    case False
    then have "c \<in> set (py_digits (n div 10)) \<or> c = 48 + int (n mod 10)"
      using "1.prems" by (auto simp: py_digits.simps [of n])
    then show ?thesis using "1.IH" False by auto
  qed
qed

text \<open>\<open>str\<close> of a UUID: 32 hexadecimal digits in five groups.\<close>

fun hex_digits :: "nat \<Rightarrow> nat \<Rightarrow> pystr" where
  "hex_digits 0 n = []"
| "hex_digits (Suc k) n =
     hex_digits k (n div 16) @ [let h = int (n mod 16) in if h < 10 then 48 + h else 87 + h]"

definition uuid_str :: "nat \<Rightarrow> pystr" where
  "uuid_str n =
     (let h = hex_digits 32 n in
      slice h 0 8 @ [45] @ slice h 8 12 @ [45] @ slice h 12 16 @ [45] @ slice h 16 20 @ [45] @ slice h 20 32)"

text \<open>Reading a decimal numeral back, which makes the formatting injective.\<close>

definition py_int_of_digits :: "pystr \<Rightarrow> nat" where
  "py_int_of_digits ds = foldl (\<lambda>n d. 10 * n + nat (d - 48)) 0 ds"

lemma py_int_of_digits_py_digits [simp]: "py_int_of_digits (py_digits n) = n"
proof (induction n rule: py_digits.induct)
  case (1 n)
  show ?case
  proof (cases "n < 10")
    case True
    then show ?thesis by (simp add: py_int_of_digits_def)
  next
    case False
    then have "py_int_of_digits (py_digits n) = 10 * py_int_of_digits (py_digits (n div 10)) + n mod 10"
      by (simp add: py_digits.simps [of n] py_int_of_digits_def)
    then show ?thesis using "1.IH" False by simp
  qed
qed

lemma py_digits_inj [simp]: "py_digits m = py_digits n \<longleftrightarrow> m = n"
  by (metis py_int_of_digits_py_digits)

text \<open>The white space of \<open>str.isspace\<close> and of \<open>\s\<close> in a Unicode pattern.\<close>

definition is_ws :: "int \<Rightarrow> bool" where
  "is_ws c \<longleftrightarrow> (9 \<le> c \<and> c \<le> 13) \<or> (28 \<le> c \<and> c \<le> 32) \<or> c = 133 \<or> c = 160 \<or> c = 5760 \<or>
     (8192 \<le> c \<and> c \<le> 8202) \<or> c = 8232 \<or> c = 8233 \<or> c = 8239 \<or> c = 8287 \<or> c = 12288"

definition py_strip :: "pystr \<Rightarrow> pystr" where
  "py_strip s = rev (dropWhile is_ws (rev (dropWhile is_ws s)))"

text \<open>\<open>s.strip()\<close> is empty exactly when every character is white space.\<close>

definition py_blank :: "pystr \<Rightarrow> bool" where
  "py_blank s \<longleftrightarrow> list_all is_ws s"

section \<open>SQL tables\<close>

text \<open>
  A table is the list of its rows.  \<open>UPDATE t SET f WHERE P\<close> maps \<open>f\<close> over the rows that
  satisfy \<open>P\<close>, and its \<open>rowcount\<close> is how many did.
\<close>

definition update_where :: "('r \<Rightarrow> bool) \<Rightarrow> ('r \<Rightarrow> 'r) \<Rightarrow> 'r list \<Rightarrow> 'r list" where
  "update_where P f rows = map (\<lambda>r. if P r then f r else r) rows"

definition rowcount :: "('r \<Rightarrow> bool) \<Rightarrow> 'r list \<Rightarrow> nat" where
  "rowcount P rows = length (filter P rows)"

definition get_row :: "('r \<Rightarrow> 'k) \<Rightarrow> 'k \<Rightarrow> 'r list \<Rightarrow> 'r option" where
  "get_row key k rows = List.find (\<lambda>r. key r = k) rows"

lemma length_update_where [simp]: "length (update_where P f rows) = length rows"
  by (simp add: update_where_def)

lemma update_where_Nil [simp]: "update_where P f [] = []"
  by (simp add: update_where_def)

lemma update_where_Cons [simp]:
  "update_where P f (r # rows) = (if P r then f r else r) # update_where P f rows"
  by (simp add: update_where_def)

lemma set_update_where [table_simps]:
  "set (update_where P f rows) = (\<lambda>r. if P r then f r else r) ` set rows"
  by (simp add: update_where_def)

lemma map_update_where [table_simps]:
  "(\<And>r. P r \<Longrightarrow> g (f r) = g r) \<Longrightarrow> map g (update_where P f rows) = map g rows"
  by (auto simp: update_where_def)

lemma update_where_none: "rowcount P rows = 0 \<Longrightarrow> update_where P f rows = rows"
  by (induction rows) (auto simp: rowcount_def update_where_def)

lemma rowcount_0_iff [table_simps]: "rowcount P rows = 0 \<longleftrightarrow> (\<forall>r \<in> set rows. \<not> P r)"
  by (simp add: rowcount_def filter_empty_conv)

lemma get_row_Some: "get_row key k rows = Some r \<Longrightarrow> r \<in> set rows \<and> key r = k"
  by (auto simp: get_row_def find_Some_iff)

lemma get_row_None: "get_row key k rows = None \<longleftrightarrow> k \<notin> key ` set rows"
  by (auto simp: get_row_def find_None_iff)

lemma get_row_in:
  "distinct (map key rows) \<Longrightarrow> r \<in> set rows \<Longrightarrow> get_row key (key r) rows = Some r"
proof (induction rows)
  case Nil
  then show ?case by simp
next
  case (Cons x rows)
  then show ?case by (cases "key x = key r") (auto simp: get_row_def)
qed

lemma get_row_update_where [table_simps]:
  "(\<And>r. P r \<Longrightarrow> key (f r) = key r) \<Longrightarrow>
   get_row key k (update_where P f rows) =
     map_option (\<lambda>r. if P r then f r else r) (get_row key k rows)"
  by (induction rows) (auto simp: get_row_def)

lemma distinct_key_unique:
  "distinct (map key rows) \<Longrightarrow> r \<in> set rows \<Longrightarrow> s \<in> set rows \<Longrightarrow> key r = key s \<Longrightarrow> r = s"
  by (auto simp: distinct_map dest: inj_onD)

lemma rowcount_key_le1:
  assumes "distinct (map key rows)" and "\<And>r. P r \<Longrightarrow> key r = k"
  shows "rowcount P rows \<le> 1"
proof -
  have d: "distinct (map key (filter P rows))"
    using assms(1) by (simp add: distinct_map_filter)
  have "set (map key (filter P rows)) \<subseteq> {k}" using assms(2) by auto
  then have "card (set (map key (filter P rows))) \<le> card {k}" by (rule card_mono [rotated]) simp
  then show ?thesis using distinct_card [OF d] by (simp add: rowcount_def)
qed

lemma rowcount_1_get_row:
  assumes "distinct (map key rows)" and "\<And>r. P r \<Longrightarrow> key r = k"
  shows "rowcount P rows = 1 \<longleftrightarrow> (\<exists>r. get_row key k rows = Some r \<and> P r)"
proof
  assume "rowcount P rows = 1"
  then obtain r where "r \<in> set rows" "P r"
    by (metis One_nat_def rowcount_0_iff n_not_Suc_n)
  then show "\<exists>r. get_row key k rows = Some r \<and> P r"
    using get_row_in [OF assms(1)] assms(2) by metis
next
  assume "\<exists>r. get_row key k rows = Some r \<and> P r"
  then have "rowcount P rows \<noteq> 0" by (auto simp: rowcount_0_iff dest: get_row_Some)
  moreover have "rowcount P rows \<le> 1" using assms by (rule rowcount_key_le1)
  ultimately show "rowcount P rows = 1" by linarith
qed

section \<open>Stable sorting\<close>

lemma set_sort_key [simp]: "set (sort_key f xs) = set xs"
  by simp

lemma sorted_wrt_sort_key: "sorted_wrt (\<lambda>x y. f x \<le> f y) (sort_key f xs)"
  using sorted_sort_key [of f xs] by (simp add: sorted_map)

section \<open>Dict displays\<close>

text \<open>\<open>{k: v for ...}\<close>: a later pair replaces the value of an earlier one, in the earlier one's place.\<close>

definition dict_of :: "('k \<times> 'v) list \<Rightarrow> ('k \<times> 'v) list" where
  "dict_of ps = fold (\<lambda>(k, v). AList.update k v) ps []"

lemma fold_update_distinct:
  "distinct (map fst (acc @ ps)) \<Longrightarrow> fold (\<lambda>(k, v). AList.update k v) ps acc = acc @ ps"
proof (induction ps arbitrary: acc)
  case (Cons p ps)
  obtain k v where p: "p = (k, v)" by fastforce
  have "k \<notin> fst ` set acc" using Cons.prems by (force simp: p)
  then have "AList.update k v acc = acc @ [p]" by (induction acc) (auto simp: p)
  then show ?case using Cons.IH [of "acc @ [p]"] Cons.prems by (simp add: p)
qed simp

lemma dict_of_distinct: "distinct (map fst ps) \<Longrightarrow> dict_of ps = ps"
  using fold_update_distinct [of "[]" ps] by (simp add: dict_of_def)

section \<open>Rewriting rows one by one\<close>

lemma update_where_key:
  assumes "distinct (map k rows)" and "x \<in> set rows"
  shows "update_where (\<lambda>y. k y = k x) (\<lambda>_. z) rows = map (\<lambda>y. if y = x then z else y) rows"
  using distinct_key_unique [OF assms(1)] assms(2) by (auto simp: update_where_def)

lemma fold_update_rows:
  assumes "distinct (map k rows)" and "distinct (map k xs)" and "set xs \<subseteq> set rows" and "\<And>x. k (g x) = k x"
  shows "fold (\<lambda>x. update_where (\<lambda>y. k y = k x) (\<lambda>_. g x)) xs rows = map (\<lambda>y. if y \<in> set xs then g y else y) rows"
  using assms(1-3)
proof (induction xs arbitrary: rows)
  case Nil
  then show ?case by (simp add: map_idI)
next
  case (Cons x xs)
  let ?r = "map (\<lambda>y. if y = x then g x else y) rows"
  have e: "update_where (\<lambda>y. k y = k x) (\<lambda>_. g x) rows = ?r"
    using Cons.prems by (intro update_where_key) auto
  have notin: "g x \<notin> set xs" "x \<notin> set xs" using Cons.prems(2) assms(4) [of x] by (auto simp: image_iff)
  have k: "map k ?r = map k rows" using assms(4) by auto
  have "set xs \<subseteq> set ?r" using Cons.prems(3) notin(2) by (auto simp: image_iff)
  then have "fold (\<lambda>x. update_where (\<lambda>y. k y = k x) (\<lambda>_. g x)) xs ?r = map (\<lambda>y. if y \<in> set xs then g y else y) ?r"
    by (intro Cons.IH) (use Cons.prems(1,2) in \<open>simp_all only: k list.map distinct.simps simp_thms\<close>)
  also have "\<dots> = map (\<lambda>y. if y \<in> set (x # xs) then g y else y) rows" using notin by auto
  finally show ?case by (simp add: e)
qed

end
