(* ===== verification/Fingerprint.thy ===== *)
theory Fingerprint
  imports Iceberg_Prelude
begin

text \<open>
  Finding identity, \<^verbatim>\<open>packages/core/src/iceberg_core/fingerprint.py\<close>, and exposure-cluster
  identifiers, \<^verbatim>\<open>packages/core/src/iceberg_core/correlation.py\<close>.

  HMAC-SHA256 and Unicode normalisation are parameters: \<open>hmac key msg\<close> is the hex digest, \<open>nfc\<close>
  is \<^verbatim>\<open>unicodedata.normalize("NFC", _)\<close>.  What the code itself is responsible for is the message
  it authenticates, so the theorems are about the messages: the length-prefixed encoding is
  injective in its fields and the three derivations never share a message.  UTF-8 is modelled in
  full, because the lengths that prefix the fields count bytes.
\<close>

section \<open>UTF-8\<close>

text \<open>Bytes are integers below 256.  A lone surrogate has no encoding; Python raises.\<close>

definition utf8_char :: "int \<Rightarrow> int list option" where
  "utf8_char c =
     (if c < 0 \<or> c > 1114111 \<or> (55296 \<le> c \<and> c \<le> 57343) then None
      else if c < 128 then Some [c]
      else if c < 2048 then Some [192 + c div 64, 128 + c mod 64]
      else if c < 65536 then Some [224 + c div 4096, 128 + c div 64 mod 64, 128 + c mod 64]
      else Some [240 + c div 262144, 128 + c div 4096 mod 64, 128 + c div 64 mod 64, 128 + c mod 64])"

fun utf8_encode :: "pystr \<Rightarrow> py_error + int list" where
  "utf8_encode [] = Inr []"
| "utf8_encode (c # cs) =
     (case utf8_char c of
        None \<Rightarrow> Inl (ValueError ''surrogates not allowed'')
      | Some bs \<Rightarrow> bindE (utf8_encode cs) (\<lambda>rest. Inr (bs @ rest)))"

section \<open>fingerprint.py\<close>

definition MIN_PEPPER_BYTES :: nat where
  "MIN_PEPPER_BYTES = 16"

definition SECRET_DOMAIN :: "int list" where
  "SECRET_DOMAIN = cps ''iceberg.secret.v1''"

definition FINGERPRINT_DOMAIN :: "int list" where
  "FINGERPRINT_DOMAIN = cps ''iceberg.fingerprint.v1''"

record coarse_locator =
  connector_type :: pystr
  resource_id :: pystr
  sub_resource :: "pystr option"

definition mk_coarse_locator :: "pystr \<Rightarrow> pystr \<Rightarrow> pystr option \<Rightarrow> py_error + coarse_locator" where
  "mk_coarse_locator ct rid sub =
     (if py_blank ct then Inl (ValueError ''connector_type is required'')
      else if py_blank rid then Inl (ValueError ''resource_id is required'')
      else Inr \<lparr>connector_type = ct, resource_id = rid, sub_resource = sub\<rparr>)"

text \<open>\<open>sub_resource or ""\<close>: an absent sub-resource and an empty one are the same.\<close>

definition canonical_parts :: "coarse_locator \<Rightarrow> pystr list" where
  "canonical_parts loc =
     [connector_type loc, resource_id loc, (case sub_resource loc of None \<Rightarrow> [] | Some s \<Rightarrow> s)]"

definition require_pepper :: "int list \<Rightarrow> py_error + unit" where
  "require_pepper pepper =
     (if length pepper < MIN_PEPPER_BYTES then Inl (ValueError ''pepper must be at least 16 bytes'')
      else Inr ())"

text \<open>One field of the canonical encoding: its byte length, a colon, the bytes, a bar.\<close>

definition frame :: "int list \<Rightarrow> int list" where
  "frame item = py_digits (length item) @ [58] @ item @ [124]"

definition canonicalize :: "(pystr \<Rightarrow> pystr) \<Rightarrow> pystr list \<Rightarrow> py_error + int list" where
  "canonicalize nfc parts =
     bindE (mapE (\<lambda>part. utf8_encode (nfc part)) parts) (\<lambda>encoded. Inr (concat (map frame encoded)))"

text \<open>\<open>secret_hash\<close> takes bytes; a \<open>str\<close> is encoded first.\<close>

definition secret_hash_message :: "int list \<Rightarrow> int list" where
  "secret_hash_message material = SECRET_DOMAIN @ [0] @ material"

definition secret_hash_bytes ::
    "(int list \<Rightarrow> int list \<Rightarrow> string) \<Rightarrow> int list \<Rightarrow> int list \<Rightarrow> py_error + string" where
  "secret_hash_bytes hmac material pepper =
     bindE (require_pepper pepper) (\<lambda>_.
     if material = [] then Inl (ValueError ''nothing to hash: empty secret'')
     else Inr (hmac pepper (secret_hash_message material)))"

definition secret_hash_str ::
    "(int list \<Rightarrow> int list \<Rightarrow> string) \<Rightarrow> pystr \<Rightarrow> int list \<Rightarrow> py_error + string" where
  "secret_hash_str hmac secret pepper =
     bindE (require_pepper pepper) (\<lambda>_.
     bindE (utf8_encode secret) (\<lambda>material. secret_hash_bytes hmac material pepper))"

definition fingerprint_message ::
    "(pystr \<Rightarrow> pystr) \<Rightarrow> coarse_locator \<Rightarrow> pystr \<Rightarrow> string \<Rightarrow> py_error + int list" where
  "fingerprint_message nfc loc rule_id shash =
     bindE (canonicalize nfc (canonical_parts loc @ [rule_id, cps shash])) (\<lambda>msg.
     Inr (FINGERPRINT_DOMAIN @ [0] @ msg))"

definition fingerprint ::
    "(int list \<Rightarrow> int list \<Rightarrow> string) \<Rightarrow> (pystr \<Rightarrow> pystr) \<Rightarrow> coarse_locator \<Rightarrow> pystr \<Rightarrow> string \<Rightarrow>
     int list \<Rightarrow> py_error + string" where
  "fingerprint hmac nfc loc rule_id shash pepper =
     bindE (require_pepper pepper) (\<lambda>_.
     if py_blank rule_id then Inl (ValueError ''rule_id is required'')
     else if py_blank (cps shash) then Inl (ValueError ''secret_hash is required'')
     else bindE (fingerprint_message nfc loc rule_id shash) (\<lambda>msg. Inr (hmac pepper msg)))"

definition fingerprint_for_secret ::
    "(int list \<Rightarrow> int list \<Rightarrow> string) \<Rightarrow> (pystr \<Rightarrow> pystr) \<Rightarrow> coarse_locator \<Rightarrow> pystr \<Rightarrow> pystr \<Rightarrow>
     int list \<Rightarrow> py_error + string" where
  "fingerprint_for_secret hmac nfc loc rule_id secret pepper =
     bindE (secret_hash_str hmac secret pepper) (\<lambda>h. fingerprint hmac nfc loc rule_id h pepper)"

section \<open>correlation.py\<close>

definition MIN_CORRELATION_KEY_BYTES :: nat where
  "MIN_CORRELATION_KEY_BYTES = 32"

definition CORRELATION_DOMAIN :: "int list" where
  "CORRELATION_DOMAIN = cps ''iceberg.correlation.v1''"

text \<open>\<open>secret_hash.encode()\<close>: the wire contract bounds the length of a hash and not its alphabet.\<close>

definition correlation_message :: "pystr \<Rightarrow> py_error + int list" where
  "correlation_message shash = bindE (utf8_encode shash) (\<lambda>bs. Inr (CORRELATION_DOMAIN @ [0] @ bs))"

definition correlation_id ::
    "(int list \<Rightarrow> int list \<Rightarrow> string) \<Rightarrow> pystr \<Rightarrow> int list \<Rightarrow> py_error + string" where
  "correlation_id hmac shash key =
     (if length key < MIN_CORRELATION_KEY_BYTES
      then Inl (ValueError ''correlation key must be at least 32 bytes'')
      else if \<not> (16 \<le> length shash \<and> length shash \<le> 64)
      then Inl (ValueError ''secret_hash must be 16-64 characters'')
      else bindE (correlation_message shash) (\<lambda>message. Inr (hmac key message)))"

section \<open>UTF-8 is injective\<close>

text \<open>The decoder's view of one character: how long it is, and what it stands for.\<close>

definition utf8_width :: "int \<Rightarrow> nat" where
  "utf8_width b = (if b < 128 then 1 else if b < 224 then 2 else if b < 240 then 3 else 4)"

fun utf8_value :: "int list \<Rightarrow> int" where
  "utf8_value [a] = a"
| "utf8_value [a, b] = 64 * (a - 192) + (b - 128)"
| "utf8_value [a, b, c] = 64 * (64 * (a - 224) + (b - 128)) + (c - 128)"
| "utf8_value [a, b, c, d] = 64 * (64 * (64 * (a - 240) + (b - 128)) + (c - 128)) + (d - 128)"
| "utf8_value _ = 0"

lemma div_64_split:
  "64 * (c div 64) + c mod 64 = c" "64 * (c div 4096) + c div 64 mod 64 = c div 64"
  "64 * (c div 262144) + c div 4096 mod 64 = c div 4096" for c :: int
  using mult_div_mod_eq [of 64 c] mult_div_mod_eq [of 64 "c div 64"]
    mult_div_mod_eq [of 64 "c div 4096"] zdiv_zmult2_eq [of 64 c 64] zdiv_zmult2_eq [of 64 c 4096]
  by simp_all

lemma utf8_width_lead:
  "q < 128 \<Longrightarrow> utf8_width q = 1"
  "0 \<le> q \<Longrightarrow> q < 32 \<Longrightarrow> utf8_width (192 + q) = 2"
  "0 \<le> q \<Longrightarrow> q < 16 \<Longrightarrow> utf8_width (224 + q) = 3"
  "0 \<le> q \<Longrightarrow> utf8_width (240 + q) = 4"
  by (simp_all add: utf8_width_def)

lemma utf8_char_decodes:
  assumes "utf8_char c = Some bs"
  shows "bs \<noteq> []" and "length bs = utf8_width (hd bs)" and "utf8_value bs = c"
proof -
  have c: "0 \<le> c" using assms by (auto simp: utf8_char_def split: if_splits)
  have r: "0 \<le> c div 64" "0 \<le> c div 4096" "0 \<le> c div 262144"
    using c by (simp_all add: pos_imp_zdiv_nonneg_iff)
  have u: "c < 2048 \<Longrightarrow> c div 64 < 32" "c < 65536 \<Longrightarrow> c div 4096 < 16"
    using zdiv_mono1 [of c 2047 64] zdiv_mono1 [of c 65535 4096] by simp_all
  show "bs \<noteq> []" using assms by (auto simp: utf8_char_def split: if_splits)
  consider (one) "c < 128" "bs = [c]"
    | (two) "c < 2048" "bs = [192 + c div 64, 128 + c mod 64]"
    | (three) "c < 65536" "bs = [224 + c div 4096, 128 + c div 64 mod 64, 128 + c mod 64]"
    | (four) "bs = [240 + c div 262144, 128 + c div 4096 mod 64, 128 + c div 64 mod 64, 128 + c mod 64]"
    using assms unfolding utf8_char_def by (metis option.distinct(1) option.inject)
  then have "length bs = utf8_width (hd bs) \<and> utf8_value bs = c"
  proof cases
    case one
    then show ?thesis using utf8_width_lead(1) [of c] by simp
  next
    case two
    have "utf8_width (192 + c div 64) = 2" by (rule utf8_width_lead(2) [OF r(1) u(1) [OF two(1)]])
    then show ?thesis
      by (simp only: two list.sel utf8_value.simps add_diff_cancel_left' div_64_split) simp
  next
    case three
    have "utf8_width (224 + c div 4096) = 3" by (rule utf8_width_lead(3) [OF r(2) u(2) [OF three(1)]])
    then show ?thesis
      by (simp only: three list.sel utf8_value.simps add_diff_cancel_left' div_64_split) simp
  next
    case four
    have "utf8_width (240 + c div 262144) = 4" by (rule utf8_width_lead(4) [OF r(3)])
    then show ?thesis
      by (simp only: four list.sel utf8_value.simps add_diff_cancel_left' div_64_split) simp
  qed
  then show "length bs = utf8_width (hd bs)" "utf8_value bs = c" by simp_all
qed

lemma utf8_char_prefix_free:
  assumes "utf8_char c = Some bs" and "utf8_char d = Some ds" and "bs @ xs = ds @ ys"
  shows "c = d \<and> xs = ys"
proof -
  note b = utf8_char_decodes [OF assms(1)] and e = utf8_char_decodes [OF assms(2)]
  have "hd bs = hd ds" using assms(3) b(1) e(1) by (metis hd_append2)
  then have "length bs = length ds" using b(2) e(2) by simp
  then show ?thesis using assms(3) b(3) e(3) by auto
qed

lemma utf8_encode_inj: "utf8_encode s = Inr bs \<Longrightarrow> utf8_encode t = Inr bs \<Longrightarrow> s = t"
proof (induction s arbitrary: t bs)
  case Nil
  then show ?case
    by (cases t) (auto simp: bindE_eq_Inr dest: utf8_char_decodes(1) split: option.splits)
next
  case (Cons c s)
  then obtain u r where u: "utf8_char c = Some u" "utf8_encode s = Inr r" "bs = u @ r"
    by (auto simp: bindE_eq_Inr split: option.splits)
  then obtain d t' v q where v: "t = d # t'" "utf8_char d = Some v" "utf8_encode t' = Inr q" "bs = v @ q"
    using Cons.prems(2) utf8_char_decodes(1) [OF u(1)]
    by (cases t) (auto simp: bindE_eq_Inr split: option.splits)
  have "u @ r = v @ q" using u(3) v(4) by simp
  then have "c = d \<and> r = q" by (rule utf8_char_prefix_free [OF u(1) v(2)])
  then show ?case using Cons.IH u(2) v(1,3) by blast
qed

lemma utf8_encode_ascii: "list_all (\<lambda>c. 0 \<le> c \<and> c < 128) s \<Longrightarrow> utf8_encode s = Inr s"
  by (induction s) (auto simp: utf8_char_def)

section \<open>The canonical encoding is injective\<close>

lemma py_digits_no_colon: "58 \<notin> set (py_digits n)"
  using py_digits_range by fastforce

lemma frame_cancel:
  assumes "frame x @ r = frame y @ s"
  shows "x = y \<and> r = s"
proof -
  have tw: "takeWhile (\<lambda>c. c \<noteq> 58) (py_digits n @ 58 # z) = py_digits n"
    "dropWhile (\<lambda>c. c \<noteq> 58) (py_digits n @ 58 # z) = 58 # z" for n z
    using py_digits_no_colon [of n] by (auto simp: takeWhile_append dropWhile_append)
  have eq: "py_digits (length x) @ 58 # (x @ 124 # r) = py_digits (length y) @ 58 # (y @ 124 # s)"
    using assms by (simp add: frame_def)
  have "length x = length y" using arg_cong [OF eq, of "takeWhile (\<lambda>c. c \<noteq> 58)"] by (simp add: tw)
  moreover have "x @ 124 # r = y @ 124 # s"
    using arg_cong [OF eq, of "dropWhile (\<lambda>c. c \<noteq> 58)"] by (simp add: tw)
  ultimately show ?thesis by simp
qed

lemma frames_inj: "concat (map frame xs) = concat (map frame ys) \<Longrightarrow> xs = ys"
proof (induction xs arbitrary: ys)
  case Nil
  then show ?case by (cases ys) (auto simp: frame_def)
next
  case (Cons x xs)
  then obtain y ys' where ys: "ys = y # ys'" by (cases ys) (auto simp: frame_def)
  then have "x = y \<and> concat (map frame xs) = concat (map frame ys')"
    using Cons.prems frame_cancel [of x _ y] by simp
  then show ?case using Cons.IH ys by simp
qed

lemma mapE_utf8_inj:
  "mapE (\<lambda>p. utf8_encode (nfc p)) ps = Inr es \<Longrightarrow> mapE (\<lambda>p. utf8_encode (nfc p)) qs = Inr es \<Longrightarrow>
   map nfc ps = map nfc qs"
proof (induction ps arbitrary: qs es)
  case Nil
  then show ?case by (cases qs) (auto simp: bindE_eq_Inr)
next
  case (Cons p ps)
  then show ?case by (cases qs) (auto simp: bindE_eq_Inr dest: utf8_encode_inj)
qed

lemma canonicalize_inj:
  assumes "canonicalize nfc ps = Inr m" and "canonicalize nfc qs = Inr m"
  shows "map nfc ps = map nfc qs"
proof -
  obtain es fs where "mapE (\<lambda>p. utf8_encode (nfc p)) ps = Inr es" "m = concat (map frame es)"
      "mapE (\<lambda>p. utf8_encode (nfc p)) qs = Inr fs" "m = concat (map frame fs)"
    using assms by (auto simp: canonicalize_def bindE_eq_Inr)
  then show ?thesis using frames_inj [of es fs] mapE_utf8_inj by metis
qed

section \<open>Properties\<close>

text \<open>
  C5.  Two findings whose fingerprints are computed from the same message agree on every field of
  their identity after NFC normalisation: connector type, resource, sub-resource (absent and
  empty being the same), rule and secret hash.  No separator inside a field can forge a boundary.
\<close>

theorem fingerprint_message_determines_identity:
  assumes "fingerprint_message nfc loc rule h = Inr msg"
    and "fingerprint_message nfc loc' rule' h' = Inr msg"
  shows "map nfc (canonical_parts loc) = map nfc (canonical_parts loc') \<and> nfc rule = nfc rule' \<and>
    nfc (cps h) = nfc (cps h')"
proof -
  obtain m where "canonicalize nfc (canonical_parts loc @ [rule, cps h]) = Inr m"
      "canonicalize nfc (canonical_parts loc' @ [rule', cps h']) = Inr m"
    using assms by (auto simp: fingerprint_message_def bindE_eq_Inr)
  then have "map nfc (canonical_parts loc @ [rule, cps h]) = map nfc (canonical_parts loc' @ [rule', cps h'])"
    by (rule canonicalize_inj)
  then show ?thesis by (simp add: canonical_parts_def)
qed


section \<open>Witnesses\<close>

abbreviation demo_loc :: coarse_locator where
  "demo_loc \<equiv> \<lparr>connector_type = cps ''jira'', resource_id = cps ''P-1'', sub_resource = None\<rparr>"

abbreviation demo_loc_empty :: coarse_locator where
  "demo_loc_empty \<equiv> \<lparr>connector_type = cps ''jira'', resource_id = cps ''P-1'', sub_resource = Some []\<rparr>"

theorem fingerprint_message_determines_identity_witness:
  "fingerprint_message id demo_loc (cps ''r'') ''ab'' =
     Inr (FINGERPRINT_DOMAIN @ [0] @ cps ''4:jira|3:P-1|0:|1:r|2:ab|'') \<and>
   map id (canonical_parts demo_loc) = map id (canonical_parts demo_loc_empty)"
proof -
  have a: "fingerprint_message id demo_loc (cps ''r'') ''ab'' =
      Inr (FINGERPRINT_DOMAIN @ [0] @ cps ''4:jira|3:P-1|0:|1:r|2:ab|'')"
    by code_simp
  have b: "fingerprint_message id demo_loc_empty (cps ''r'') ''ab'' =
      Inr (FINGERPRINT_DOMAIN @ [0] @ cps ''4:jira|3:P-1|0:|1:r|2:ab|'')"
    by code_simp
  show ?thesis using a fingerprint_message_determines_identity [OF a b] by blast
qed


end
