(* ===== verification/Iceberg_Enums.thy ===== *)
theory Iceberg_Enums
  imports Main "HOL-Library.Char_ord" "HOL-Library.List_Lexorder"
begin

text \<open>
  The vocabulary shared by every role, \<^verbatim>\<open>packages/core/src/iceberg_core/enums.py\<close>.  Each
  \<open>StrEnum\<close> is a datatype; a constructor is the member's name, prefixed where two enums share it.
  The \<open>_value\<close> functions give the wire strings of the enums whose values the code reads.
\<close>

datatype source_type = CONFLUENCE | JIRA | FILESHARE

datatype scan_trigger = MANUAL | SCHEDULED

datatype scan_mode = FULL | INCREMENTAL

datatype cursor_invalidation_reason =
    NO_CURSOR | SOURCE_CONFIGURATION_CHANGED | RULEPACK_CHANGED | PEPPER_ROTATING
  | INTERVAL_ELAPSED | CONNECTOR_UNSUPPORTED | OPERATOR_REQUESTED | SOURCE_REJECTED_CURSOR

datatype scan_status =
    SCAN_QUEUED | SCAN_DISCOVERING | SCAN_RUNNING | SCAN_COMPLETED | SCAN_PARTIAL | SCAN_FAILED
  | SCAN_CANCELLED

definition ACTIVE_SCAN_STATUSES :: "scan_status list" where
  "ACTIVE_SCAN_STATUSES = [SCAN_QUEUED, SCAN_DISCOVERING, SCAN_RUNNING]"

datatype scan_task_kind = DISCOVERY | FETCH

datatype scan_task_status =
    TASK_QUEUED | TASK_LEASED | TASK_RUNNING | TASK_COMPLETED | TASK_FAILED | TASK_CANCELLED

definition MAX_COVERAGE_GAP_REFERENCES :: nat where
  "MAX_COVERAGE_GAP_REFERENCES = 10000"

datatype coverage_reason =
    PERMISSION_DENIED | RATE_LIMITED | SIZE_LIMIT | OUTPUT_LIMIT | UNSUPPORTED_TYPE
  | CONNECTOR_ERROR | MISSING_RESOURCE | INVALID_METADATA | INVALID_RESPONSE | PARSE_ERROR
  | TIMEOUT | EMPTY_CONTENT | BINARY_CONTENT | CANCELLED_REASON | UNREPORTED

fun coverage_reason_value :: "coverage_reason \<Rightarrow> string" where
  "coverage_reason_value PERMISSION_DENIED = ''permission_denied''"
| "coverage_reason_value RATE_LIMITED = ''rate_limited''"
| "coverage_reason_value SIZE_LIMIT = ''size_limit''"
| "coverage_reason_value OUTPUT_LIMIT = ''output_limit''"
| "coverage_reason_value UNSUPPORTED_TYPE = ''unsupported_type''"
| "coverage_reason_value CONNECTOR_ERROR = ''connector_error''"
| "coverage_reason_value MISSING_RESOURCE = ''missing_resource''"
| "coverage_reason_value INVALID_METADATA = ''invalid_metadata''"
| "coverage_reason_value INVALID_RESPONSE = ''invalid_response''"
| "coverage_reason_value PARSE_ERROR = ''parse_error''"
| "coverage_reason_value TIMEOUT = ''timeout''"
| "coverage_reason_value EMPTY_CONTENT = ''empty_content''"
| "coverage_reason_value BINARY_CONTENT = ''binary_content''"
| "coverage_reason_value CANCELLED_REASON = ''cancelled''"
| "coverage_reason_value UNREPORTED = ''unreported''"

datatype coverage_state = COV_COMPLETE | COV_PARTIAL | COV_FAILED | COV_CANCELLED

datatype coverage_disposition = SKIPPED | FAILED | SCOPE_GAP

fun coverage_disposition_value :: "coverage_disposition \<Rightarrow> string" where
  "coverage_disposition_value SKIPPED = ''skipped''"
| "coverage_disposition_value FAILED = ''failed''"
| "coverage_disposition_value SCOPE_GAP = ''scope_gap''"

fun coverage_reasons_by_disposition :: "coverage_disposition \<Rightarrow> coverage_reason list" where
  "coverage_reasons_by_disposition SKIPPED = [UNSUPPORTED_TYPE, EMPTY_CONTENT, BINARY_CONTENT]"
| "coverage_reasons_by_disposition FAILED =
     [PERMISSION_DENIED, RATE_LIMITED, SIZE_LIMIT, OUTPUT_LIMIT, CONNECTOR_ERROR, MISSING_RESOURCE,
      INVALID_METADATA, INVALID_RESPONSE, PARSE_ERROR, TIMEOUT]"
| "coverage_reasons_by_disposition SCOPE_GAP =
     [PERMISSION_DENIED, RATE_LIMITED, CONNECTOR_ERROR, MISSING_RESOURCE, INVALID_METADATA,
      INVALID_RESPONSE, TIMEOUT, CANCELLED_REASON, UNREPORTED]"

definition coverage_reason_allowed :: "coverage_disposition \<Rightarrow> coverage_reason \<Rightarrow> bool" where
  "coverage_reason_allowed d r \<longleftrightarrow> r \<in> set (coverage_reasons_by_disposition d)"

datatype coverage_object_kind = SCOPE | PAGE | COMMENT_OBJECT | ATTACHMENT | PROJECT | RECORD | PATH

datatype finding_state = OPEN | FALSE_POSITIVE | ACCEPTED_RISK | RESOLVED

fun finding_state_value :: "finding_state \<Rightarrow> string" where
  "finding_state_value OPEN = ''open''"
| "finding_state_value FALSE_POSITIVE = ''false_positive''"
| "finding_state_value ACCEPTED_RISK = ''accepted_risk''"
| "finding_state_value RESOLVED = ''resolved''"

datatype finding_resolution = RES_MANUAL | RES_AUTO

datatype finding_event_kind =
    STATE_CHANGE | ASSIGN | COMMENT | SUPPRESSED | REOPENED | VALIDATION | REMEDIATION
  | REMEDIATION_VERIFIED | REMEDIATION_RETRACTED | OWNER

datatype remediation_action_kind = REVOKE | ROTATE | SCOPE_REDUCE | REMOVE_SOURCE | OTHER_ACTION

datatype remediation_verification = UNVERIFIED | VERIFIED

datatype validation_status = VAL_LIVE | VAL_REVOKED | VAL_UNKNOWN | VAL_BLOCKED | VAL_ERROR

fun validation_status_value :: "validation_status \<Rightarrow> string" where
  "validation_status_value VAL_LIVE = ''live''"
| "validation_status_value VAL_REVOKED = ''revoked''"
| "validation_status_value VAL_UNKNOWN = ''unknown''"
| "validation_status_value VAL_BLOCKED = ''blocked''"
| "validation_status_value VAL_ERROR = ''error''"

datatype validation_reason =
    CREDENTIAL_ACCEPTED | CREDENTIAL_REJECTED | PROVIDER_RATE_LIMITED | PROVIDER_UNAVAILABLE
  | INCONCLUSIVE_RESPONSE | VALIDATION_TIMEOUT | PROTOCOL_ERROR | POLICY_BUDGET_EXHAUSTED

datatype severity = LOW | MEDIUM | HIGH | CRITICAL

fun SEVERITY_RANK :: "severity \<Rightarrow> int" where
  "SEVERITY_RANK LOW = 0"
| "SEVERITY_RANK MEDIUM = 1"
| "SEVERITY_RANK HIGH = 2"
| "SEVERITY_RANK CRITICAL = 3"

datatype suppression_scope = PATH_GLOB | FINGERPRINT_SCOPE | RULE_SCOPE

fun suppression_scope_value :: "suppression_scope \<Rightarrow> string" where
  "suppression_scope_value PATH_GLOB = ''path_glob''"
| "suppression_scope_value FINGERPRINT_SCOPE = ''fingerprint''"
| "suppression_scope_value RULE_SCOPE = ''rule''"

datatype engine_status = ENGINE_ACTIVE | ENGINE_DRAINING | ENGINE_OFFLINE

datatype notification_channel_type = EMAIL | WEBHOOK

datatype notification_delivery_status = PENDING | DELIVERED | DELIVERY_FAILED

section \<open>Severities are ordered by their rank\<close>

lemma SEVERITY_RANK_inj [simp]: "SEVERITY_RANK a = SEVERITY_RANK b \<longleftrightarrow> a = b"
  by (cases a; cases b) simp_all

instantiation severity :: linorder
begin

definition less_eq_severity :: "severity \<Rightarrow> severity \<Rightarrow> bool" where
  "less_eq_severity a b \<longleftrightarrow> SEVERITY_RANK a \<le> SEVERITY_RANK b"

definition less_severity :: "severity \<Rightarrow> severity \<Rightarrow> bool" where
  "less_severity a b \<longleftrightarrow> SEVERITY_RANK a < SEVERITY_RANK b"

instance
  by standard (auto simp: less_eq_severity_def less_severity_def)

end

section \<open>Wire values are injective\<close>

lemma coverage_reason_value_inj [simp]:
  "coverage_reason_value a = coverage_reason_value b \<longleftrightarrow> a = b"
  by (cases a; cases b) simp_all

lemma coverage_disposition_value_inj [simp]:
  "coverage_disposition_value a = coverage_disposition_value b \<longleftrightarrow> a = b"
  by (cases a; cases b) simp_all

end
