(* ===== verification/Coverage.thy ===== *)
theory Coverage
  imports Iceberg_Prelude Iceberg_Enums "HOL-Library.AList" "HOL-Library.Multiset"
    "HOL-Library.Product_Lexorder"
begin

text \<open>
  Coverage reports: the wire models of \<^verbatim>\<open>apps/api/src/iceberg_api/engines/schemas.py\<close>
  (\<open>CoverageCounts\<close>, \<open>CoverageScope\<close>, \<open>CoverageReasonCount\<close>, \<open>CoverageGap\<close>,
  \<open>TaskCoverageReport\<close>) with their validators, and the report half of
  \<^verbatim>\<open>scans/coverage.py\<close>: accumulation of batches, the API's own failure and cancellation
  reports, and reading back what a task row stores.  A pydantic model is a record; its
  constructor is the record together with its validator, and a failed validator is the
  \<open>ValidationError\<close> branch.  Counters are insertion-ordered association lists, which is what
  \<open>collections.Counter\<close> iterates.
\<close>

section \<open>Counters\<close>

type_synonym 'k counter = "('k \<times> nat) list"

definition counter_get :: "'k counter \<Rightarrow> 'k \<Rightarrow> nat" where
  "counter_get c k = (case map_of c k of None \<Rightarrow> 0 | Some n \<Rightarrow> n)"

definition counter_add :: "'k \<Rightarrow> nat \<Rightarrow> 'k counter \<Rightarrow> 'k counter" where
  "counter_add k n c = AList.update k (counter_get c k + n) c"

definition counter_total :: "('k \<Rightarrow> bool) \<Rightarrow> 'k counter \<Rightarrow> nat" where
  "counter_total P c = (\<Sum>(k, n) \<leftarrow> c. if P k then n else 0)"

section \<open>Report models\<close>

record coverage_counts =
  cc_requested :: nat
  cc_discovered :: nat
  cc_scanned :: nat
  cc_skipped :: nat
  cc_failed :: nat

definition valid_counts :: "coverage_counts \<Rightarrow> bool" where
  "valid_counts c \<longleftrightarrow>
     cc_requested c = cc_discovered c \<and>
     cc_discovered c = cc_scanned c + cc_skipped c + cc_failed c"

record coverage_scope =
  cs_requested :: "nat option"
  cs_discovered :: nat
  cs_gaps :: nat

definition valid_scope :: "coverage_scope \<Rightarrow> bool" where
  "valid_scope s \<longleftrightarrow>
     (case cs_requested s of None \<Rightarrow> True | Some r \<Rightarrow> r = cs_discovered s + cs_gaps s)"

type_synonym reason_key = "coverage_disposition \<times> coverage_reason"

record coverage_reason_count =
  rc_outcome :: coverage_disposition
  rc_reason :: coverage_reason
  rc_count :: nat

definition reason_key :: "coverage_reason_count \<Rightarrow> reason_key" where
  "reason_key e = (rc_outcome e, rc_reason e)"

definition valid_reason_count :: "coverage_reason_count \<Rightarrow> bool" where
  "valid_reason_count e \<longleftrightarrow> rc_count e > 0 \<and> coverage_reason_allowed (rc_outcome e) (rc_reason e)"

record coverage_gap =
  gap_kind :: coverage_object_kind
  gap_outcome :: coverage_disposition
  gap_reason :: coverage_reason
  gap_reference :: pystr

definition gap_key :: "coverage_gap \<Rightarrow> reason_key" where
  "gap_key g = (gap_outcome g, gap_reason g)"

text \<open>The pattern \<open>^[0-9a-f]{64}$\<close>.\<close>

definition is_reference :: "pystr \<Rightarrow> bool" where
  "is_reference r \<longleftrightarrow>
     length r = 64 \<and> list_all (\<lambda>c. (48 \<le> c \<and> c \<le> 57) \<or> (97 \<le> c \<and> c \<le> 102)) r"

definition valid_gap :: "coverage_gap \<Rightarrow> bool" where
  "valid_gap g \<longleftrightarrow>
     is_reference (gap_reference g) \<and> (gap_outcome g = SCOPE_GAP) = (gap_kind g = SCOPE)"

record task_coverage_report =
  tc_version :: string
  tc_phase :: scan_task_kind
  tc_counts :: coverage_counts
  tc_scope :: coverage_scope
  tc_reasons :: "coverage_reason_count list"
  tc_gaps :: "coverage_gap list"
  tc_gaps_omitted :: nat

definition outcome_total :: "coverage_reason_count list \<Rightarrow> coverage_disposition \<Rightarrow> nat" where
  "outcome_total es d = (\<Sum>e \<leftarrow> filter (\<lambda>e. rc_outcome e = d) es. rc_count e)"

definition gap_totals :: "coverage_gap list \<Rightarrow> reason_key counter" where
  "gap_totals gs = fold (\<lambda>g. counter_add (gap_key g) 1) gs []"

definition reconciles :: "task_coverage_report \<Rightarrow> bool" where
  "reconciles r \<longleftrightarrow>
     (let c = tc_counts r; s = tc_scope r; es = tc_reasons r; gs = tc_gaps r in
      distinct (map reason_key es) \<and>
      outcome_total es SKIPPED = cc_skipped c \<and>
      outcome_total es FAILED = cc_failed c \<and>
      outcome_total es SCOPE_GAP = cs_gaps s \<and>
      length gs + tc_gaps_omitted r = cc_skipped c + cc_failed c + cs_gaps s \<and>
      list_all (\<lambda>g. list_ex (\<lambda>e. reason_key e = gap_key g) es) gs \<and>
      list_all (\<lambda>(k, n). n \<le> counter_get (map (\<lambda>e. (reason_key e, rc_count e)) es) k) (gap_totals gs) \<and>
      (tc_phase r = DISCOVERY \<longrightarrow>
         cc_requested c = 0 \<and> cc_discovered c = 0 \<and> cc_scanned c = 0 \<and>
         cc_skipped c = 0 \<and> cc_failed c = 0))"

definition valid_report :: "task_coverage_report \<Rightarrow> bool" where
  "valid_report r \<longleftrightarrow>
     tc_version r = ''1'' \<and> valid_counts (tc_counts r) \<and> valid_scope (tc_scope r) \<and>
     list_all valid_reason_count (tc_reasons r) \<and> list_all valid_gap (tc_gaps r) \<and>
     length (tc_gaps r) \<le> MAX_COVERAGE_GAP_REFERENCES \<and> reconciles r"

definition TaskCoverageReport :: "task_coverage_report \<Rightarrow> py_error + task_coverage_report" where
  "TaskCoverageReport r = (if valid_report r then Inr r else Inl (ValueError ''ValidationError''))"

section \<open>Accumulation\<close>

definition count_reasons :: "coverage_reason_count list \<Rightarrow> reason_key counter \<Rightarrow> reason_key counter" where
  "count_reasons es c = fold (\<lambda>e. counter_add (reason_key e) (rc_count e)) es c"

text \<open>\<open>sorted(reasons.items(), key=...)\<close> by the two wire values, as reason counts.\<close>

definition reason_counts :: "reason_key counter \<Rightarrow> coverage_reason_count list" where
  "reason_counts c =
     map (\<lambda>((d, r), n). \<lparr>rc_outcome = d, rc_reason = r, rc_count = n\<rparr>)
       (sort_key (\<lambda>((d, r), _). (coverage_disposition_value d, coverage_reason_value r)) c)"

definition add_counts :: "coverage_counts \<Rightarrow> coverage_counts \<Rightarrow> coverage_counts" where
  "add_counts a b =
     \<lparr>cc_requested = cc_requested a + cc_requested b,
      cc_discovered = cc_discovered a + cc_discovered b,
      cc_scanned = cc_scanned a + cc_scanned b,
      cc_skipped = cc_skipped a + cc_skipped b,
      cc_failed = cc_failed a + cc_failed b\<rparr>"

definition add_requested :: "nat option \<Rightarrow> nat option \<Rightarrow> nat option" where
  "add_requested a b = (case (a, b) of (Some x, Some y) \<Rightarrow> Some (x + y) | _ \<Rightarrow> None)"

definition add_scope :: "coverage_scope \<Rightarrow> coverage_scope \<Rightarrow> coverage_scope" where
  "add_scope a b =
     \<lparr>cs_requested = add_requested (cs_requested a) (cs_requested b),
      cs_discovered = cs_discovered a + cs_discovered b,
      cs_gaps = cs_gaps a + cs_gaps b\<rparr>"

definition merge_task_report ::
  "task_coverage_report option \<Rightarrow> task_coverage_report \<Rightarrow> py_error + task_coverage_report" where
  "merge_task_report existing delta =
     (case existing of
        None \<Rightarrow> Inr delta
      | Some e \<Rightarrow>
          if tc_phase e \<noteq> tc_phase delta
          then Inl (ValueError ''coverage batches disagree about the task phase'')
          else
            let reasons = count_reasons (tc_reasons e @ tc_reasons delta) [];
                gaps = tc_gaps e @ tc_gaps delta;
                retained = take MAX_COVERAGE_GAP_REFERENCES gaps
            in TaskCoverageReport
                 \<lparr>tc_version = tc_version e,
                  tc_phase = tc_phase e,
                  tc_counts = add_counts (tc_counts e) (tc_counts delta),
                  tc_scope = add_scope (tc_scope e) (tc_scope delta),
                  tc_reasons = reason_counts reasons,
                  tc_gaps = retained,
                  tc_gaps_omitted =
                    tc_gaps_omitted e + tc_gaps_omitted delta + (length gaps - length retained)\<rparr>)"

definition failure_report :: "scan_task_kind \<Rightarrow> coverage_reason \<Rightarrow> task_coverage_report" where
  "failure_report phase reason =
     \<lparr>tc_version = ''1'',
      tc_phase = phase,
      tc_counts = \<lparr>cc_requested = 0, cc_discovered = 0, cc_scanned = 0, cc_skipped = 0, cc_failed = 0\<rparr>,
      tc_scope = \<lparr>cs_requested = None, cs_discovered = 0, cs_gaps = 1\<rparr>,
      tc_reasons = [\<lparr>rc_outcome = SCOPE_GAP, rc_reason = reason, rc_count = 1\<rparr>],
      tc_gaps = [],
      tc_gaps_omitted = 1\<rparr>"

text \<open>
  What the JSON column \<open>ScanTask.coverage\<close> holds: nothing, something that is not a report of
  the schema's shape (an older engine, a corrupt row), or a dumped report.
\<close>

datatype stored_coverage = NoCoverage | Malformed | Stored task_coverage_report

definition validated_report :: "scan_task_kind \<Rightarrow> stored_coverage \<Rightarrow> task_coverage_report option" where
  "validated_report kind cov =
     (case cov of
        NoCoverage \<Rightarrow> None
      | Malformed \<Rightarrow> None
      | Stored r \<Rightarrow> if valid_report r then (if tc_phase r = kind then Some r else None) else None)"

definition stored_task_report :: "scan_task_kind \<Rightarrow> stored_coverage \<Rightarrow> task_coverage_report option" where
  "stored_task_report kind cov = validated_report kind cov"

definition cancelled_report :: "scan_task_kind \<Rightarrow> stored_coverage \<Rightarrow> py_error + task_coverage_report" where
  "cancelled_report kind cov =
     bindE (TaskCoverageReport (failure_report kind CANCELLED_REASON)) (\<lambda>cancelled.
       merge_task_report (stored_task_report kind cov) cancelled)"

section \<open>Counter laws\<close>

lemma counter_get_Nil [simp]: "counter_get [] k = 0"
  by (simp add: counter_get_def)

lemma counter_get_add [simp]:
  "counter_get (counter_add k n c) k' = counter_get c k' + (if k = k' then n else 0)"
  by (auto simp: counter_get_def counter_add_def update_conv)

lemma keys_counter_add [simp]: "fst ` set (counter_add k n c) = insert k (fst ` set c)"
  by (simp add: counter_add_def dom_update)

lemma distinct_counter_add [simp]:
  "distinct (map fst c) \<Longrightarrow> distinct (map fst (counter_add k n c))"
  by (simp add: counter_add_def distinct_update)

lemma counter_get_Cons:
  "counter_get ((k, n) # c) k' = (if k = k' then n else counter_get c k')"
  by (simp add: counter_get_def)

lemma counter_get_in: "distinct (map fst c) \<Longrightarrow> (k, n) \<in> set c \<Longrightarrow> counter_get c k = n"
  by (simp add: counter_get_def)

lemma counter_get_mset:
  "mset c = mset c' \<Longrightarrow> distinct (map fst c) \<Longrightarrow> counter_get c = counter_get c'"
proof -
  assume a: "mset c = mset c'" "distinct (map fst c)"
  then have "distinct (map fst c')" by (metis mset_eq_imp_distinct_iff mset_map)
  then have "map_of c = map_of c'"
    using a by (metis map_of_eqI map_of_inject_set mset_eq_setD set_map)
  then show ?thesis by (simp add: counter_get_def fun_eq_iff)
qed

lemma counter_get_notin: "k \<notin> fst ` set c \<Longrightarrow> counter_get c k = 0"
  by (metis counter_get_def map_of_eq_None_iff option.case(1))

lemma AList_update_total:
  "distinct (map fst c) \<Longrightarrow>
   counter_total P (AList.update k n c) + (if P k then counter_get c k else 0) =
     counter_total P c + (if P k then n else 0)"
proof (induction c)
  case Nil
  then show ?case by (simp add: counter_total_def)
next
  case (Cons x c)
  obtain a b where x: "x = (a, b)" by (cases x)
  have d: "distinct (map fst c)" and "a \<notin> fst ` set c" using Cons.prems x by auto
  then show ?case
    using Cons.IH [OF d] by (auto simp: x counter_total_def counter_get_Cons)
qed

lemma counter_total_add [simp]:
  "distinct (map fst c) \<Longrightarrow>
   counter_total P (counter_add k n c) = counter_total P c + (if P k then n else 0)"
  using AList_update_total [of c P k "counter_get c k + n"] by (auto simp: counter_add_def)

lemma fold_counter_add:
  assumes "distinct (map fst c)"
  shows "distinct (map fst (fold (\<lambda>x. counter_add (f x) (g x)) xs c))"
    and "fst ` set (fold (\<lambda>x. counter_add (f x) (g x)) xs c) = fst ` set c \<union> f ` set xs"
    and "counter_get (fold (\<lambda>x. counter_add (f x) (g x)) xs c) k =
      counter_get c k + (\<Sum>x \<leftarrow> xs. if f x = k then g x else 0)"
    and "counter_total P (fold (\<lambda>x. counter_add (f x) (g x)) xs c) =
      counter_total P c + (\<Sum>x \<leftarrow> xs. if P (f x) then g x else 0)"
proof -
  let ?F = "\<lambda>c. fold (\<lambda>x. counter_add (f x) (g x)) xs c"
  have "distinct (map fst (?F c)) \<and> fst ` set (?F c) = fst ` set c \<union> f ` set xs \<and>
      counter_get (?F c) k = counter_get c k + (\<Sum>x \<leftarrow> xs. if f x = k then g x else 0) \<and>
      counter_total P (?F c) = counter_total P c + (\<Sum>x \<leftarrow> xs. if P (f x) then g x else 0)"
    using assms
  proof (induction xs arbitrary: c)
    case Nil
    then show ?case by simp
  next
    case (Cons x xs)
    show ?case using Cons.IH [OF distinct_counter_add [OF Cons.prems]] Cons.prems by auto
  qed
  then show "distinct (map fst (?F c))" "fst ` set (?F c) = fst ` set c \<union> f ` set xs"
    "counter_get (?F c) k = counter_get c k + (\<Sum>x \<leftarrow> xs. if f x = k then g x else 0)"
    "counter_total P (?F c) = counter_total P c + (\<Sum>x \<leftarrow> xs. if P (f x) then g x else 0)"
    by auto
qed

section \<open>Reason counts\<close>

lemma count_reasons_props:
  assumes "distinct (map fst c)"
  shows "distinct (map fst (count_reasons es c))"
    and "fst ` set (count_reasons es c) = fst ` set c \<union> reason_key ` set es"
    and "counter_get (count_reasons es c) k =
      counter_get c k + (\<Sum>e \<leftarrow> es. if reason_key e = k then rc_count e else 0)"
    and "counter_total P (count_reasons es c) =
      counter_total P c + (\<Sum>e \<leftarrow> es. if P (reason_key e) then rc_count e else 0)"
  unfolding count_reasons_def by (rule fold_counter_add [OF assms])+

lemma outcome_total_alt: "outcome_total es d = (\<Sum>e \<leftarrow> es. if rc_outcome e = d then rc_count e else 0)"
  by (induction es) (auto simp: outcome_total_def)

lemma outcome_total_append [simp]: "outcome_total (es @ fs) d = outcome_total es d + outcome_total fs d"
  by (simp add: outcome_total_alt)

definition as_reason_count :: "reason_key \<times> nat \<Rightarrow> coverage_reason_count" where
  "as_reason_count = (\<lambda>((d, r), n). \<lparr>rc_outcome = d, rc_reason = r, rc_count = n\<rparr>)"

lemma as_reason_count_simps [simp]:
  "reason_key (as_reason_count x) = fst x" "rc_count (as_reason_count x) = snd x"
  "rc_outcome (as_reason_count x) = fst (fst x)" "rc_reason (as_reason_count x) = snd (fst x)"
  by (auto simp: as_reason_count_def reason_key_def split: prod.splits)

lemma reason_counts_sorted:
  obtains c' where "reason_counts c = map as_reason_count c'" "mset c' = mset c"
  unfolding reason_counts_def as_reason_count_def by (metis mset_sort)

lemma sum_list_mset_cong: "mset xs = mset ys \<Longrightarrow> (\<Sum>x \<leftarrow> xs. f x) = (\<Sum>x \<leftarrow> ys. f x :: nat)"
  by (metis mset_map sum_mset_sum_list)

lemma outcome_total_reason_counts [simp]:
  "outcome_total (reason_counts c) d = counter_total (\<lambda>k. fst k = d) c"
proof -
  obtain c' where c: "reason_counts c = map as_reason_count c'" "mset c' = mset c"
    by (rule reason_counts_sorted)
  have "outcome_total (reason_counts c) d = (\<Sum>x \<leftarrow> c'. if fst (fst x) = d then snd x else 0)"
    by (simp add: c outcome_total_alt o_def cong: if_cong)
  also have "\<dots> = (\<Sum>x \<leftarrow> c. if fst (fst x) = d then snd x else 0)" by (rule sum_list_mset_cong [OF c(2)])
  also have "\<dots> = counter_total (\<lambda>k. fst k = d) c" by (simp add: counter_total_def case_prod_unfold)
  finally show ?thesis .
qed

lemma set_reason_counts [simp]: "set (reason_counts c) = as_reason_count ` set c"
  by (rule reason_counts_sorted [of c]) (metis mset_eq_setD set_map)

lemma reason_keys_distinct:
  "distinct (map fst c) \<Longrightarrow> distinct (map reason_key (reason_counts c))"
  by (rule reason_counts_sorted [of c])
    (simp add: o_def, metis mset_eq_imp_distinct_iff mset_map)

lemma counter_get_reason_counts:
  assumes "distinct (map fst c)"
  shows "counter_get (map (\<lambda>e. (reason_key e, rc_count e)) (reason_counts c)) k = counter_get c k"
proof -
  obtain c' where c: "reason_counts c = map as_reason_count c'" "mset c' = mset c"
    by (rule reason_counts_sorted)
  have "map (\<lambda>e. (reason_key e, rc_count e)) (reason_counts c) = c'" by (simp add: c o_def)
  moreover have "distinct (map fst c')" using assms c(2) by (metis mset_eq_imp_distinct_iff mset_map)
  ultimately show ?thesis using counter_get_mset [OF c(2)] by simp
qed

section \<open>Merging keeps reports valid\<close>

lemma gap_totals_props:
  "distinct (map fst (gap_totals gs))"
  "fst ` set (gap_totals gs) = gap_key ` set gs"
  "counter_get (gap_totals gs) k = (\<Sum>g \<leftarrow> gs. if gap_key g = k then 1 else 0)"
  unfolding gap_totals_def by (subst fold_counter_add; simp)+

text \<open>The check on \<open>gap_totals\<close>, key by key.\<close>

definition gap_count :: "coverage_gap list \<Rightarrow> reason_key \<Rightarrow> nat" where
  "gap_count gs k = (\<Sum>g \<leftarrow> gs. if gap_key g = k then 1 else 0)"

definition reason_total :: "coverage_reason_count list \<Rightarrow> reason_key \<Rightarrow> nat" where
  "reason_total es k = (\<Sum>e \<leftarrow> es. if reason_key e = k then rc_count e else 0)"

lemma gap_totals_bounded_iff:
  "list_all (\<lambda>(k, n). n \<le> f k) (gap_totals gs) \<longleftrightarrow> (\<forall>k. gap_count gs k \<le> f k)"
proof
  assume l: "list_all (\<lambda>(k, n). n \<le> f k) (gap_totals gs)"
  show "\<forall>k. gap_count gs k \<le> f k"
  proof
    fix k
    show "gap_count gs k \<le> f k"
    proof (cases "k \<in> fst ` set (gap_totals gs)")
      case True
      then obtain n where n: "(k, n) \<in> set (gap_totals gs)" by auto
      then have "n = gap_count gs k"
        using counter_get_in [OF gap_totals_props(1) n] by (simp add: gap_totals_props(3) gap_count_def)
      then show ?thesis using l n by (auto simp: list_all_iff)
    next
      case False
      then have "gap_count gs k = 0"
        using counter_get_notin [OF False] by (simp only: gap_totals_props(3) gap_count_def)
      then show ?thesis by simp
    qed
  qed
next
  assume a: "\<forall>k. gap_count gs k \<le> f k"
  have "n \<le> f k" if "(k, n) \<in> set (gap_totals gs)" for k n
    using counter_get_in [OF gap_totals_props(1) that] a
    by (metis gap_count_def gap_totals_props(3))
  then show "list_all (\<lambda>(k, n). n \<le> f k) (gap_totals gs)" by (auto simp: list_all_iff)
qed

lemma reason_lookup_total:
  "distinct (map reason_key es) \<Longrightarrow>
   counter_get (map (\<lambda>e. (reason_key e, rc_count e)) es) k = reason_total es k"
proof (induction es)
  case Nil
  then show ?case by (simp add: reason_total_def)
next
  case (Cons e es)
  have z: "reason_total es (reason_key e) = 0"
    using Cons.prems by (auto simp: reason_total_def sum_list_eq_0_iff image_iff)
  show ?case
    using Cons z by (cases "reason_key e = k") (auto simp: counter_get_Cons reason_total_def)
qed

lemma gap_count_append [simp]: "gap_count (gs @ hs) k = gap_count gs k + gap_count hs k"
  by (simp add: gap_count_def)

lemma gap_count_take_le: "gap_count (take n gs) k \<le> gap_count gs k"
proof -
  have "gap_count gs k = gap_count (take n gs) k + gap_count (drop n gs) k"
    by (metis append_take_drop_id gap_count_append)
  then show ?thesis by simp
qed

lemma reconciles_iff:
  "reconciles r \<longleftrightarrow>
     distinct (map reason_key (tc_reasons r)) \<and>
     outcome_total (tc_reasons r) SKIPPED = cc_skipped (tc_counts r) \<and>
     outcome_total (tc_reasons r) FAILED = cc_failed (tc_counts r) \<and>
     outcome_total (tc_reasons r) SCOPE_GAP = cs_gaps (tc_scope r) \<and>
     length (tc_gaps r) + tc_gaps_omitted r =
       cc_skipped (tc_counts r) + cc_failed (tc_counts r) + cs_gaps (tc_scope r) \<and>
     (\<forall>g \<in> set (tc_gaps r). gap_key g \<in> reason_key ` set (tc_reasons r)) \<and>
     (\<forall>k. gap_count (tc_gaps r) k \<le> reason_total (tc_reasons r) k) \<and>
     (tc_phase r = DISCOVERY \<longrightarrow>
        cc_requested (tc_counts r) = 0 \<and> cc_discovered (tc_counts r) = 0 \<and>
        cc_scanned (tc_counts r) = 0 \<and> cc_skipped (tc_counts r) = 0 \<and> cc_failed (tc_counts r) = 0)"
  unfolding reconciles_def Let_def gap_totals_bounded_iff
  by (auto simp: reason_lookup_total list_all_iff list_ex_iff image_iff)
     (metis)+

text \<open>The report that \<open>merge_task_report\<close> builds, before its validator runs.\<close>

definition merged_report ::
  "task_coverage_report \<Rightarrow> task_coverage_report \<Rightarrow> task_coverage_report" where
  "merged_report e d =
     \<lparr>tc_version = tc_version e, tc_phase = tc_phase e,
      tc_counts = add_counts (tc_counts e) (tc_counts d),
      tc_scope = add_scope (tc_scope e) (tc_scope d),
      tc_reasons = reason_counts (count_reasons (tc_reasons e @ tc_reasons d) []),
      tc_gaps = take MAX_COVERAGE_GAP_REFERENCES (tc_gaps e @ tc_gaps d),
      tc_gaps_omitted = tc_gaps_omitted e + tc_gaps_omitted d +
        (length (tc_gaps e @ tc_gaps d) -
         length (take MAX_COVERAGE_GAP_REFERENCES (tc_gaps e @ tc_gaps d)))\<rparr>"

lemma merge_Some:
  "tc_phase e = tc_phase d \<Longrightarrow> merge_task_report (Some e) d = TaskCoverageReport (merged_report e d)"
  unfolding merge_task_report_def merged_report_def Let_def
  by (simp del: length_append take_append length_take)

lemma merged_reasons:
  fixes e d
  defines "c \<equiv> count_reasons (tc_reasons e @ tc_reasons d) []"
  shows "distinct (map fst c)"
    and "fst ` set c = reason_key ` (set (tc_reasons e) \<union> set (tc_reasons d))"
    and "counter_get c k = reason_total (tc_reasons e) k + reason_total (tc_reasons d) k"
    and "counter_total (\<lambda>k. fst k = o') c = outcome_total (tc_reasons e) o' + outcome_total (tc_reasons d) o'"
  unfolding c_def
  by (simp_all add: count_reasons_props reason_total_def counter_total_def [of _ "[]"] outcome_total_alt
      reason_key_def [of x for x] image_Un cong: if_cong)

lemma as_reason_count_valid:
  assumes "x \<in> set (count_reasons es [])" and "list_all valid_reason_count es"
  shows "valid_reason_count (as_reason_count x)"
proof -
  have "fst x \<in> reason_key ` set es"
    using assms(1) count_reasons_props(2) [of "[]" es] by force
  then obtain e where e: "e \<in> set es" "reason_key e = fst x" by auto
  then have v: "valid_reason_count e" using assms(2) by (auto simp: list_all_iff)
  have "snd x = (\<Sum>e \<leftarrow> es. if reason_key e = fst x then rc_count e else 0)"
    using counter_get_in [of "count_reasons es []" "fst x" "snd x"] assms(1)
    by (simp add: count_reasons_props)
  also have "\<dots> \<ge> rc_count e"
    using e by (intro member_le_sum_list) (force simp: image_iff, simp)
  finally have "snd x > 0" using v by (simp add: valid_reason_count_def)
  moreover have "coverage_reason_allowed (fst (fst x)) (snd (fst x))"
    using v by (simp add: valid_reason_count_def flip: e(2)) (simp add: reason_key_def)
  ultimately show ?thesis by (simp add: valid_reason_count_def)
qed

lemma merged_report_reconciles:
  assumes e: "reconciles e" and d: "reconciles d" and "tc_phase e = tc_phase d"
  shows "reconciles (merged_report e d)"
proof -
  let ?c = "count_reasons (tc_reasons e @ tc_reasons d) []"
  note c = merged_reasons [where e = e and d = d]
  have total: "reason_total (reason_counts ?c) k =
      reason_total (tc_reasons e) k + reason_total (tc_reasons d) k" for k
    using reason_lookup_total [OF reason_keys_distinct [OF c(1)], of k]
    by (simp add: counter_get_reason_counts [OF c(1)] c(3))
  have keys: "reason_key ` set (reason_counts ?c) = reason_key ` (set (tc_reasons e) \<union> set (tc_reasons d))"
    by (simp add: image_image c(2))
  have "gap_count (take MAX_COVERAGE_GAP_REFERENCES (tc_gaps e @ tc_gaps d)) k \<le>
      reason_total (reason_counts ?c) k" for k
  proof -
    have "gap_count (tc_gaps e) k \<le> reason_total (tc_reasons e) k"
      "gap_count (tc_gaps d) k \<le> reason_total (tc_reasons d) k"
      using e d unfolding reconciles_iff by blast+
    then show ?thesis
      using gap_count_take_le [of MAX_COVERAGE_GAP_REFERENCES "tc_gaps e @ tc_gaps d" k]
      unfolding total gap_count_append by linarith
  qed
  moreover have "\<forall>g \<in> set (take MAX_COVERAGE_GAP_REFERENCES (tc_gaps e @ tc_gaps d)).
      gap_key g \<in> reason_key ` set (reason_counts ?c)"
    unfolding keys using e d by (auto simp: reconciles_iff dest!: in_set_takeD)
  ultimately show ?thesis
    using assms unfolding reconciles_iff [of "merged_report e d"]
    by (simp add: merged_report_def c(4) reason_keys_distinct [OF c(1)] add_counts_def add_scope_def
        reconciles_iff del: set_reason_counts take_append)
qed

lemma merged_report_valid:
  assumes "valid_report e" and "valid_report d" and "tc_phase e = tc_phase d"
  shows "valid_report (merged_report e d)"
proof -
  have r: "list_all valid_reason_count (tc_reasons (merged_report e d))"
    using assms by (auto simp: merged_report_def list_all_iff valid_report_def
        intro!: as_reason_count_valid)
  have g: "list_all valid_gap (tc_gaps (merged_report e d))"
    using assms by (auto simp: merged_report_def list_all_iff valid_report_def dest!: in_set_takeD)
  have c: "valid_counts (tc_counts (merged_report e d))" "valid_scope (tc_scope (merged_report e d))"
    using assms by (auto simp: merged_report_def valid_report_def valid_counts_def valid_scope_def
        add_counts_def add_scope_def add_requested_def split: option.splits)
  show ?thesis
    using r g c merged_report_reconciles [of e d] assms
    by (auto simp: valid_report_def) (auto simp: merged_report_def)
qed

lemma merge_valid:
  assumes "valid_report e" and "valid_report d" and "tc_phase e = tc_phase d"
  shows "merge_task_report (Some e) d = Inr (merged_report e d)"
  using merged_report_valid [OF assms] merge_Some [OF assms(3)] by (simp add: TaskCoverageReport_def)

section \<open>The accumulation contract\<close>

text \<open>
  What the submission routes rely on: batches of one phase merge without an error, the result
  is again a valid report of that phase, and every \<open>measure\<close> of a report (a count of objects or
  of gaps) adds up.  The client lemma is about any sequence of batches.
\<close>

fun accumulate :: "('r option \<Rightarrow> 'r \<Rightarrow> 'e + 'r) \<Rightarrow> 'r option \<Rightarrow> 'r list \<Rightarrow> 'e + 'r option" where
  "accumulate merge acc [] = Inr acc"
| "accumulate merge acc (d # ds) = bindE (merge acc d) (\<lambda>m. accumulate merge (Some m) ds)"

locale report_accumulation =
  fixes merge :: "'r option \<Rightarrow> 'r \<Rightarrow> 'e + 'r"
    and ok :: "'r \<Rightarrow> bool"
    and phase :: "'r \<Rightarrow> 'p"
    and measures :: "('r \<Rightarrow> nat) set"
  assumes merge_first: "merge None d = Inr d"
    and merge_next: "ok e \<Longrightarrow> ok d \<Longrightarrow> phase e = phase d \<Longrightarrow>
      \<exists>m. merge (Some e) d = Inr m \<and> ok m \<and> phase m = phase d \<and>
          (\<forall>w \<in> measures. w m = w e + w d)"
begin

lemma accumulate_onto:
  assumes "ok e" and "phase e = p" and "\<forall>d \<in> set ds. ok d \<and> phase d = p"
  shows "\<exists>m. accumulate merge (Some e) ds = Inr (Some m) \<and> ok m \<and> phase m = p \<and>
    (\<forall>w \<in> measures. w m = w e + (\<Sum>d \<leftarrow> ds. w d))"
  using assms
proof (induction ds arbitrary: e)
  case Nil
  then show ?case by simp
next
  case (Cons d ds)
  then obtain m where m: "merge (Some e) d = Inr m" "ok m" "phase m = p"
      "\<forall>w \<in> measures. w m = w e + w d"
    using merge_next [of e d] by auto
  then show ?case using Cons.IH [of m] Cons.prems by fastforce
qed

lemma accumulate_total:
  assumes "ds \<noteq> []" and "\<forall>d \<in> set ds. ok d \<and> phase d = p"
  shows "\<exists>m. accumulate merge None ds = Inr (Some m) \<and> ok m \<and> phase m = p \<and>
    (\<forall>w \<in> measures. w m = (\<Sum>d \<leftarrow> ds. w d))"
proof (cases ds)
  case Nil
  then show ?thesis using assms by simp
next
  case (Cons d rest)
  then show ?thesis
    using accumulate_onto [of d p rest] assms by (auto simp: merge_first)
qed

end

definition report_measures :: "(task_coverage_report \<Rightarrow> nat) set" where
  "report_measures =
     {\<lambda>r. cc_requested (tc_counts r), \<lambda>r. cc_discovered (tc_counts r), \<lambda>r. cc_scanned (tc_counts r),
      \<lambda>r. cc_skipped (tc_counts r), \<lambda>r. cc_failed (tc_counts r), \<lambda>r. cs_discovered (tc_scope r),
      \<lambda>r. cs_gaps (tc_scope r), \<lambda>r. length (tc_gaps r) + tc_gaps_omitted r}"

lemma merged_report_measures:
  "w \<in> report_measures \<Longrightarrow> w (merged_report e d) = w e + w d"
  by (auto simp: report_measures_def merged_report_def add_counts_def add_scope_def min_def)

interpretation task_reports: report_accumulation merge_task_report valid_report tc_phase report_measures
proof unfold_locales
  show "merge_task_report None d = Inr d" for d by (simp add: merge_task_report_def)
  show "\<exists>m. merge_task_report (Some e) d = Inr m \<and> valid_report m \<and> tc_phase m = tc_phase d \<and>
      (\<forall>w \<in> report_measures. w m = w e + w d)"
    if "valid_report e" "valid_report d" "tc_phase e = tc_phase d" for e d
    using merge_valid [OF that] merged_report_valid [OF that] that(3) merged_report_measures
    by (auto simp: merged_report_def)
qed

section \<open>The API's own reports\<close>

lemma failure_report_valid:
  "coverage_reason_allowed SCOPE_GAP reason \<Longrightarrow> valid_report (failure_report phase reason)"
  by (auto simp: valid_report_def failure_report_def valid_counts_def valid_scope_def
      valid_reason_count_def reconciles_def outcome_total_def gap_totals_def)

lemma validated_report_Some:
  "validated_report k cov = Some r \<longleftrightarrow> cov = Stored r \<and> valid_report r \<and> tc_phase r = k"
  by (auto simp: validated_report_def split: stored_coverage.splits if_splits)

text \<open>
  What a cancelled task reports: its own coverage with one more scope gap.
\<close>

lemma cancelled_report_Inr:
  "\<exists>r. cancelled_report k cov = Inr r \<and> valid_report r \<and> tc_phase r = k \<and>
     cs_gaps (tc_scope r) =
       (case validated_report k cov of None \<Rightarrow> 0 | Some e \<Rightarrow> cs_gaps (tc_scope e)) + 1 \<and>
     cc_scanned (tc_counts r) =
       (case validated_report k cov of None \<Rightarrow> 0 | Some e \<Rightarrow> cc_scanned (tc_counts e))"
proof -
  let ?f = "failure_report k CANCELLED_REASON"
  have f: "valid_report ?f" "tc_phase ?f = k" "cs_gaps (tc_scope ?f) = 1" "cc_scanned (tc_counts ?f) = 0"
    by (rule failure_report_valid, simp add: coverage_reason_allowed_def) (simp_all add: failure_report_def)
  have e: "cancelled_report k cov = merge_task_report (validated_report k cov) ?f"
    using f by (simp add: cancelled_report_def TaskCoverageReport_def stored_task_report_def)
  show ?thesis
  proof (cases "validated_report k cov")
    case None
    then show ?thesis using e f by (simp add: merge_task_report_def)
  next
    case (Some r)
    then have r: "valid_report r" "tc_phase r = k" by (auto simp: validated_report_Some)
    then show ?thesis
      using Some e f merge_valid [of r ?f] merged_report_valid [of r ?f]
      by (simp add: merged_report_def add_scope_def add_counts_def)
  qed
qed

section \<open>Properties\<close>

text \<open>
  C7.  Coverage batches accumulate exactly.  However many valid batches of one phase a task
  flushes, merging them one after another never raises, and the stored report is again valid,
  has the task's phase, and counts every object of every batch once: requested, scanned, skipped
  and failed objects, scope gaps, and gap references (retained or omitted) are the sums over the
  batches.
\<close>

theorem coverage_batches_accumulate_exactly:
  assumes "ds \<noteq> []" and "\<forall>d \<in> set ds. valid_report d \<and> tc_phase d = p"
  shows "\<exists>m. accumulate merge_task_report None ds = Inr (Some m) \<and> valid_report m \<and> tc_phase m = p \<and>
    cc_requested (tc_counts m) = (\<Sum>d \<leftarrow> ds. cc_requested (tc_counts d)) \<and>
    cc_scanned (tc_counts m) = (\<Sum>d \<leftarrow> ds. cc_scanned (tc_counts d)) \<and>
    cc_skipped (tc_counts m) = (\<Sum>d \<leftarrow> ds. cc_skipped (tc_counts d)) \<and>
    cc_failed (tc_counts m) = (\<Sum>d \<leftarrow> ds. cc_failed (tc_counts d)) \<and>
    cs_gaps (tc_scope m) = (\<Sum>d \<leftarrow> ds. cs_gaps (tc_scope d)) \<and>
    length (tc_gaps m) + tc_gaps_omitted m = (\<Sum>d \<leftarrow> ds. length (tc_gaps d) + tc_gaps_omitted d)"
proof -
  obtain m where m: "accumulate merge_task_report None ds = Inr (Some m)" "valid_report m"
      "tc_phase m = p" "\<forall>w \<in> report_measures. w m = (\<Sum>d \<leftarrow> ds. w d)"
    using task_reports.accumulate_total [OF assms] by blast
  then show ?thesis by (intro exI [of _ m]) (simp add: report_measures_def)
qed

abbreviation demo_batch :: task_coverage_report where
  "demo_batch \<equiv>
     \<lparr>tc_version = ''1'', tc_phase = FETCH,
      tc_counts = \<lparr>cc_requested = 3, cc_discovered = 3, cc_scanned = 2, cc_skipped = 1, cc_failed = 0\<rparr>,
      tc_scope = \<lparr>cs_requested = None, cs_discovered = 0, cs_gaps = 0\<rparr>,
      tc_reasons = [\<lparr>rc_outcome = SKIPPED, rc_reason = EMPTY_CONTENT, rc_count = 1\<rparr>],
      tc_gaps = [\<lparr>gap_kind = PAGE, gap_outcome = SKIPPED, gap_reason = EMPTY_CONTENT,
                 gap_reference = replicate 64 48\<rparr>],
      tc_gaps_omitted = 0\<rparr>"

theorem coverage_batches_accumulate_exactly_witness:
  "\<exists>m. accumulate merge_task_report None [demo_batch, demo_batch] = Inr (Some m) \<and>
     valid_report m \<and> cc_scanned (tc_counts m) = 4 \<and> length (tc_gaps m) + tc_gaps_omitted m = 2"
proof -
  have "valid_report demo_batch"
    by (simp add: valid_report_def valid_counts_def valid_scope_def valid_reason_count_def
        coverage_reason_allowed_def valid_gap_def is_reference_def list_all_iff
        reconciles_def outcome_total_def gap_totals_def gap_key_def reason_key_def counter_add_def
        counter_get_def MAX_COVERAGE_GAP_REFERENCES_def)
  then show ?thesis
    using coverage_batches_accumulate_exactly [of "[demo_batch, demo_batch]" FETCH]
    by (auto simp add: numeral_eq_Suc)
qed

end
