(* ===== verification/Iceberg_Models.thy ===== *)
theory Iceberg_Models
  imports Complex_Main Coverage
begin

text \<open>
  The control plane's tables, \<^verbatim>\<open>packages/core/src/iceberg_core/models\<close>, and the database as one
  record of them.  A row is a record with the table's columns; a table is the list of its rows in
  insertion order.  Primary keys are UUIDs read as their 128-bit value, so that the order of the
  natural numbers is the order of \<open>str(id)\<close>.  Timestamps are integers (microseconds, UTC).
  Floats are the rationals they denote.  Text columns are Python strings.  The id and creation
  time of an audit event are read by no modelled code and are left out.

  Two parts of the environment are kept in the same record: \<open>uuid4\<close> with the number of ids drawn
  from it, and the broker's queue of task ids.
\<close>

section \<open>JSON columns\<close>

datatype json =
    JNull
  | JBool bool
  | JInt int
  | JFloat rat
  | JStr pystr
  | JList "json list"
  | JObj "(pystr \<times> json) list"

type_synonym jdict = "(pystr \<times> json) list"

section \<open>Rows\<close>

record source =
  src_id :: nat
  src_name :: pystr
  src_type :: source_type
  src_connection :: jdict
  src_credential_ref :: "pystr option"
  src_tags :: "pystr list"
  src_enabled :: bool
  src_full_scan_interval_days :: nat
  src_updated_at :: int

record source_cursor =
  cur_source_id :: nat
  cur_scope :: pystr
  cur_position :: jdict
  cur_rulepack_version :: "pystr option"
  cur_source_configuration_version :: "int option"
  cur_minted_by_scan_id :: nat
  cur_minted_at :: int
  cur_invalidated_at :: "int option"
  cur_invalidation_reason :: "cursor_invalidation_reason option"

record engine =
  eng_id :: nat
  eng_name :: pystr
  eng_token_hash :: pystr
  eng_version :: "pystr option"
  eng_status :: engine_status
  eng_last_heartbeat_at :: "int option"
  eng_rulepack :: jdict

text \<open>The frozen \<open>CoverageManifest\<close> of a scan (\<^verbatim>\<open>scans/schemas.py\<close>).\<close>

record coverage_task_counts =
  ct_total :: nat
  ct_completed :: nat
  ct_failed :: nat
  ct_cancelled :: nat
  ct_reported :: nat
  ct_unreported :: nat

record coverage_manifest_gap =
  mg_task_id :: nat
  mg_phase :: scan_task_kind
  mg_gap :: coverage_gap

record coverage_manifest =
  m_scan_id :: nat
  m_source_id :: nat
  m_scan_status :: scan_status
  m_coverage_state :: coverage_state
  m_source_configuration_version :: "int option"
  m_rulepack_version :: "pystr option"
  m_finalized_at :: int
  m_counts :: coverage_counts
  m_scope :: coverage_scope
  m_reasons :: "coverage_reason_count list"
  m_task_counts :: coverage_task_counts
  m_gaps :: "coverage_manifest_gap list"
  m_gaps_omitted :: nat
  m_scan_mode :: scan_mode
  m_incremental_baseline :: "int option"
  m_promoted_from :: "scan_mode option"
  m_promotion_reason :: "cursor_invalidation_reason option"

text \<open>The column is empty, holds something that does not validate, or a dumped manifest.\<close>

datatype stored_manifest = NoManifest | MalformedManifest | StoredManifest coverage_manifest

record scan =
  s_id :: nat
  s_created_at :: int
  s_updated_at :: int
  s_source_id :: nat
  s_trigger :: scan_trigger
  s_status :: scan_status
  s_mode :: scan_mode
  s_promoted_from :: "scan_mode option"
  s_promotion_reason :: "cursor_invalidation_reason option"
  s_incremental_baseline_at :: "int option"
  s_rulepack_version :: "pystr option"
  s_counts :: jdict
  s_source_configuration_version :: "int option"
  s_coverage_manifest :: stored_manifest
  s_started_at :: "int option"
  s_finished_at :: "int option"
  s_error :: "pystr option"

record scan_task =
  t_id :: nat
  t_created_at :: int
  t_updated_at :: int
  t_scan_id :: nat
  t_kind :: scan_task_kind
  t_spec :: jdict
  t_status :: scan_task_status
  t_engine_id :: "nat option"
  t_lease_expires_at :: "int option"
  t_heartbeat_at :: "int option"
  t_attempts :: nat
  t_result_key :: "pystr option"
  t_coverage :: stored_coverage
  t_checkpoint :: jdict
  t_checkpoint_sequence :: nat
  t_cursor_proposal :: jdict
  t_checkpoint_context :: jdict
  t_started_at :: "int option"
  t_finished_at :: "int option"
  t_error :: "pystr option"

record finding =
  f_id :: nat
  f_created_at :: int
  f_source_id :: nat
  f_fingerprint :: pystr
  f_rule_id :: pystr
  f_rulepack_version :: pystr
  f_resource_locator :: jdict
  f_redacted_snippet :: pystr
  f_secret_hash :: pystr
  f_correlation_id :: "pystr option"
  f_entropy :: "rat option"
  f_confidence :: "rat option"
  f_severity :: severity
  f_validation_provider :: "pystr option"
  f_validation_validator_id :: "pystr option"
  f_validation_contract_version :: "pystr option"
  f_validation_status :: "validation_status option"
  f_validation_reason :: "validation_reason option"
  f_validated_at :: "int option"
  f_state :: finding_state
  f_resolution :: "finding_resolution option"
  f_assignee_id :: "nat option"
  f_owner_group_id :: "nat option"
  f_owner_pinned :: bool
  f_due_at :: "int option"
  f_notes :: "pystr option"
  f_suppressed_at :: "int option"
  f_suppressed_by_id :: "nat option"
  f_first_seen_scan_id :: nat
  f_last_seen_scan_id :: nat

text \<open>
  A value column of an event holds an enum value, an id or nothing; its comment is either free
  text a person wrote or one of the sentences the system composes around an id.
\<close>

datatype event_value = EV_State finding_state | EV_Validation validation_status
  | EV_Scope suppression_scope | EV_Id nat | EV_Action remediation_action_kind | EV_Verification remediation_verification

datatype event_comment = EC_Text pystr | EC_RoutedBy pystr | EC_SeenAgain nat | EC_NotSeen nat
  | EC_MatchedSuppression nat | EC_NoSuppression nat | EC_SuppressionDeleted nat
  | EC_SuppressionExpired nat | EC_SuppressionGone
  | EC_Validation pystr pystr pystr "validation_reason option"

record finding_event =
  ev_finding_id :: nat
  ev_actor_id :: "nat option"
  ev_scan_id :: "nat option"
  ev_kind :: finding_event_kind
  ev_from_value :: "event_value option"
  ev_to_value :: "event_value option"
  ev_comment :: "event_comment option"

record suppression =
  sup_id :: nat
  sup_scope :: suppression_scope
  sup_pattern :: pystr
  sup_source_id :: "nat option"
  sup_expires_at :: "int option"

record owner_group =
  og_id :: nat
  og_notification_channel_id :: "nat option"
  og_disabled :: bool

record routing_rule =
  rr_id :: nat
  rr_created_at :: int
  rr_name :: pystr
  rr_priority :: nat
  rr_owner_group_id :: nat
  rr_source_id :: "nat option"
  rr_rule_id :: "pystr option"
  rr_min_severity :: "severity option"
  rr_source_tags :: "pystr list"
  rr_enabled :: bool

record response_target =
  rt_severity :: severity
  rt_hours :: nat

record event_filter =
  ef_min_severity :: "severity option"
  ef_source_ids :: "nat list"

record notification_channel =
  ch_id :: nat
  ch_type :: notification_channel_type
  ch_event_filter :: event_filter
  ch_enabled :: bool

datatype notification_event_kind = FINDING_OPENED | FINDING_OVERDUE

record notification_delivery =
  nd_id :: nat
  nd_channel_id :: nat
  nd_finding_id :: nat
  nd_kind :: notification_event_kind
  nd_scan_id :: "nat option"
  nd_due_at :: "int option"
  nd_status :: notification_delivery_status
  nd_attempts :: nat
  nd_next_attempt_at :: int
  nd_delivered_at :: "int option"
  nd_last_error :: "pystr option"

record validation_policy =
  vp_id :: nat
  vp_rule_id :: pystr
  vp_provider :: pystr
  vp_validator_id :: pystr
  vp_contract_version :: pystr
  vp_enabled :: bool
  vp_rationale :: pystr
  vp_timeout_seconds :: rat
  vp_requests_per_minute :: nat
  vp_max_attempts_per_task :: nat

record schedule =
  sch_id :: nat
  sch_source_id :: nat
  sch_cron :: pystr
  sch_enabled :: bool
  sch_mode :: scan_mode
  sch_next_run_at :: "int option"
  sch_last_run_at :: "int option"

record audit_event =
  au_actor_id :: "nat option"
  au_action :: string
  au_target_type :: string
  au_target_id :: "nat option"
  au_from_value :: "pystr option"
  au_to_value :: "pystr option"
  au_detail :: "(string \<times> pystr) list"
  au_created_at :: int

section \<open>The database\<close>

record db =
  sources :: "source list"
  cursors :: "source_cursor list"
  engines :: "engine list"
  scans :: "scan list"
  tasks :: "scan_task list"
  findings :: "finding list"
  events :: "finding_event list"
  suppressions :: "suppression list"
  owner_groups :: "owner_group list"
  routing_rules :: "routing_rule list"
  response_targets :: "response_target list"
  channels :: "notification_channel list"
  deliveries :: "notification_delivery list"
  policies :: "validation_policy list"
  schedules :: "schedule list"
  audits :: "audit_event list"
  uuid4 :: "nat \<Rightarrow> nat"
  drawn :: nat
  broker :: "nat list"

definition new_id :: "db \<Rightarrow> nat \<times> db" where
  "new_id d = (uuid4 d (drawn d), d\<lparr>drawn := drawn d + 1\<rparr>)"

abbreviation empty_db :: db where
  "empty_db \<equiv>
     \<lparr>sources = [], cursors = [], engines = [], scans = [], tasks = [], findings = [], events = [],
      suppressions = [], owner_groups = [], routing_rules = [], response_targets = [],
      channels = [], deliveries = [], policies = [], schedules = [], audits = [], uuid4 = (\<lambda>n. n), drawn = 0, broker = []\<rparr>"

section \<open>Audit events and their idempotency index\<close>

text \<open>
  \<open>uq_finding_event_system_per_scan\<close>: one system event of a kind in
  \<open>IDEMPOTENT_SYSTEM_EVENTS\<close> per finding and scan.  An insert that would break it is refused
  by the database, which SQLAlchemy raises as \<open>IntegrityError\<close>.
\<close>

definition IDEMPOTENT_SYSTEM_EVENTS :: "finding_event_kind list" where
  "IDEMPOTENT_SYSTEM_EVENTS = [STATE_CHANGE, REOPENED]"

definition system_event :: "finding_event \<Rightarrow> bool" where
  "system_event e \<longleftrightarrow>
     ev_actor_id e = None \<and> ev_scan_id e \<noteq> None \<and> ev_kind e \<in> set IDEMPOTENT_SYSTEM_EVENTS"

definition event_clash :: "finding_event \<Rightarrow> finding_event \<Rightarrow> bool" where
  "event_clash a b \<longleftrightarrow>
     system_event a \<and> system_event b \<and> ev_finding_id a = ev_finding_id b \<and>
     ev_kind a = ev_kind b \<and> ev_scan_id a = ev_scan_id b"

definition add_event :: "finding_event \<Rightarrow> finding_event list \<Rightarrow> py_error + finding_event list" where
  "add_event e es =
     (if list_ex (event_clash e) es
      then Inl (IntegrityError ''uq_finding_event_system_per_scan'')
      else Inr (es @ [e]))"

text \<open>The index as an invariant of the table.\<close>

definition events_unique :: "finding_event list \<Rightarrow> bool" where
  "events_unique es \<longleftrightarrow> sorted_wrt (\<lambda>a b. \<not> event_clash a b) es"

lemma event_clash_sym: "event_clash a b \<longleftrightarrow> event_clash b a"
  by (auto simp: event_clash_def)

lemma add_event_unique: "add_event e es = Inr es' \<Longrightarrow> events_unique es \<Longrightarrow> events_unique es'"
  by (auto simp: add_event_def events_unique_def sorted_wrt_append list_ex_iff event_clash_sym
      split: if_splits)

lemma add_event_Inr_iff: "add_event e es = Inr es' \<longleftrightarrow> \<not> list_ex (event_clash e) es \<and> es' = es @ [e]"
  by (auto simp: add_event_def)

lemma add_event_not_system: "\<not> system_event e \<Longrightarrow> add_event e es = Inr (es @ [e])"
  by (simp add: add_event_def event_clash_def list_ex_iff)

section \<open>Fresh ids\<close>

text \<open>The ids drawn so far.  A supply without collisions never draws one of them again.\<close>

definition ids_drawn :: "db \<Rightarrow> nat set" where
  "ids_drawn d = uuid4 d ` {..<drawn d}"

lemma new_id_fresh: "inj (uuid4 d) \<Longrightarrow> fst (new_id d) \<notin> ids_drawn d"
  by (auto simp: new_id_def ids_drawn_def inj_image_mem_iff)

lemma ids_drawn_new_id: "ids_drawn (snd (new_id d)) = insert (fst (new_id d)) (ids_drawn d)"
  by (auto simp: new_id_def ids_drawn_def lessThan_Suc)

section \<open>Sample rows\<close>

text \<open>A running full scan, one of its tasks and a finding, for the concrete runs of the other theories.\<close>

definition demo_scan :: scan where
  "demo_scan =
     \<lparr>s_id = 9, s_created_at = 0, s_updated_at = 0, s_source_id = 5, s_trigger = MANUAL,
      s_status = SCAN_RUNNING, s_mode = FULL, s_promoted_from = None, s_promotion_reason = None,
      s_incremental_baseline_at = None, s_rulepack_version = None, s_counts = [],
      s_source_configuration_version = None, s_coverage_manifest = NoManifest,
      s_started_at = None, s_finished_at = None, s_error = None\<rparr>"

definition demo_task :: scan_task where
  "demo_task =
     \<lparr>t_id = 11, t_created_at = 0, t_updated_at = 0, t_scan_id = 9, t_kind = FETCH, t_spec = [],
      t_status = TASK_COMPLETED, t_engine_id = Some 2, t_lease_expires_at = None, t_heartbeat_at = None,
      t_attempts = 1, t_result_key = None, t_coverage = NoCoverage, t_checkpoint = [],
      t_checkpoint_sequence = 0, t_cursor_proposal = [], t_checkpoint_context = [],
      t_started_at = None, t_finished_at = None, t_error = None\<rparr>"

definition demo_finding :: finding where
  "demo_finding =
     \<lparr>f_id = 1, f_created_at = 0, f_source_id = 5, f_fingerprint = cps ''fp'', f_rule_id = cps ''aws'',
      f_rulepack_version = cps ''1'', f_resource_locator = [], f_redacted_snippet = cps ''x'',
      f_secret_hash = cps ''h'', f_correlation_id = None, f_entropy = None, f_confidence = None,
      f_severity = HIGH, f_validation_provider = None, f_validation_validator_id = None,
      f_validation_contract_version = None, f_validation_status = None, f_validation_reason = None,
      f_validated_at = None, f_state = OPEN, f_resolution = None, f_assignee_id = None,
      f_owner_group_id = None, f_owner_pinned = False, f_due_at = None, f_notes = None,
      f_suppressed_at = None, f_suppressed_by_id = None,
      f_first_seen_scan_id = 9, f_last_seen_scan_id = 9\<rparr>"

end
