(* ===== verification/Suppression_Matching.thy ===== *)
theory Suppression_Matching
  imports Iceberg_Models
begin

text \<open>
  What a suppression covers: \<^verbatim>\<open>packages/core/src/iceberg_core/suppression.py\<close>, the one matcher
  that the engine's pre-filter and the API's ingest share.  \<open>fnmatch.fnmatchcase\<close> of the Python
  standard library is modelled by the translation of a pattern into tokens, which follows
  \<open>fnmatch.translate\<close> step by step (the treatment of \<open>[...]\<close>, its hyphens and its empty ranges),
  and a matcher of the tokens.
\<close>

section \<open>Globs\<close>

text \<open>
  A character class is a list of inclusive ranges, a single character being a range of one.
\<close>

type_synonym ranges = "(int \<times> int) list"

datatype glob_token = Star | AnyChar | Lit int | Cls bool ranges | Never

definition c_star :: int where "c_star = 42"
definition c_question :: int where "c_question = 63"
definition c_open :: int where "c_open = 91"
definition c_close :: int where "c_close = 93"
definition c_bang :: int where "c_bang = 33"
definition c_hyphen :: int where "c_hyphen = 45"

text \<open>
  The position of the bracket that closes a class whose contents start the list: a leading \<open>!\<close>
  and a \<open>]\<close> directly after it belong to the contents.
\<close>

definition class_skip :: "pystr \<Rightarrow> nat" where
  "class_skip p =
     (let j = (case p of c # _ \<Rightarrow> if c = c_bang then 1 else 0 | [] \<Rightarrow> 0)
      in case drop j p of c # _ \<Rightarrow> if c = c_close then Suc j else j | [] \<Rightarrow> j)"

definition class_end :: "pystr \<Rightarrow> nat option" where
  "class_end p = List.find (\<lambda>j. p ! j = c_close) [class_skip p..<length p]"

text \<open>
  The chunks of a class: split at a hyphen that is not first, and after a split not within the
  next two characters.
\<close>

function class_chunks :: "pystr \<Rightarrow> nat \<Rightarrow> pystr list" where
  "class_chunks stuff from =
     (case List.find (\<lambda>k. stuff ! k = c_hyphen) [from..<length stuff] of
        None \<Rightarrow> [stuff]
      | Some k \<Rightarrow> take k stuff # class_chunks (drop (Suc k) stuff) 2)"
  by pat_completeness auto
termination
  by (relation "measure (\<lambda>(s, _). length s)") (auto simp: find_Some_iff)

declare class_chunks.simps [simp del]

text \<open>A trailing hyphen is literal: the last chunk would be empty.\<close>

definition fix_trailing :: "pystr list \<Rightarrow> pystr list" where
  "fix_trailing cs =
     (if cs \<noteq> [] \<and> last cs = [] \<and> butlast cs \<noteq> []
      then butlast (butlast cs) @ [last (butlast cs) @ [c_hyphen]] else cs)"

text \<open>Empty ranges are removed from the right.\<close>

fun drop_empty_ranges :: "pystr list \<Rightarrow> pystr list" where
  "drop_empty_ranges (a # cs) =
     (case drop_empty_ranges cs of
        [] \<Rightarrow> [a]
      | b # ds \<Rightarrow> if last a > hd b then (butlast a @ tl b) # ds else a # b # ds)"
| "drop_empty_ranges [] = []"

fun chunk_ranges :: "pystr list \<Rightarrow> ranges" where
  "chunk_ranges [] = []"
| "chunk_ranges [c] = map (\<lambda>x. (x, x)) c"
| "chunk_ranges (c # d # rest) =
     map (\<lambda>x. (x, x)) (butlast c) @ (last c, hd d) # chunk_ranges (tl d # rest)"

definition class_token :: "pystr \<Rightarrow> glob_token" where
  "class_token stuff =
     (let neg = (stuff \<noteq> [] \<and> hd stuff = c_bang);
          chunks = drop_empty_ranges (fix_trailing (class_chunks stuff (if neg then 2 else 1)));
          body = (if neg then (tl (hd chunks)) # tl chunks else chunks);
          rs = chunk_ranges body
      in if rs = [] then (if neg then AnyChar else Never) else Cls neg rs)"

function glob_tokens :: "pystr \<Rightarrow> glob_token list" where
  "glob_tokens [] = []"
| "glob_tokens (c # p) =
     (if c = c_star then Star # glob_tokens p
      else if c = c_question then AnyChar # glob_tokens p
      else if c = c_open then
        (case class_end p of
           None \<Rightarrow> Lit c # glob_tokens p
         | Some j \<Rightarrow> class_token (take j p) # glob_tokens (drop (Suc j) p))
      else Lit c # glob_tokens p)"
  by pat_completeness auto
termination
  by (relation "measure length") auto

fun token_accepts :: "glob_token \<Rightarrow> int \<Rightarrow> bool" where
  "token_accepts AnyChar c = True"
| "token_accepts (Lit x) c = (c = x)"
| "token_accepts (Cls neg rs) c = (list_ex (\<lambda>(a, b). a \<le> c \<and> c \<le> b) rs \<noteq> neg)"
| "token_accepts _ c = False"

fun glob_match :: "glob_token list \<Rightarrow> pystr \<Rightarrow> bool" where
  "glob_match [] s = (s = [])"
| "glob_match (Star # ts) [] = glob_match ts []"
| "glob_match (Star # ts) (c # s) = (glob_match ts (c # s) \<or> glob_match (Star # ts) s)"
| "glob_match (t # ts) [] = False"
| "glob_match (t # ts) (c # s) = (token_accepts t c \<and> glob_match ts s)"

definition fnmatchcase :: "pystr \<Rightarrow> pystr \<Rightarrow> bool" where
  "fnmatchcase name pat = glob_match (glob_tokens pat) name"

section \<open>Rules\<close>

definition LOCATOR_PATH_KEYS :: "pystr list" where
  "LOCATOR_PATH_KEYS =
     [cps ''path'', cps ''url'', cps ''space'', cps ''space_key'', cps ''resource_id'',
      cps ''sub_resource'', cps ''title'']"

record suppression_rule =
  r_id :: nat
  r_scope :: suppression_scope
  r_pattern :: pystr

definition locator_paths :: "jdict \<Rightarrow> pystr list" where
  "locator_paths loc =
     concat (map (\<lambda>k. case map_of loc k of Some (JStr s) \<Rightarrow> [s] | _ \<Rightarrow> []) LOCATOR_PATH_KEYS)"

definition sup_matches :: "suppression_rule \<Rightarrow> pystr \<Rightarrow> pystr \<Rightarrow> jdict \<Rightarrow> bool" where
  "sup_matches rule fingerprint rule_id loc =
     (case r_scope rule of
        FINGERPRINT_SCOPE \<Rightarrow> r_pattern rule = fingerprint
      | RULE_SCOPE \<Rightarrow> r_pattern rule = rule_id
      | PATH_GLOB \<Rightarrow> list_ex (\<lambda>path. fnmatchcase path (r_pattern rule)) (locator_paths loc))"

definition first_match :: "suppression_rule list \<Rightarrow> pystr \<Rightarrow> pystr \<Rightarrow> jdict \<Rightarrow> suppression_rule option" where
  "first_match rules fingerprint rule_id loc =
     List.find (\<lambda>r. sup_matches r fingerprint rule_id loc) rules"

section \<open>Glob laws\<close>

lemma glob_match_lits [simp]: "glob_match (map Lit p) s \<longleftrightarrow> s = p"
proof (induction p arbitrary: s)
  case Nil
  then show ?case by simp
next
  case (Cons c p)
  then show ?case by (cases s) auto
qed

text \<open>A star matches every split: the declarative reading of \<open>*\<close>.\<close>

lemma glob_match_star: "glob_match (Star # ts) s \<longleftrightarrow> (\<exists>u v. s = u @ v \<and> glob_match ts v)"
proof (induction s)
  case Nil
  then show ?case by simp
next
  case (Cons c s)
  show ?case
  proof
    assume "glob_match (Star # ts) (c # s)"
    then consider "glob_match ts (c # s)" | u v where "s = u @ v" "glob_match ts v"
      using Cons.IH by auto
    then show "\<exists>u v. c # s = u @ v \<and> glob_match ts v"
      by cases (metis append_Nil, metis append_Cons)
  next
    assume "\<exists>u v. c # s = u @ v \<and> glob_match ts v"
    then obtain u v where "c # s = u @ v" "glob_match ts v" by blast
    then show "glob_match (Star # ts) (c # s)"
      using Cons.IH by (cases u) auto
  qed
qed

lemma glob_match_append:
  "glob_match (ts @ us) s \<longleftrightarrow> (\<exists>u v. s = u @ v \<and> glob_match ts u \<and> glob_match us v)"
proof (induction ts arbitrary: s)
  case Nil
  then show ?case by simp
next
  case (Cons t ts)
  show ?case
  proof (cases "t = Star")
    case True
    then show ?thesis using Cons.IH by (simp add: glob_match_star) (metis append.assoc)
  next
    case False
    then have e: "glob_match (t # xs) [] = False"
      "glob_match (t # xs) (c # r) \<longleftrightarrow> token_accepts t c \<and> glob_match xs r" for xs c r
      by (cases t; simp)+
    show ?thesis
    proof (cases s)
      case Nil
      then show ?thesis using e by simp
    next
      case (Cons c r)
      have "(\<exists>u v. c # r = u @ v \<and> glob_match (t # ts) u \<and> glob_match us v) \<longleftrightarrow>
          (\<exists>u v. r = u @ v \<and> glob_match (t # ts) (c # u) \<and> glob_match us v)"
        by (auto simp: Cons_eq_append_conv e(1))
      then have "(\<exists>u v. c # r = u @ v \<and> glob_match (t # ts) u \<and> glob_match us v) \<longleftrightarrow>
          token_accepts t c \<and> (\<exists>u v. r = u @ v \<and> glob_match ts u \<and> glob_match us v)"
        by (simp add: e(2)) blast
      then show ?thesis using Cons e Cons.IH by simp
    qed
  qed
qed

text \<open>
  How a pattern is read: \<open>*\<close> stands for any text, separators included, \<open>?\<close> for one character, a
  closed \<open>[...]\<close> for one character of the class, and everything else, an unclosed \<open>[\<close> too, for itself.
\<close>

inductive reads :: "pystr \<Rightarrow> pystr \<Rightarrow> bool" where
  nothing: "reads [] []"
| star: "reads p s \<Longrightarrow> reads (c_star # p) (u @ s)"
| question: "reads p s \<Longrightarrow> reads (c_question # p) (c # s)"
| bracket: "class_end p = Some j \<Longrightarrow> token_accepts (class_token (take j p)) c \<Longrightarrow> reads (drop (Suc j) p) s \<Longrightarrow>
    reads (c_open # p) (c # s)"
| itself: "c \<noteq> c_star \<Longrightarrow> c \<noteq> c_question \<Longrightarrow> c \<noteq> c_open \<or> class_end p = None \<Longrightarrow> reads p s \<Longrightarrow> reads (c # p) (c # s)"

lemmas glob_chars = c_star_def c_question_def c_open_def

lemma class_token_not_star: "class_token stuff \<noteq> Star"
  by (simp add: class_token_def Let_def)

lemma glob_match_single: "t \<noteq> Star \<Longrightarrow> glob_match (t # ts) s \<longleftrightarrow> (\<exists>c r. s = c # r \<and> token_accepts t c \<and> glob_match ts r)"
  by (cases t; cases s) auto

lemma glob_match_reads: "glob_match (glob_tokens pat) s \<Longrightarrow> reads pat s"
proof (induction pat arbitrary: s rule: glob_tokens.induct)
  case 1
  then show ?case by (simp add: reads.nothing)
next
  case (2 c p)
  show ?case
  proof (cases "c = c_open \<and> class_end p \<noteq> None")
    case True
    then obtain j where j: "c = c_open" "class_end p = Some j" by auto
    then obtain x r where x: "s = x # r" "token_accepts (class_token (take j p)) x" "glob_match (glob_tokens (drop (Suc j) p)) r"
      using "2.prems" by (auto simp: glob_chars glob_match_single class_token_not_star)
    then have "reads (drop (Suc j) p) r" using "2.IH"(4) [of j r] j x(3) by (simp add: glob_chars)
    then show ?thesis unfolding j(1) x(1) by (rule reads.bracket [OF j(2) x(2)])
  next
    case False
    consider "c = c_star" | "c = c_question" | "c \<noteq> c_star" "c \<noteq> c_question" by blast
    then show ?thesis
    proof cases
      case 1
      then obtain u v where "s = u @ v" "glob_match (glob_tokens p) v" using "2.prems" by (auto simp: glob_match_star)
      then show ?thesis using 1 "2.IH"(1) reads.star by simp
    next
      case c: 2
      then obtain x r where "s = x # r" "glob_match (glob_tokens p) r"
        using "2.prems" by (auto simp: glob_chars glob_match_single)
      then show ?thesis using c "2.IH"(2) reads.question by (simp add: glob_chars)
    next
      case 3
      have e: "glob_tokens (c # p) = Lit c # glob_tokens p" using 3 False by (auto split: option.split)
      then obtain r where r: "s = c # r" "glob_match (glob_tokens p) r" using "2.prems" by (auto simp: glob_match_single)
      have "reads p r" using "2.IH"(3,5) 3 False r(2) by (cases "c = c_open") auto
      then show ?thesis unfolding r(1) using 3 False by (intro reads.itself) auto
    qed
  qed
qed

lemma reads_glob_match: "reads pat s \<Longrightarrow> glob_match (glob_tokens pat) s"
proof (induction rule: reads.induct)
  case (star p s u)
  then show ?case by (auto simp: glob_match_star)
next
  case (question p s c)
  then show ?case by (simp add: glob_chars)
next
  case (bracket p j c s)
  then show ?case by (simp add: glob_chars glob_match_single class_token_not_star)
next
  case (itself c p s)
  then show ?case by (auto split: option.split)
qed simp

lemma fnmatchcase_reads: "fnmatchcase name pat \<longleftrightarrow> reads pat name"
  using glob_match_reads reads_glob_match unfolding fnmatchcase_def by blast

lemma locator_path_in:
  "path \<in> set (locator_paths loc) \<longleftrightarrow> (\<exists>k \<in> set LOCATOR_PATH_KEYS. map_of loc k = Some (JStr path))"
proof -
  have "path \<in> set (case map_of loc k of Some (JStr s) \<Rightarrow> [s] | _ \<Rightarrow> []) \<longleftrightarrow> map_of loc k = Some (JStr path)" for k
    by (auto split: option.splits json.splits)
  then show ?thesis by (simp add: locator_paths_def)
qed

lemma find_Some_split:
  "List.find P xs = Some x \<longleftrightarrow> (\<exists>before after. xs = before @ x # after \<and> P x \<and> \<not> list_ex P before)"
proof
  assume "List.find P xs = Some x"
  then show "\<exists>before after. xs = before @ x # after \<and> P x \<and> \<not> list_ex P before"
  proof (induction xs)
    case (Cons y ys)
    show ?case
    proof (cases "P y")
      case True
      then show ?thesis using Cons.prems by (intro exI [of _ "[]"] exI [of _ ys]) simp
    next
      case False
      then obtain bs as where "ys = bs @ x # as" "P x" "\<not> list_ex P bs" using Cons by auto
      then show ?thesis using False by (intro exI [of _ "y # bs"] exI [of _ as]) simp
    qed
  qed simp
next
  assume "\<exists>before after. xs = before @ x # after \<and> P x \<and> \<not> list_ex P before"
  then obtain bs as where "xs = bs @ x # as" "P x" "\<not> list_ex P bs" by blast
  then show "List.find P xs = Some x" by (induction bs arbitrary: xs) auto
qed

lemma first_match_Some:
  "first_match rules fp rid loc = Some r \<Longrightarrow> r \<in> set rules \<and> sup_matches r fp rid loc"
  by (auto simp: first_match_def find_Some_iff)

lemma first_match_None:
  "first_match rules fp rid loc = None \<longleftrightarrow> (\<forall>r \<in> set rules. \<not> sup_matches r fp rid loc)"
  by (auto simp: first_match_def find_None_iff)

section \<open>Properties\<close>

text \<open>
  C9.  What a suppression covers.  A fingerprint suppression covers exactly the findings with its
  pattern as their fingerprint, a rule suppression exactly those of that rule, and a path suppression
  exactly those whose locator has, under one of the keys a path may stand in, a text that the pattern
  reads: the whole text, with case, \<open>*\<close> standing for any text with separators, \<open>?\<close> for one
  character, a class for one of its characters, and every other character for itself.  The finding
  is covered by the first such suppression of the list.
\<close>

theorem suppressions_cover_what_they_read:
  "(sup_matches rule fingerprint rule_id loc \<longleftrightarrow>
     (case r_scope rule of
        FINGERPRINT_SCOPE \<Rightarrow> fingerprint = r_pattern rule
      | RULE_SCOPE \<Rightarrow> rule_id = r_pattern rule
      | PATH_GLOB \<Rightarrow> (\<exists>k \<in> set LOCATOR_PATH_KEYS. \<exists>path. map_of loc k = Some (JStr path) \<and> reads (r_pattern rule) path))) \<and>
   (first_match rules fingerprint rule_id loc = Some rule \<longleftrightarrow>
     (\<exists>before after. rules = before @ rule # after \<and> sup_matches rule fingerprint rule_id loc \<and>
        \<not> list_ex (\<lambda>r. sup_matches r fingerprint rule_id loc) before))"
proof
  show "sup_matches rule fingerprint rule_id loc \<longleftrightarrow>
     (case r_scope rule of
        FINGERPRINT_SCOPE \<Rightarrow> fingerprint = r_pattern rule
      | RULE_SCOPE \<Rightarrow> rule_id = r_pattern rule
      | PATH_GLOB \<Rightarrow> (\<exists>k \<in> set LOCATOR_PATH_KEYS. \<exists>path. map_of loc k = Some (JStr path) \<and> reads (r_pattern rule) path))"
    unfolding sup_matches_def fnmatchcase_reads list_ex_iff Bex_def locator_path_in by (cases "r_scope rule") (simp_all, blast+)
  show "first_match rules fingerprint rule_id loc = Some rule \<longleftrightarrow>
     (\<exists>before after. rules = before @ rule # after \<and> sup_matches rule fingerprint rule_id loc \<and>
        \<not> list_ex (\<lambda>r. sup_matches r fingerprint rule_id loc) before)"
    unfolding first_match_def by (rule find_Some_split)
qed

text \<open>A separator does not stop a star, and the pattern has to cover the whole text.\<close>

lemma glob_reading_demo:
  "reads (cps ''docs/*.txt'') (cps ''docs/a/b.txt'') \<and> \<not> reads (cps ''docs/*.txt'') (cps ''src/a.txt'') \<and>
   \<not> reads (cps ''docs'') (cps ''docs/a'')"
  unfolding fnmatchcase_reads [symmetric] by code_simp

end
