(* ===== verification/Pagination.thy ===== *)
theory Pagination
  imports Iceberg_Prelude "HOL-Library.Multiset" "HOL-Library.Product_Lexorder"
begin

text \<open>
  Keyset pagination, \<^verbatim>\<open>apps/api/src/iceberg_api/pagination.py\<close>: \<open>after\<close> orders a query by
  \<open>(created_at, id)\<close> and starts strictly behind the cursor, \<open>build_page\<close> turns a \<open>limit + 1\<close>
  probe into a page and the cursor of the next one.  The opaque base64 form of a cursor is not
  modelled: a cursor is the pair it encodes.  The client of the interface walks every page; the
  batched sweep of \<^verbatim>\<open>suppressions.py\<close> walks the same order while it changes the rows.
\<close>

type_synonym keyset = "int \<times> nat"

definition after_cursor :: "keyset option \<Rightarrow> keyset \<Rightarrow> bool" where
  "after_cursor cur k =
     (case cur of
        None \<Rightarrow> True
      | Some c \<Rightarrow> fst k > fst c \<or> (fst k = fst c \<and> snd k > snd c))"

definition after_rows :: "('r \<Rightarrow> keyset) \<Rightarrow> keyset option \<Rightarrow> 'r list \<Rightarrow> 'r list" where
  "after_rows key cur rows = filter (\<lambda>r. after_cursor cur (key r)) (sort_key key rows)"

record ('r, 'i) page =
  pg_items :: "'i list"
  pg_next_cursor :: "keyset option"

definition build_page :: "('r \<Rightarrow> keyset) \<Rightarrow> 'r list \<Rightarrow> nat \<Rightarrow> ('r \<Rightarrow> 'i) \<Rightarrow> ('r, 'i) page" where
  "build_page key rows limit read =
     (let pg = take limit rows; has_more = (length rows > limit) in
      \<lparr>pg_items = map read pg,
       pg_next_cursor = (if has_more \<and> pg \<noteq> [] then Some (key (last pg)) else None)\<rparr>)"

text \<open>A list endpoint: the probe query and the page it becomes.\<close>

definition list_endpoint ::
  "('r \<Rightarrow> keyset) \<Rightarrow> 'r list \<Rightarrow> nat \<Rightarrow> ('r \<Rightarrow> 'i) \<Rightarrow> keyset option \<Rightarrow> ('r, 'i) page" where
  "list_endpoint key rows limit read cur =
     build_page key (take (limit + 1) (after_rows key cur rows)) limit read"

text \<open>A client that follows the cursors; \<open>None\<close> when the fuel is used up.\<close>

fun walk_pages ::
  "nat \<Rightarrow> ('r \<Rightarrow> keyset) \<Rightarrow> 'r list \<Rightarrow> nat \<Rightarrow> ('r \<Rightarrow> 'i) \<Rightarrow> keyset option \<Rightarrow> 'i list option" where
  "walk_pages 0 key rows limit read cur = None"
| "walk_pages (Suc n) key rows limit read cur =
     (let pg = list_endpoint key rows limit read cur in
      case pg_next_cursor pg of
        None \<Rightarrow> Some (pg_items pg)
      | Some c \<Rightarrow> map_option (\<lambda>rest. pg_items pg @ rest) (walk_pages n key rows limit read (Some c)))"

section \<open>The order\<close>

lemma after_cursor_less: "after_cursor (Some c) k \<longleftrightarrow> c < k"
  by (auto simp: after_cursor_def less_prod_def)

lemma after_cursor_None [simp]: "after_cursor None k"
  by (simp add: after_cursor_def)

lemma strictly_sorted:
  assumes "distinct (map key rows)"
  shows "sorted_wrt (\<lambda>a b. key a < key b) (sort_key key rows)"
proof -
  have "mset (map key (sort_key key rows)) = mset (map key rows)" by simp
  then have "distinct (map key (sort_key key rows))" using assms mset_eq_imp_distinct_iff by blast
  then have "sorted_wrt (<) (map key (sort_key key rows))"
    by (simp add: strict_sorted_iff)
  then show ?thesis by (simp add: sorted_wrt_map)
qed

text \<open>Behind the cursor of the k-th row lie exactly the rows from the k-th on.\<close>

lemma after_sorted_drop:
  assumes "sorted_wrt (\<lambda>a b. (key a :: keyset) < key b) xs" and "0 < k" and "k \<le> length xs"
  shows "filter (\<lambda>r. after_cursor (Some (key (xs ! (k - 1)))) (key r)) xs = drop k xs"
proof -
  have t: "\<not> key (xs ! (k - 1)) < key r" if "r \<in> set (take k xs)" for r
  proof -
    obtain i where i: "r = xs ! i" "i < k" using \<open>r \<in> set (take k xs)\<close> assms(3)
      by (auto simp: in_set_conv_nth)
    show ?thesis
    proof (cases "i = k - 1")
      case False
      then have "key (xs ! i) < key (xs ! (k - 1))"
        using i assms by (auto intro!: sorted_wrt_nth_less [where P = "\<lambda>a b. key a < key b"])
      then show ?thesis using i by auto
    qed (simp add: i)
  qed
  have d: "key (xs ! (k - 1)) < key r" if r: "r \<in> set (drop k xs)" for r
  proof -
    obtain j where "j < length (drop k xs)" "r = drop k xs ! j"
      using r by (metis in_set_conv_nth)
    then have i: "r = xs ! (k + j)" "k + j < length xs" using assms(3) by auto
    then show ?thesis
      using assms by (auto intro!: sorted_wrt_nth_less [where P = "\<lambda>a b. key a < key b"])
  qed
  have "filter (\<lambda>r. key (xs ! (k - 1)) < key r) (take k xs @ drop k xs) = drop k xs"
    unfolding filter_append using t d by (simp add: filter_empty_conv filter_id_conv)
  then show ?thesis by (simp add: after_cursor_less)
qed

section \<open>Walking the pages\<close>

lemma walk_pages_from:
  assumes s: "sorted_wrt (\<lambda>a b. (key a :: keyset) < key b) (sort_key key rows)"
    and "limit > 0" and "after_rows key cur rows = drop k (sort_key key rows)"
    and "length rows - k < n"
  shows "walk_pages n key rows limit read cur = Some (map read (drop k (sort_key key rows)))"
  using assms(3,4)
proof (induction n arbitrary: cur k)
  case 0
  then show ?case by simp
next
  case (Suc n)
  let ?xs = "sort_key key rows"
  let ?rest = "drop k ?xs"
  show ?case
  proof (cases "length ?rest > limit")
    case False
    then show ?thesis
      using Suc.prems by (simp add: list_endpoint_def build_page_def Let_def)
  next
    case True
    then have k: "k + limit \<le> length ?xs" "0 < k + limit" using \<open>limit > 0\<close> by auto
    have pg: "take limit ?rest \<noteq> []" "last (take limit ?rest) = ?xs ! (k + limit - 1)"
      using True \<open>limit > 0\<close> by (auto simp: last_conv_nth min_def)
    have "after_rows key (Some (key (?xs ! (k + limit - 1)))) rows = drop (k + limit) ?xs"
      unfolding after_rows_def by (rule after_sorted_drop [OF s k(2,1)])
    then have "walk_pages n key rows limit read (Some (key (?xs ! (k + limit - 1)))) =
        Some (map read (drop (k + limit) ?xs))"
      using Suc.prems(2) k True \<open>limit > 0\<close> by (intro Suc.IH) auto
    moreover have "list_endpoint key rows limit read cur =
        \<lparr>pg_items = map read (take limit ?rest), pg_next_cursor = Some (key (?xs ! (k + limit - 1)))\<rparr>"
      using True pg Suc.prems(1) by (simp add: list_endpoint_def build_page_def Let_def min_def)
    moreover have "map read (take limit ?rest) @ map read (drop (k + limit) ?xs) = map read ?rest"
      by (metis add.commute append_take_drop_id drop_drop map_append)
    ultimately show ?thesis by simp
  qed
qed

section \<open>Properties\<close>

text \<open>
  C10.  Pages are complete and disjoint: following the cursors of a list endpoint over a table
  that does not change returns every row exactly once, in \<open>(created_at, id)\<close> order, whatever the
  page size, and stops.
\<close>

theorem pages_cover_the_table:
  assumes "distinct (map key rows)" and "limit > 0"
  shows "walk_pages (Suc (length rows)) key rows limit read None = Some (map read (sort_key key rows))"
  using walk_pages_from [OF strictly_sorted [OF assms(1)] assms(2), of None 0 "Suc (length rows)" read]
  by (simp add: after_rows_def del: walk_pages.simps)

theorem pages_cover_the_table_witness:
  "walk_pages 4 (\<lambda>k. k) [(5, 2), (3, 9), (5, 1)] 2 snd None = Some [9, 1, 2 :: nat]"
proof -
  have "sort_key (\<lambda>k :: keyset. k) [(5, 2), (3, 9), (5, 1)] = [(3, 9), (5, 1), (5, 2)]"
    by (simp add: less_prod_def less_eq_prod_def)
  then show ?thesis
    using pages_cover_the_table [of "\<lambda>k. k" "[(5, 2), (3, 9), (5, 1)]" 2 snd]
    by (simp add: numeral_eq_Suc del: walk_pages.simps)
qed

end
