(* ===== verification/Ownership.thy ===== *)
theory Ownership
  imports Iceberg_Models
begin

text \<open>
  Routing a finding to an accountable group and starting its clock:
  \<^verbatim>\<open>apps/api/src/iceberg_api/findings/ownership.py\<close>.  \<open>str.casefold\<close> is a table of the Unicode
  database and a parameter.  An operation on an ORM object returns the changed row and the audit
  events it adds; the caller stores both.
\<close>

section \<open>Policy\<close>

record policy =
  p_rules :: "routing_rule list"
  p_targets :: "severity \<Rightarrow> nat option"
  p_source_tags :: "nat \<Rightarrow> pystr list option"

definition target_for :: "policy \<Rightarrow> severity \<Rightarrow> nat option" where
  "target_for p s = p_targets p s"

definition tags_for :: "policy \<Rightarrow> nat \<Rightarrow> pystr list" where
  "tags_for p sid = (case p_source_tags p sid of None \<Rightarrow> [] | Some ts \<Rightarrow> ts)"

definition rule_order :: "routing_rule \<Rightarrow> nat \<times> int \<times> nat" where
  "rule_order r = (rr_priority r, rr_created_at r, rr_id r)"

definition live_rule :: "db \<Rightarrow> routing_rule \<Rightarrow> bool" where
  "live_rule d r \<longleftrightarrow>
     rr_enabled r \<and>
     list_ex (\<lambda>g. og_id g = rr_owner_group_id r \<and> \<not> og_disabled g) (owner_groups d)"

definition load_policy :: "(pystr \<Rightarrow> pystr) \<Rightarrow> db \<Rightarrow> nat \<Rightarrow> policy" where
  "load_policy casefold d sid =
     \<lparr>p_rules = sort_key rule_order (filter (live_rule d) (routing_rules d)),
      p_targets = map_of (rev (map (\<lambda>t. (rt_severity t, rt_hours t)) (response_targets d))),
      p_source_tags =
        [sid \<mapsto> map (\<lambda>t. casefold (py_strip t))
                (filter (\<lambda>t. py_strip t \<noteq> [])
                  (case get_row src_id sid (sources d) of None \<Rightarrow> [] | Some s \<Rightarrow> src_tags s))]\<rparr>"

section \<open>Routing\<close>

definition rule_matches :: "(pystr \<Rightarrow> pystr) \<Rightarrow> routing_rule \<Rightarrow> finding \<Rightarrow> pystr list \<Rightarrow> bool" where
  "rule_matches casefold r f tags \<longleftrightarrow>
     (case rr_source_id r of None \<Rightarrow> True | Some s \<Rightarrow> s = f_source_id f) \<and>
     (case rr_rule_id r of None \<Rightarrow> True | Some i \<Rightarrow> i = f_rule_id f) \<and>
     (case rr_min_severity r of None \<Rightarrow> True
      | Some m \<Rightarrow> \<not> SEVERITY_RANK (f_severity f) < SEVERITY_RANK m) \<and>
     list_all (\<lambda>t. casefold t \<in> set tags) (rr_source_tags r)"

definition owner_event :: "nat \<Rightarrow> finding \<Rightarrow> routing_rule \<Rightarrow> finding_event" where
  "owner_event scan_id f r =
     \<lparr>ev_finding_id = f_id f, ev_actor_id = None, ev_scan_id = Some scan_id, ev_kind = OWNER,
      ev_from_value = None, ev_to_value = Some (EV_Id (rr_owner_group_id r)),
      ev_comment = Some (EC_RoutedBy (rr_name r))\<rparr>"

definition route ::
  "(pystr \<Rightarrow> pystr) \<Rightarrow> policy \<Rightarrow> nat \<Rightarrow> finding \<Rightarrow> routing_rule option \<times> finding \<times> finding_event list" where
  "route casefold p scan_id f =
     (if f_owner_pinned f \<or> f_owner_group_id f \<noteq> None then (None, f, [])
      else
        case List.find (\<lambda>r. rule_matches casefold r f (tags_for p (f_source_id f))) (p_rules p) of
          None \<Rightarrow> (None, f, [])
        | Some r \<Rightarrow> (Some r, f\<lparr>f_owner_group_id := Some (rr_owner_group_id r)\<rparr>, [owner_event scan_id f r]))"

section \<open>The clock\<close>

definition HOUR :: int where "HOUR = 3600000000"

definition start_clock :: "policy \<Rightarrow> int \<Rightarrow> bool \<Rightarrow> finding \<Rightarrow> finding" where
  "start_clock p now restart f =
     (if f_due_at f \<noteq> None \<and> \<not> restart then f
      else case target_for p (f_severity f) of
          None \<Rightarrow> f
        | Some hours \<Rightarrow> f\<lparr>f_due_at := Some (now + int hours * HOUR)\<rparr>)"

definition overdue :: "finding \<Rightarrow> int \<Rightarrow> bool" where
  "overdue f now \<longleftrightarrow>
     \<not> (f_state f \<noteq> OPEN \<or> f_suppressed_at f \<noteq> None) \<and>
     (case f_due_at f of None \<Rightarrow> False | Some due \<Rightarrow> due < now)"

definition actionable :: "finding \<Rightarrow> bool" where
  "actionable f \<longleftrightarrow> f_state f = OPEN \<and> f_suppressed_at f = None"

text \<open>
  \<open>owned_counts\<close>: one group per owner of an actionable finding, with the number of its findings
  and how many of their dates have passed (\<open>count\<close> skips the null of a date that has not).
\<close>

record owned_counts =
  oc_open :: "(nat \<times> nat) list"
  oc_overdue :: "(nat \<times> nat) list"

definition owned_counts_of :: "db \<Rightarrow> int \<Rightarrow> owned_counts" where
  "owned_counts_of d now =
     (let rows = filter (\<lambda>f. actionable f \<and> f_owner_group_id f \<noteq> None) (findings d);
          groups = remdups (map (\<lambda>f. the (f_owner_group_id f)) rows);
          of_group = (\<lambda>g. filter (\<lambda>f. f_owner_group_id f = Some g) rows)
      in \<lparr>oc_open = map (\<lambda>g. (g, length (of_group g))) groups,
          oc_overdue =
            map (\<lambda>g. (g, length (filter (\<lambda>f. case f_due_at f of None \<Rightarrow> False | Some due \<Rightarrow> due < now)
                                  (of_group g)))) groups\<rparr>)"

definition open_for :: "owned_counts \<Rightarrow> nat \<Rightarrow> nat" where
  "open_for c g = (case map_of (oc_open c) g of None \<Rightarrow> 0 | Some n \<Rightarrow> n)"

definition overdue_for :: "owned_counts \<Rightarrow> nat \<Rightarrow> nat" where
  "overdue_for c g = (case map_of (oc_overdue c) g of None \<Rightarrow> 0 | Some n \<Rightarrow> n)"

section \<open>What routing and the clock leave alone\<close>

text \<open>
  The columns of an analyst's decision and of a finding's identity.  Neither operation touches
  them, whatever the policy.
\<close>

definition same_decision :: "finding \<Rightarrow> finding \<Rightarrow> bool" where
  "same_decision f g \<longleftrightarrow>
     f_state g = f_state f \<and> f_resolution g = f_resolution f \<and> f_assignee_id g = f_assignee_id f \<and>
     f_notes g = f_notes f \<and> f_owner_pinned g = f_owner_pinned f \<and>
     (f_owner_pinned f \<or> f_owner_group_id f \<noteq> None \<longrightarrow> f_owner_group_id g = f_owner_group_id f)"

definition same_identity :: "finding \<Rightarrow> finding \<Rightarrow> bool" where
  "same_identity f g \<longleftrightarrow>
     f_id g = f_id f \<and> f_created_at g = f_created_at f \<and> f_source_id g = f_source_id f \<and>
     f_first_seen_scan_id g = f_first_seen_scan_id f"

lemma same_decision_refl [simp]: "same_decision f f"
  by (simp add: same_decision_def)

lemma same_decision_trans: "same_decision f g \<Longrightarrow> same_decision g h \<Longrightarrow> same_decision f h"
  by (auto simp: same_decision_def)

lemma same_identity_refl [simp]: "same_identity f f"
  by (simp add: same_identity_def)

lemma same_identity_trans: "same_identity f g \<Longrightarrow> same_identity g h \<Longrightarrow> same_identity f h"
  by (auto simp: same_identity_def)

lemma route_cases:
  obtains (kept) "route cf p sid f = (None, f, [])"
  | (routed) r where "route cf p sid f = (Some r, f\<lparr>f_owner_group_id := Some (rr_owner_group_id r)\<rparr>, [owner_event sid f r])"
      "\<not> f_owner_pinned f" "f_owner_group_id f = None"
proof (cases "f_owner_pinned f \<or> f_owner_group_id f \<noteq> None")
  case True
  then show ?thesis by (intro kept) (simp add: route_def)
next
  case False
  show ?thesis
  proof (cases "List.find (\<lambda>r. rule_matches cf r f (tags_for p (f_source_id f))) (p_rules p)")
    case None
    then show ?thesis using False by (intro kept) (simp add: route_def)
  next
    case (Some r)
    then show ?thesis using False by (intro routed) (simp_all add: route_def)
  qed
qed

lemma route_keeps:
  "same_decision f (fst (snd (route cf p sid f)))" "same_identity f (fst (snd (route cf p sid f)))"
  by (rule route_cases [of cf p sid f]; auto simp: same_decision_def same_identity_def)+

lemma start_clock_keeps: "same_decision f (start_clock p now b f)" "same_identity f (start_clock p now b f)"
  by (auto simp: start_clock_def same_decision_def same_identity_def split: option.splits)

section \<open>First match in a total order\<close>

lemma rule_order_sorted: "sorted_wrt (\<lambda>a b. rule_order a \<le> rule_order b) (p_rules (load_policy cf d sid))"
  by (simp add: load_policy_def sorted_wrt_sort_key)

lemma find_sorted_least:
  assumes "sorted_wrt (\<lambda>a b. k a \<le> (k b :: 'k :: linorder)) xs" and "List.find P xs = Some x"
    and "y \<in> set xs" and "P y"
  shows "k x \<le> k y"
proof -
  obtain i where i: "i < length xs" "x = xs ! i" "\<forall>j < i. \<not> P (xs ! j)"
    using assms(2) by (auto simp: find_Some_iff)
  obtain j where j: "j < length xs" "y = xs ! j" using assms(3) by (auto simp: in_set_conv_nth)
  then have "i \<le> j" using i assms(4) by (meson linorder_not_le)
  then show ?thesis
    using i j sorted_wrt_nth_less [OF assms(1), of i j] by (cases "i = j") auto
qed

text \<open>Somebody owns the finding, or a person decided who does.\<close>

definition has_owner :: "finding \<Rightarrow> bool" where
  "has_owner f \<longleftrightarrow> f_owner_pinned f \<or> f_owner_group_id f \<noteq> None"

lemma lookup_tabulated:
  "(case map_of (map (\<lambda>g. (g, n g)) gs) g of None \<Rightarrow> 0 | Some k \<Rightarrow> k) = (if g \<in> set gs then n g else (0::nat))"
  by (induction gs) auto

section \<open>Properties\<close>

text \<open>
  C11.  Ownership is established once and by the first rule.  A finding that has an owner, or
  whose owner a person pinned, comes out of routing unchanged and without an event.  Otherwise it
  goes to the group of a rule that matches it, is enabled and points to a live group, no other
  such rule being earlier in priority, creation time and id; one owner event records it; and it
  stays unowned only if no such rule exists.
\<close>

theorem routing_is_sticky_and_first_match:
  fixes cf d f scan_id
  defines "p \<equiv> load_policy cf d (f_source_id f)"
  defines "cand r \<equiv> r \<in> set (routing_rules d) \<and> live_rule d r \<and>
    rule_matches cf r f (tags_for p (f_source_id f))"
  shows "(has_owner f \<and> route cf p scan_id f = (None, f, [])) \<or>
    (\<not> has_owner f \<and> (\<nexists>r. cand r) \<and> route cf p scan_id f = (None, f, [])) \<or>
    (\<exists>r. \<not> has_owner f \<and> cand r \<and>
       (\<nexists>r'. cand r' \<and> rule_order r' < rule_order r) \<and>
       route cf p scan_id f =
         (Some r, f\<lparr>f_owner_group_id := Some (rr_owner_group_id r)\<rparr>, [owner_event scan_id f r]))"
proof (cases "has_owner f")
  case True
  then show ?thesis by (simp add: route_def has_owner_def)
next
  case False
  let ?P = "\<lambda>r. rule_matches cf r f (tags_for p (f_source_id f))"
  have c: "cand r \<longleftrightarrow> r \<in> set (p_rules p) \<and> ?P r" for r
    by (auto simp: cand_def p_def load_policy_def)
  show ?thesis
  proof (cases "List.find ?P (p_rules p)")
    case None
    then have "\<nexists>r. cand r" by (auto simp: c find_None_iff)
    then show ?thesis using False None by (simp add: route_def has_owner_def)
  next
    case (Some r)
    then have r: "cand r" by (auto simp: c find_Some_iff)
    have "rule_order r \<le> rule_order r'" if "cand r'" for r'
      using find_sorted_least [OF _ Some, of rule_order r'] rule_order_sorted [of cf d "f_source_id f"] that
      by (simp add: c p_def)
    then have "\<nexists>r'. cand r' \<and> rule_order r' < rule_order r" by (meson linorder_not_le)
    then show ?thesis using False Some r by (auto simp: route_def has_owner_def)
  qed
qed

text \<open>
  The two readings of "late" agree: what the grouped query of the dashboard counts for a
  team as open and as overdue are the findings the team owns for which \<open>actionable\<close> and
  \<open>overdue\<close> answer yes, for every team, counted or not.
\<close>

theorem owned_counts_agree_with_overdue:
  "open_for (owned_counts_of d now) g =
     length (filter (\<lambda>f. actionable f \<and> f_owner_group_id f = Some g) (findings d)) \<and>
   overdue_for (owned_counts_of d now) g =
     length (filter (\<lambda>f. overdue f now \<and> f_owner_group_id f = Some g) (findings d))"
proof -
  let ?rows = "filter (\<lambda>f. actionable f \<and> f_owner_group_id f \<noteq> None) (findings d)"
  let ?groups = "remdups (map (\<lambda>f. the (f_owner_group_id f)) ?rows)"
  let ?late = "\<lambda>f. case f_due_at f of None \<Rightarrow> False | Some due \<Rightarrow> due < now"
  have none: "filter (\<lambda>f. f_owner_group_id f = Some g) ?rows = []" if "g \<notin> set ?groups"
  proof -
    have "f_owner_group_id f \<noteq> Some g" if "f \<in> set ?rows" for f
      using that \<open>g \<notin> set ?groups\<close> by (metis (no_types, lifting) image_eqI list.set_map option.sel set_remdups)
    then show ?thesis unfolding filter_empty_conv by blast
  qed
  have rows: "filter (\<lambda>f. f_owner_group_id f = Some g) ?rows =
      filter (\<lambda>f. actionable f \<and> f_owner_group_id f = Some g) (findings d)"
    by (auto intro: filter_cong)
  have late: "filter ?late (filter (\<lambda>f. actionable f \<and> f_owner_group_id f = Some g) (findings d)) =
      filter (\<lambda>f. overdue f now \<and> f_owner_group_id f = Some g) (findings d)"
    by (auto simp: actionable_def overdue_def intro!: filter_cong split: option.splits)
  have "open_for (owned_counts_of d now) g = length (filter (\<lambda>f. f_owner_group_id f = Some g) ?rows)"
    unfolding open_for_def owned_counts_of_def Let_def using none by (simp add: lookup_tabulated del: filter_filter)
  moreover have "overdue_for (owned_counts_of d now) g =
      length (filter ?late (filter (\<lambda>f. f_owner_group_id f = Some g) ?rows))"
    unfolding overdue_for_def owned_counts_of_def Let_def using none by (simp add: lookup_tabulated del: filter_filter)
  ultimately show ?thesis unfolding rows late by blast
qed

end
