(* ===== verification/Suppressions.thy ===== *)
theory Suppressions
  imports Suppression_Matching Pagination Ownership
begin

text \<open>
  Applying and lifting analyst suppressions, \<^verbatim>\<open>apps/api/src/iceberg_api/suppressions.py\<close>, and the
  writing half of the two routes that create and delete one
  (\<^verbatim>\<open>findings/suppression_routes.py\<close>, without the audit record).  \<open>_in_batches\<close> is modelled as
  the loop it is: each batch is a new query on the database that the caller has changed in
  between.  None of the events written here is of a kind the idempotency index constrains, so
  they are appended.
\<close>

section \<open>Which suppressions are in force\<close>

definition sup_live :: "int \<Rightarrow> suppression \<Rightarrow> bool" where
  "sup_live now s \<longleftrightarrow> (case sup_expires_at s of None \<Rightarrow> True | Some e \<Rightarrow> e > now)"

definition as_rule :: "suppression \<Rightarrow> suppression_rule" where
  "as_rule s = \<lparr>r_id = sup_id s, r_scope = sup_scope s, r_pattern = sup_pattern s\<rparr>"

definition applicable_suppressions :: "db \<Rightarrow> nat \<Rightarrow> int \<Rightarrow> suppression_rule list" where
  "applicable_suppressions d sid now =
     map as_rule
       (filter (sup_live now)
         (filter (\<lambda>s. sup_source_id s = Some sid \<or> sup_source_id s = None) (suppressions d)))"

section \<open>One finding\<close>

definition suppress :: "suppression_rule \<Rightarrow> int \<Rightarrow> nat option \<Rightarrow> finding \<Rightarrow> finding \<times> finding_event list" where
  "suppress rule now actor f =
     (f\<lparr>f_suppressed_at := (case f_suppressed_at f of Some t \<Rightarrow> Some t | None \<Rightarrow> Some now),
        f_suppressed_by_id := Some (r_id rule)\<rparr>,
      if f_suppressed_at f \<noteq> None then []
      else [\<lparr>ev_finding_id = f_id f, ev_actor_id = actor, ev_scan_id = None, ev_kind = SUPPRESSED,
             ev_from_value = None, ev_to_value = Some (EV_Scope (r_scope rule)),
             ev_comment = Some (EC_MatchedSuppression (r_id rule))\<rparr>])"

definition release :: "event_comment \<Rightarrow> nat option \<Rightarrow> finding \<Rightarrow> finding \<times> finding_event list" where
  "release reason actor f =
     (if f_suppressed_at f = None then (f, [])
      else (f\<lparr>f_suppressed_at := None, f_suppressed_by_id := None\<rparr>,
            [\<lparr>ev_finding_id = f_id f, ev_actor_id = actor, ev_scan_id = None, ev_kind = COMMENT,
              ev_from_value = None, ev_to_value = None, ev_comment = Some reason\<rparr>]))"

definition finding_match :: "suppression_rule list \<Rightarrow> finding \<Rightarrow> suppression_rule option" where
  "finding_match rules f = first_match rules (f_fingerprint f) (f_rule_id f) (f_resource_locator f)"

text \<open>Storing a changed finding with its events.\<close>

definition save_finding :: "finding \<times> finding_event list \<Rightarrow> db \<Rightarrow> db" where
  "save_finding fe d =
     d\<lparr>findings := update_where (\<lambda>g. f_id g = f_id (fst fe)) (\<lambda>_. fst fe) (findings d),
       events := events d @ snd fe\<rparr>"

section \<open>The batched walk\<close>

definition SWEEP_BATCH :: nat where "SWEEP_BATCH = 500"

definition finding_key :: "finding \<Rightarrow> keyset" where
  "finding_key f = (f_created_at f, f_id f)"

definition sweep_query :: "(finding \<Rightarrow> bool) \<Rightarrow> keyset option \<Rightarrow> db \<Rightarrow> finding list" where
  "sweep_query P cur d = take SWEEP_BATCH (after_rows finding_key cur (filter P (findings d)))"

text \<open>
  The loop of \<open>_in_batches\<close> with its caller's body.  The caller reads each row as it was when its
  batch was loaded.  \<open>None\<close> stands for a walk that is not finished when the fuel is.
\<close>

fun in_batches ::
  "nat \<Rightarrow> (finding \<Rightarrow> bool) \<Rightarrow> (finding \<Rightarrow> db \<Rightarrow> db) \<Rightarrow> keyset option \<Rightarrow> db \<Rightarrow> db option" where
  "in_batches 0 P body cur d = None"
| "in_batches (Suc n) P body cur d =
     (let batch = sweep_query P cur d in
      if batch = [] then Some d
      else
        let d' = fold body batch d in
        if length batch < SWEEP_BATCH then Some d'
        else in_batches n P body (Some (finding_key (last batch))) d')"

definition sweep :: "(finding \<Rightarrow> bool) \<Rightarrow> (finding \<Rightarrow> db \<Rightarrow> db) \<Rightarrow> db \<Rightarrow> db" where
  "sweep P body d = (case in_batches (Suc (length (findings d))) P body None d of Some d' \<Rightarrow> d' | None \<Rightarrow> d)"

section \<open>Applying and lifting\<close>

definition narrows :: "suppression \<Rightarrow> finding \<Rightarrow> bool" where
  "narrows s f \<longleftrightarrow>
     f_suppressed_at f = None \<and>
     (case sup_source_id s of None \<Rightarrow> True | Some sid \<Rightarrow> f_source_id f = sid) \<and>
     (case sup_scope s of
        FINGERPRINT_SCOPE \<Rightarrow> f_fingerprint f = sup_pattern s
      | RULE_SCOPE \<Rightarrow> f_rule_id f = sup_pattern s
      | PATH_GLOB \<Rightarrow> f_state f = OPEN)"

definition apply_body :: "suppression_rule \<Rightarrow> int \<Rightarrow> nat option \<Rightarrow> finding \<Rightarrow> db \<Rightarrow> db" where
  "apply_body rule now actor f d =
     (if sup_matches rule (f_fingerprint f) (f_rule_id f) (f_resource_locator f)
      then save_finding (suppress rule now actor f) d else d)"

definition apply_to_existing :: "suppression \<Rightarrow> int \<Rightarrow> nat option \<Rightarrow> db \<Rightarrow> db" where
  "apply_to_existing s now actor d = sweep (narrows s) (apply_body (as_rule s) now actor) d"

definition hand_over_or_release ::
  "suppression_rule list \<Rightarrow> event_comment \<Rightarrow> nat option \<Rightarrow> finding \<Rightarrow> finding \<times> finding_event list" where
  "hand_over_or_release rules reason actor f =
     (case finding_match rules f of
        Some r \<Rightarrow> (f\<lparr>f_suppressed_by_id := Some (r_id r)\<rparr>, [])
      | None \<Rightarrow> release reason actor f)"

definition release_covered_by :: "suppression \<Rightarrow> int \<Rightarrow> nat option \<Rightarrow> db \<Rightarrow> db" where
  "release_covered_by s now actor d =
     fold (\<lambda>f d'. save_finding
             (hand_over_or_release
               (filter (\<lambda>r. r_id r \<noteq> sup_id s) (applicable_suppressions d' (f_source_id f) now))
               (EC_SuppressionDeleted (sup_id s)) actor f) d')
       (filter (\<lambda>f. f_suppressed_by_id f = Some (sup_id s)) (findings d)) d"

text \<open>The suppression a hidden finding names, if it still exists.\<close>

definition recorded_suppression :: "db \<Rightarrow> finding \<Rightarrow> suppression option" where
  "recorded_suppression d f =
     (case f_suppressed_by_id f of None \<Rightarrow> None | Some i \<Rightarrow> get_row sup_id i (suppressions d))"

definition lapsed_body :: "int \<Rightarrow> finding \<Rightarrow> db \<Rightarrow> db" where
  "lapsed_body now f d =
     (let sup = recorded_suppression d f in
      case sup of
        Some s \<Rightarrow>
          if sup_live now s then d
          else save_finding
                 (hand_over_or_release (applicable_suppressions d (f_source_id f) now)
                   (EC_SuppressionExpired (sup_id s)) None f) d
      | None \<Rightarrow>
          save_finding
            (hand_over_or_release (applicable_suppressions d (f_source_id f) now)
              EC_SuppressionGone None f) d)"

definition release_lapsed :: "int \<Rightarrow> db \<Rightarrow> db" where
  "release_lapsed now d = sweep (\<lambda>f. f_suppressed_at f \<noteq> None) (lapsed_body now) d"

text \<open>The two routes.  A new row's id is drawn from the supply.\<close>

definition create_suppression ::
  "suppression_scope \<Rightarrow> pystr \<Rightarrow> nat option \<Rightarrow> int option \<Rightarrow> nat \<Rightarrow> int \<Rightarrow> db \<Rightarrow> string + db" where
  "create_suppression sc pat sid expires analyst now d =
     (if (case sid of None \<Rightarrow> False | Some i \<Rightarrow> get_row src_id i (sources d) = None)
      then Inl ''source not found''
      else
        let (i, d') = new_id d;
            s = \<lparr>sup_id = i, sup_scope = sc, sup_pattern = pat, sup_source_id = sid, sup_expires_at = expires\<rparr>
        in Inr (apply_to_existing s now (Some analyst) (d'\<lparr>suppressions := suppressions d' @ [s]\<rparr>)))"

definition delete_suppression :: "nat \<Rightarrow> nat \<Rightarrow> int \<Rightarrow> db \<Rightarrow> string + db" where
  "delete_suppression i analyst now d =
     (case get_row sup_id i (suppressions d) of
        None \<Rightarrow> Inl ''suppression not found''
      | Some s \<Rightarrow>
          let d' = release_covered_by s now (Some analyst) d
          in Inr (d'\<lparr>suppressions := filter (\<lambda>r. sup_id r \<noteq> i) (suppressions d')\<rparr>))"

section \<open>The walk visits every row once\<close>

text \<open>
  The contract between the walk and its caller: handling a row changes no other row and never a
  row's place in the order.  Under it the batched walk, which queries again after every batch
  while its caller takes rows out of the query's own filter, does exactly what one pass over the
  rows selected at the start would do.
\<close>

definition places_agree :: "finding \<Rightarrow> db \<Rightarrow> bool" where
  "places_agree f d \<longleftrightarrow> (\<forall>g \<in> set (findings d). f_id g = f_id f \<longrightarrow> finding_key g = finding_key f)"

locale row_handler =
  fixes body :: "finding \<Rightarrow> db \<Rightarrow> db"
  assumes frame: "filter (\<lambda>g. f_id g \<noteq> f_id f) (findings (body f d)) =
      filter (\<lambda>g. f_id g \<noteq> f_id f) (findings d)"
    and places: "places_agree f d \<Longrightarrow>
      map finding_key (findings (body f d)) = map finding_key (findings d)"
begin

lemma fold_frame:
  "filter (\<lambda>g. f_id g \<notin> f_id ` set fs) (findings (fold body fs d)) =
     filter (\<lambda>g. f_id g \<notin> f_id ` set fs) (findings d)"
proof (induction fs arbitrary: d)
  case Nil
  then show ?case by simp
next
  case (Cons f fs)
  have split: "filter (\<lambda>g. f_id g \<notin> f_id ` set (f # fs)) xs =
      filter (\<lambda>g. f_id g \<notin> f_id ` set fs) (filter (\<lambda>g. f_id g \<noteq> f_id f) xs)" for xs
    by (auto intro: filter_cong)
  have swap: "filter (\<lambda>g. f_id g \<noteq> f_id f) (filter (\<lambda>g. f_id g \<notin> f_id ` set fs) xs) =
      filter (\<lambda>g. f_id g \<notin> f_id ` set fs) (filter (\<lambda>g. f_id g \<noteq> f_id f) xs)" for xs
    by (auto intro: filter_cong)
  have "filter (\<lambda>g. f_id g \<notin> f_id ` set (f # fs)) (findings (fold body fs (body f d))) =
      filter (\<lambda>g. f_id g \<noteq> f_id f)
        (filter (\<lambda>g. f_id g \<notin> f_id ` set fs) (findings (fold body fs (body f d))))"
    by (simp only: split swap)
  also have "\<dots> = filter (\<lambda>g. f_id g \<notin> f_id ` set fs) (filter (\<lambda>g. f_id g \<noteq> f_id f) (findings (body f d)))"
    by (simp only: Cons.IH swap)
  also have "\<dots> = filter (\<lambda>g. f_id g \<notin> f_id ` set (f # fs)) (findings d)"
    by (simp only: frame split)
  finally show ?case by simp
qed

lemma fold_places:
  assumes "\<forall>f \<in> set fs. places_agree f d"
  shows "map finding_key (findings (fold body fs d)) = map finding_key (findings d)"
  using assms
proof (induction fs arbitrary: d)
  case Nil
  then show ?case by simp
next
  case (Cons f fs)
  have k: "map finding_key (findings (body f d)) = map finding_key (findings d)"
    using Cons.prems by (simp add: places)
  then have s: "finding_key ` set (findings (body f d)) = finding_key ` set (findings d)"
    by (metis list.set_map)
  have "places_agree g (body f d)" if "g \<in> set fs" for g
    unfolding places_agree_def
  proof (intro ballI impI)
    fix h assume h: "h \<in> set (findings (body f d))" "f_id h = f_id g"
    then obtain h' where h': "h' \<in> set (findings d)" "finding_key h' = finding_key h"
      using s by (metis imageE imageI)
    then have "f_id h' = f_id g" using h(2) by (simp add: finding_key_def)
    then show "finding_key h = finding_key g"
      using Cons.prems that h' by (auto simp: places_agree_def)
  qed
  then show ?case using Cons.IH [of "body f d"] k by simp
qed

lemma requery_after_batch:
  assumes "distinct (map f_id (findings d))"
    and "set fs \<subseteq> set (findings d)" and "\<forall>f \<in> set fs. finding_key f \<le> c"
  shows "after_rows finding_key (Some c) (filter P (findings (fold body fs d))) =
    after_rows finding_key (Some c) (filter P (findings d))"
proof -
  have pa: "\<forall>f \<in> set fs. places_agree f d"
    using assms(1,2) distinct_key_unique [of f_id "findings d"] by (auto simp: places_agree_def)
  let ?d = "fold body fs d"
  have keys: "finding_key ` set (findings ?d) = finding_key ` set (findings d)"
    using fold_places [OF pa] by (metis list.set_map)
  have out: "f_id g \<notin> f_id ` set fs" if g: "g \<in> set (findings e)" "c < finding_key g"
    and e: "finding_key ` set (findings e) = finding_key ` set (findings d)" for g e
  proof
    assume "f_id g \<in> f_id ` set fs"
    then obtain f where f: "f \<in> set fs" "f_id f = f_id g" by auto
    obtain h where h: "h \<in> set (findings d)" "finding_key h = finding_key g"
      using g(1) e by (metis imageE imageI)
    then have "f_id h = f_id f" using f by (simp add: finding_key_def)
    then have "h = f" using distinct_key_unique [OF assms(1)] h(1) f(1) assms(2) by blast
    then show False using h(2) g(2) assms(3) f(1) by auto
  qed
  have restrict: "filter (\<lambda>g. c < finding_key g \<and> P g) (findings e) =
      filter (\<lambda>g. c < finding_key g \<and> P g) (filter (\<lambda>g. f_id g \<notin> f_id ` set fs) (findings e))"
    if "finding_key ` set (findings e) = finding_key ` set (findings d)" for e
    using out [OF _ _ that] by (auto intro!: filter_cong)
  have "filter (\<lambda>g. c < finding_key g \<and> P g) (findings ?d) = filter (\<lambda>g. c < finding_key g \<and> P g) (findings d)"
    using restrict [of ?d] restrict [of d] keys fold_frame [of fs d] by simp
  then show ?thesis
    unfolding after_rows_def filter_sort by (simp add: after_cursor_less conj_commute)
qed

lemma in_batches_is_one_pass:
  assumes "distinct (map f_id (findings d))"
    and "length (after_rows finding_key cur (filter P (findings d))) < n"
  shows "in_batches n P body cur d = Some (fold body (after_rows finding_key cur (filter P (findings d))) d)"
  using assms
proof (induction n arbitrary: cur d)
  case 0
  then show ?case by simp
next
  case (Suc n)
  define xs where "xs = sort_key finding_key (filter P (findings d))"
  define L where "L = after_rows finding_key cur (filter P (findings d))"
  have L: "L = filter (\<lambda>r. after_cursor cur (finding_key r)) xs" by (simp add: L_def xs_def after_rows_def)
  have dk: "distinct (map finding_key (filter P (findings d)))"
    using Suc.prems(1) by (intro distinct_map_filter) (auto simp: distinct_map inj_on_def finding_key_def)
  have sx: "sorted_wrt (\<lambda>a b. finding_key a < finding_key b) xs"
    unfolding xs_def by (rule strictly_sorted [OF dk])
  then have sL: "sorted_wrt (\<lambda>a b. finding_key a < finding_key b) L" unfolding L by (rule sorted_wrt_filter)
  let ?batch = "take SWEEP_BATCH L"
  have q: "sweep_query P cur d = ?batch" by (simp add: sweep_query_def L_def)
  have pos: "SWEEP_BATCH > 0" by (simp add: SWEEP_BATCH_def)
  show ?case
  proof (cases "length ?batch < SWEEP_BATCH")
    case True
    then have "?batch = L" by simp
    then show ?thesis
      using True by (simp add: q Let_def flip: L_def)
  next
    case False
    then have len: "SWEEP_BATCH \<le> length L" by simp
    have ne: "?batch \<noteq> []" using len pos by auto
    have last: "last ?batch = L ! (SWEEP_BATCH - 1)"
      using len pos by (simp add: last_conv_nth [OF ne] min_def)
    let ?c = "finding_key (L ! (SWEEP_BATCH - 1))"
    let ?d = "fold body ?batch d"
    have sub: "set ?batch \<subseteq> set (findings d)"
      using set_take_subset [of SWEEP_BATCH L] by (auto simp: L xs_def)
    have le: "\<forall>f \<in> set ?batch. finding_key f \<le> ?c"
    proof
      fix f assume "f \<in> set ?batch"
      then obtain i where i: "i < SWEEP_BATCH" "f = L ! i" using len by (auto simp: in_set_conv_nth)
      show "finding_key f \<le> ?c"
      proof (cases "i = SWEEP_BATCH - 1")
        case False
        then have "finding_key (L ! i) < ?c"
          using i len by (intro sorted_wrt_nth_less [OF sL]) auto
        then show ?thesis using i by simp
      qed (simp add: i)
    qed
    have in_L: "L ! (SWEEP_BATCH - 1) \<in> set L" using len pos by simp
    have "after_rows finding_key (Some ?c) (filter P (findings d)) = filter (\<lambda>r. after_cursor (Some ?c) (finding_key r)) L"
      using in_L unfolding after_rows_def L xs_def [symmetric]
      by (cases cur) (auto simp: after_cursor_less intro!: filter_cong intro: less_trans)
    also have "\<dots> = drop SWEEP_BATCH L" by (rule after_sorted_drop [OF sL pos len])
    finally have rest: "after_rows finding_key (Some ?c) (filter P (findings ?d)) = drop SWEEP_BATCH L"
      using requery_after_batch [OF Suc.prems(1) sub le] by simp
    have pa: "\<forall>f \<in> set ?batch. places_agree f d"
      using sub Suc.prems(1) distinct_key_unique [of f_id "findings d"] by (auto simp: places_agree_def)
    have "map f_id (findings ?d) = map snd (map finding_key (findings ?d))" by (simp add: finding_key_def)
    also have "\<dots> = map f_id (findings d)" by (simp only: fold_places [OF pa]) (simp add: finding_key_def)
    finally have ids: "distinct (map f_id (findings ?d))" using Suc.prems(1) by simp
    have "in_batches n P body (Some ?c) ?d = Some (fold body (drop SWEEP_BATCH L) ?d)"
      using Suc.IH [OF ids, of "Some ?c"] Suc.prems(2) rest pos len by (simp add: L_def)
    moreover have "fold body (drop SWEEP_BATCH L) ?d = fold body L d"
      by (metis append_take_drop_id fold_append comp_apply)
    ultimately show ?thesis
      using False ne last by (simp add: q Let_def flip: L_def)
  qed
qed

lemma sweep_is_one_pass:
  assumes "distinct (map f_id (findings d))"
  shows "sweep P body d = fold body (sort_key finding_key (filter P (findings d))) d"
proof -
  have "length (after_rows finding_key None (filter P (findings d))) < Suc (length (findings d))"
    by (simp add: after_rows_def less_Suc_eq_le)
  from in_batches_is_one_pass [OF assms this] show ?thesis
    by (simp add: sweep_def after_rows_def del: in_batches.simps)
qed

end

section \<open>Handlers that rewrite their own row\<close>

text \<open>
  Every caller of the walk is of this shape: it computes from the row, and from tables the walk
  does not change, either nothing or a new version of the row with events.
\<close>

definition rewrite_row :: "(finding \<Rightarrow> (finding \<times> finding_event list) option) \<Rightarrow> finding \<Rightarrow> db \<Rightarrow> db" where
  "rewrite_row tr f d = (case tr f of None \<Rightarrow> d | Some fe \<Rightarrow> save_finding fe d)"

definition rewritten :: "(finding \<Rightarrow> (finding \<times> finding_event list) option) \<Rightarrow> finding \<Rightarrow> finding" where
  "rewritten tr f = (case tr f of None \<Rightarrow> f | Some fe \<Rightarrow> fst fe)"

definition keeps_place :: "(finding \<Rightarrow> (finding \<times> finding_event list) option) \<Rightarrow> bool" where
  "keeps_place tr \<longleftrightarrow> (\<forall>f. finding_key (rewritten tr f) = finding_key f)"

lemma rewritten_id: "keeps_place tr \<Longrightarrow> f_id (rewritten tr f) = f_id f"
  by (auto simp: keeps_place_def finding_key_def)

lemma filter_update_where_other:
  "(\<And>g. P g \<Longrightarrow> \<not> Q g) \<Longrightarrow> (\<And>g. P g \<Longrightarrow> \<not> Q (f g)) \<Longrightarrow> filter Q (update_where P f xs) = filter Q xs"
  by (induction xs) auto

lemma row_handler_rewrite:
  assumes "\<And>f d. body f d = rewrite_row (tr (suppressions d)) f d" and "\<And>sup. keeps_place (tr sup)"
  shows "row_handler body"
proof
  fix f d
  show "filter (\<lambda>g. f_id g \<noteq> f_id f) (findings (body f d)) = filter (\<lambda>g. f_id g \<noteq> f_id f) (findings d)"
  proof (cases "tr (suppressions d) f")
    case None
    then show ?thesis by (simp add: assms(1) rewrite_row_def)
  next
    case (Some fe)
    then have "f_id (fst fe) = f_id f"
      using rewritten_id [OF assms(2), of "suppressions d" f] by (simp add: rewritten_def)
    then show ?thesis
      using Some by (simp add: assms(1) rewrite_row_def save_finding_def filter_update_where_other)
  qed
  show "map finding_key (findings (body f d)) = map finding_key (findings d)" if "places_agree f d"
  proof (cases "tr (suppressions d) f")
    case None
    then show ?thesis by (simp add: assms(1) rewrite_row_def)
  next
    case (Some fe)
    then have "finding_key (fst fe) = finding_key f"
      using assms(2) [of "suppressions d"] by (auto simp: keeps_place_def rewritten_def dest: spec [of _ f])
    then show ?thesis
      using Some that
      by (auto simp: assms(1) rewrite_row_def save_finding_def update_where_def places_agree_def finding_key_def)
  qed
qed

text \<open>One pass of such a handler is a map over the table.\<close>

lemma fold_rewrite_row:
  assumes "distinct (map f_id (findings d))" and "distinct (map f_id L)"
    and "set L \<subseteq> set (findings d)" and "keeps_place tr"
  shows "fold (rewrite_row tr) L d =
    d\<lparr>findings := map (\<lambda>g. if g \<in> set L then rewritten tr g else g) (findings d),
      events := events d @ concat (map (\<lambda>f. case tr f of None \<Rightarrow> [] | Some fe \<Rightarrow> snd fe) L)\<rparr>"
  using assms
proof (induction L arbitrary: d)
  case Nil
  then show ?case by (simp add: map_idI)
next
  case (Cons x L)
  let ?d = "rewrite_row tr x d"
  let ?ev = "case tr x of None \<Rightarrow> [] | Some fe \<Rightarrow> snd fe"
  have x: "x \<in> set (findings d)" using Cons.prems by simp
  have eqx: "f_id g = f_id x \<longleftrightarrow> g = x" if "g \<in> set (findings d)" for g
    using distinct_key_unique [OF Cons.prems(1)] that x by blast
  have d1: "?d = d\<lparr>findings := map (\<lambda>g. if g = x then rewritten tr x else g) (findings d), events := events d @ ?ev\<rparr>"
  proof (cases "tr x")
    case None
    then show ?thesis by (simp add: rewrite_row_def rewritten_def map_idI)
  next
    case (Some fe)
    then have "f_id (fst fe) = f_id x"
      using rewritten_id [OF Cons.prems(4), of x] by (simp add: rewritten_def)
    then show ?thesis
      using Some eqx by (auto simp: rewrite_row_def rewritten_def save_finding_def update_where_def)
  qed
  have notL: "rewritten tr x \<notin> set L" "x \<notin> set L"
    using Cons.prems(2) rewritten_id [OF Cons.prems(4), of x] by (auto simp: image_iff) 
  have ids: "map f_id (findings ?d) = map f_id (findings d)"
    using rewritten_id [OF Cons.prems(4), of x] by (simp add: d1)
  have sub: "set L \<subseteq> set (findings ?d)"
    using Cons.prems(3) notL(2) by (auto simp: d1 image_iff)
  have "fold (rewrite_row tr) L ?d =
      ?d\<lparr>findings := map (\<lambda>g. if g \<in> set L then rewritten tr g else g) (findings ?d),
         events := events ?d @ concat (map (\<lambda>f. case tr f of None \<Rightarrow> [] | Some fe \<Rightarrow> snd fe) L)\<rparr>"
    using Cons.IH [of ?d] Cons.prems ids sub by simp
  also have "\<dots> = d\<lparr>findings := map (\<lambda>g. if g \<in> set (x # L) then rewritten tr g else g) (findings d),
      events := events d @ ?ev @ concat (map (\<lambda>f. case tr f of None \<Rightarrow> [] | Some fe \<Rightarrow> snd fe) L)\<rparr>"
    using notL by (auto simp: d1)
  finally show ?case by simp
qed

lemma fold_body_rewrite:
  assumes "\<And>f d. body f d = rewrite_row (tr (suppressions d)) f d"
  shows "fold body L d = fold (rewrite_row (tr (suppressions d))) L d"
proof (induction L arbitrary: d)
  case Nil
  then show ?case by simp
next
  case (Cons f L)
  have "suppressions (rewrite_row (tr (suppressions d)) f d) = suppressions d"
    by (simp add: rewrite_row_def save_finding_def split: option.splits)
  then show ?case using Cons.IH by (simp add: assms)
qed

lemma sweep_rewrites:
  assumes "\<And>f d. body f d = rewrite_row (tr (suppressions d)) f d" and "\<And>sup. keeps_place (tr sup)"
    and d: "distinct (map f_id (findings d))"
  shows "sweep P body d =
    d\<lparr>findings := map (\<lambda>g. if P g then rewritten (tr (suppressions d)) g else g) (findings d),
      events := events d @ concat (map (\<lambda>f. case tr (suppressions d) f of None \<Rightarrow> [] | Some fe \<Rightarrow> snd fe)
        (sort_key finding_key (filter P (findings d))))\<rparr>"
proof -
  let ?L = "sort_key finding_key (filter P (findings d))"
  have "row_handler body" using row_handler_rewrite assms(1,2) by blast
  then have "sweep P body d = fold body ?L d" using row_handler.sweep_is_one_pass [OF _ d] by blast
  also have "\<dots> = fold (rewrite_row (tr (suppressions d))) ?L d" by (rule fold_body_rewrite [OF assms(1)])
  finally have e: "sweep P body d = fold (rewrite_row (tr (suppressions d))) ?L d" .
  have "mset (map f_id ?L) = mset (map f_id (filter P (findings d)))" by simp
  then have "distinct (map f_id ?L)"
    using d by (metis distinct_map_filter mset_eq_imp_distinct_iff)
  then have "sweep P body d =
      d\<lparr>findings := map (\<lambda>g. if g \<in> set ?L then rewritten (tr (suppressions d)) g else g) (findings d),
        events := events d @ concat (map (\<lambda>f. case tr (suppressions d) f of None \<Rightarrow> [] | Some fe \<Rightarrow> snd fe) ?L)\<rparr>"
    unfolding e by (intro fold_rewrite_row d assms(2)) auto
  then show ?thesis by (simp cong: map_cong)
qed

section \<open>The two sweeps\<close>

definition apply_row ::
  "suppression_rule \<Rightarrow> int \<Rightarrow> nat option \<Rightarrow> finding \<Rightarrow> (finding \<times> finding_event list) option" where
  "apply_row rule now actor f =
     (if sup_matches rule (f_fingerprint f) (f_rule_id f) (f_resource_locator f)
      then Some (suppress rule now actor f) else None)"

definition rules_in_force :: "suppression list \<Rightarrow> nat \<Rightarrow> int \<Rightarrow> suppression_rule list" where
  "rules_in_force sups sid now =
     map as_rule (filter (sup_live now) (filter (\<lambda>s. sup_source_id s = Some sid \<or> sup_source_id s = None) sups))"

definition lapsed_row :: "int \<Rightarrow> suppression list \<Rightarrow> finding \<Rightarrow> (finding \<times> finding_event list) option" where
  "lapsed_row now sups f =
     (case (case f_suppressed_by_id f of None \<Rightarrow> None | Some i \<Rightarrow> get_row sup_id i sups) of
        Some s \<Rightarrow> if sup_live now s then None
                  else Some (hand_over_or_release (rules_in_force sups (f_source_id f) now)
                               (EC_SuppressionExpired (sup_id s)) None f)
      | None \<Rightarrow> Some (hand_over_or_release (rules_in_force sups (f_source_id f) now) EC_SuppressionGone None f))"

lemma hand_over_key: "finding_key (fst (hand_over_or_release rules reason actor f)) = finding_key f"
  by (simp add: hand_over_or_release_def release_def finding_key_def split: option.splits)

lemma apply_row_keeps_place: "keeps_place (apply_row rule now actor)"
  by (simp add: keeps_place_def rewritten_def apply_row_def suppress_def finding_key_def)

lemma rewritten_lapsed:
  obtains (live) i s where "f_suppressed_by_id f = Some i" "get_row sup_id i sups = Some s" "sup_live now s"
      "rewritten (lapsed_row now sups) f = f"
  | (lifted) reason where "rewritten (lapsed_row now sups) f =
      fst (hand_over_or_release (rules_in_force sups (f_source_id f) now) reason None f)"
proof (cases "case f_suppressed_by_id f of None \<Rightarrow> None | Some i \<Rightarrow> get_row sup_id i sups")
  case None
  then show ?thesis by (intro lifted [of EC_SuppressionGone]) (simp add: rewritten_def lapsed_row_def)
next
  case (Some s)
  show ?thesis
  proof (cases "sup_live now s")
    case True
    then show ?thesis using Some live by (cases "f_suppressed_by_id f") (auto simp: rewritten_def lapsed_row_def)
  next
    case False
    then show ?thesis using Some by (intro lifted) (simp add: rewritten_def lapsed_row_def)
  qed
qed

lemma lapsed_row_keeps_place: "keeps_place (lapsed_row now sups)"
  unfolding keeps_place_def by (metis rewritten_lapsed hand_over_key)

lemma apply_body_rewrite: "apply_body rule now actor f d = rewrite_row (apply_row rule now actor) f d"
  by (simp add: apply_body_def rewrite_row_def apply_row_def)

lemma lapsed_body_rewrite: "lapsed_body now f d = rewrite_row (lapsed_row now (suppressions d)) f d"
  by (auto simp: lapsed_body_def rewrite_row_def lapsed_row_def recorded_suppression_def
      applicable_suppressions_def rules_in_force_def Let_def split: option.splits)

interpretation apply_walk: row_handler "apply_body rule now actor" for rule now actor
  by (rule row_handler_rewrite [of _ "\<lambda>_. apply_row rule now actor"])
     (simp_all add: apply_body_rewrite apply_row_keeps_place)

interpretation lapsed_walk: row_handler "lapsed_body now" for now
  by (rule row_handler_rewrite [of _ "lapsed_row now"]) (simp_all add: lapsed_body_rewrite lapsed_row_keeps_place)

lemma apply_to_existing_map:
  assumes "distinct (map f_id (findings d))"
  shows "findings (apply_to_existing s now actor d) =
    map (\<lambda>f. if narrows s f \<and> sup_matches (as_rule s) (f_fingerprint f) (f_rule_id f) (f_resource_locator f)
             then fst (suppress (as_rule s) now actor f) else f) (findings d)"
    and "suppressions (apply_to_existing s now actor d) = suppressions d"
  using sweep_rewrites [of "apply_body (as_rule s) now actor" "\<lambda>_. apply_row (as_rule s) now actor" d "narrows s"]
  by (auto simp: apply_to_existing_def apply_body_rewrite apply_row_keeps_place assms rewritten_def apply_row_def)

lemma release_lapsed_map:
  assumes "distinct (map f_id (findings d))"
  shows "findings (release_lapsed now d) =
    map (\<lambda>f. if f_suppressed_at f \<noteq> None then rewritten (lapsed_row now (suppressions d)) f else f) (findings d)"
    and "suppressions (release_lapsed now d) = suppressions d"
  using sweep_rewrites [of "lapsed_body now" "lapsed_row now" d "\<lambda>f. f_suppressed_at f \<noteq> None"]
  by (simp_all add: release_lapsed_def lapsed_body_rewrite lapsed_row_keeps_place assms)

section \<open>Properties\<close>

text \<open>
  What it means that a hidden finding is hidden for a reason: the suppression it names exists and
  has not expired.
\<close>

definition hidden_with_cause :: "int \<Rightarrow> suppression list \<Rightarrow> finding \<Rightarrow> bool" where
  "hidden_with_cause now sups f =
     (case f_suppressed_at f of
        None \<Rightarrow> True
      | Some _ \<Rightarrow>
          (case f_suppressed_by_id f of
             None \<Rightarrow> False
           | Some i \<Rightarrow> (case get_row sup_id i sups of None \<Rightarrow> False | Some s \<Rightarrow> sup_live now s)))"

lemma rules_in_force_live:
  assumes "distinct (map sup_id sups)" and "r \<in> set (rules_in_force sups sid now)"
  shows "\<exists>s. get_row sup_id (r_id r) sups = Some s \<and> sup_live now s"
proof -
  obtain s where s: "s \<in> set sups" "sup_live now s" "r = as_rule s"
    using assms(2) by (auto simp: rules_in_force_def)
  then show ?thesis using get_row_in [OF assms(1) s(1)] by (auto simp: as_rule_def)
qed

lemma hand_over_or_release_caused:
  assumes "distinct (map sup_id sups)"
  shows "hidden_with_cause now sups (fst (hand_over_or_release (rules_in_force sups sid now) reason actor f))"
proof (cases "finding_match (rules_in_force sups sid now) f")
  case None
  then show ?thesis
    by (auto simp: hand_over_or_release_def release_def hidden_with_cause_def split: option.splits)
next
  case (Some r)
  then have "r \<in> set (rules_in_force sups sid now)"
    using first_match_Some by (auto simp: finding_match_def)
  then show ?thesis
    using rules_in_force_live [OF assms, of r sid now] Some
    by (auto simp: hand_over_or_release_def hidden_with_cause_def split: option.splits)
qed

lemma lapsed_row_caused:
  assumes "distinct (map sup_id sups)"
  shows "hidden_with_cause now sups (rewritten (lapsed_row now sups) f)"
proof (rule rewritten_lapsed [of f sups now])
  fix i s
  assume "f_suppressed_by_id f = Some i" "get_row sup_id i sups = Some s" "sup_live now s"
    "rewritten (lapsed_row now sups) f = f"
  then show ?thesis by (simp add: hidden_with_cause_def split: option.splits)
next
  fix reason
  assume "rewritten (lapsed_row now sups) f =
    fst (hand_over_or_release (rules_in_force sups (f_source_id f) now) reason None f)"
  then show ?thesis by (simp add: hand_over_or_release_caused [OF assms])
qed

text \<open>
  C12.  After a maintenance sweep no finding stays hidden without a cause: every finding that is
  still suppressed names a suppression that exists and has not expired, however many batches the
  sweep took; findings that were not hidden are untouched, and no suppression is changed.
\<close>

theorem lapsed_suppressions_hide_nothing:
  assumes "distinct (map f_id (findings d))" and "distinct (map sup_id (suppressions d))"
  shows "list_all (hidden_with_cause now (suppressions d)) (findings (release_lapsed now d)) \<and>
    filter (\<lambda>f. f_suppressed_at f = None) (findings d) =
      map snd (filter (\<lambda>(f, g). f_suppressed_at f = None) (zip (findings d) (findings (release_lapsed now d)))) \<and>
    suppressions (release_lapsed now d) = suppressions d"
proof -
  let ?h = "\<lambda>f. if f_suppressed_at f \<noteq> None then rewritten (lapsed_row now (suppressions d)) f else f"
  have "hidden_with_cause now (suppressions d) (?h f)" for f
    using lapsed_row_caused [OF assms(2), of now f] by (auto simp: hidden_with_cause_def)
  then have "list_all (hidden_with_cause now (suppressions d)) (map ?h (findings d))"
    by (simp only: list_all_iff set_map ball_simps(9)) blast
  moreover have "filter (\<lambda>f. f_suppressed_at f = None) xs =
      map snd (filter (\<lambda>(f, g). f_suppressed_at f = None) (zip xs (map ?h xs)))" for xs
    by (induction xs) auto
  ultimately show ?thesis
    unfolding release_lapsed_map [OF assms(1)] by blast
qed

text \<open>
  C13.  A new suppression takes effect at once, on exactly these findings: not yet suppressed, of its
  source if it names one, matched by the shared matcher, and, for a path glob only, open.  A
  fingerprint or rule suppression covers findings in every state, which the SQL narrowing by scope
  neither adds to nor loses from.  Those findings are marked with the suppression and the time and
  otherwise unchanged; every other finding is left as it was.
\<close>

theorem new_suppression_covers_exactly_its_findings:
  assumes "distinct (map f_id (findings d))"
  shows "findings (apply_to_existing s now actor d) =
    map (\<lambda>f. if f_suppressed_at f = None \<and> (sup_source_id s = None \<or> sup_source_id s = Some (f_source_id f)) \<and>
                (sup_scope s = PATH_GLOB \<longrightarrow> f_state f = OPEN) \<and>
                sup_matches (as_rule s) (f_fingerprint f) (f_rule_id f) (f_resource_locator f)
             then f\<lparr>f_suppressed_at := Some now, f_suppressed_by_id := Some (sup_id s)\<rparr>
             else f) (findings d)"
proof -
  have n: "narrows s f \<and> sup_matches (as_rule s) (f_fingerprint f) (f_rule_id f) (f_resource_locator f) \<longleftrightarrow>
      f_suppressed_at f = None \<and> (sup_source_id s = None \<or> sup_source_id s = Some (f_source_id f)) \<and>
      (sup_scope s = PATH_GLOB \<longrightarrow> f_state f = OPEN) \<and>
      sup_matches (as_rule s) (f_fingerprint f) (f_rule_id f) (f_resource_locator f)" for f
    by (cases "sup_scope s") (auto simp: narrows_def sup_matches_def as_rule_def split: option.splits)
  have "fst (suppress (as_rule s) now actor f) = f\<lparr>f_suppressed_at := Some now, f_suppressed_by_id := Some (sup_id s)\<rparr>"
    if "f_suppressed_at f = None" for f
    using that by (simp add: suppress_def as_rule_def)
  then show ?thesis unfolding apply_to_existing_map(1) [OF assms] n by (intro map_cong refl if_cong) simp_all
qed

text \<open>What the deletion of a suppression does to a finding that names it.\<close>

definition deleted_row ::
  "nat \<Rightarrow> nat \<Rightarrow> int \<Rightarrow> suppression list \<Rightarrow> finding \<Rightarrow> (finding \<times> finding_event list) option" where
  "deleted_row i analyst now sups f =
     Some (hand_over_or_release
       (filter (\<lambda>r. r_id r \<noteq> i) (rules_in_force sups (f_source_id f) now))
       (EC_SuppressionDeleted i) (Some analyst) f)"

lemma deleted_row_keeps_place: "keeps_place (deleted_row i analyst now sups)"
  by (simp add: keeps_place_def rewritten_def deleted_row_def hand_over_key)

lemma delete_suppression_map:
  assumes "distinct (map f_id (findings d))" and "delete_suppression i analyst now d = Inr d'"
  shows "findings d' = map (\<lambda>f. if f_suppressed_by_id f = Some i
        then rewritten (deleted_row i analyst now (suppressions d)) f else f) (findings d)"
    and "events d' = events d @ concat (map (\<lambda>f. snd (the (deleted_row i analyst now (suppressions d) f)))
        (filter (\<lambda>f. f_suppressed_by_id f = Some i) (findings d)))"
proof -
  obtain s where s: "get_row sup_id i (suppressions d) = Some s" "sup_id s = i"
    using assms(2) get_row_Some by (fastforce simp: delete_suppression_def split: option.splits)
  let ?tr = "deleted_row i analyst now"
  let ?body = "\<lambda>f e. rewrite_row (?tr (suppressions e)) f e"
  let ?L = "filter (\<lambda>f. f_suppressed_by_id f = Some i) (findings d)"
  have "release_covered_by s now (Some analyst) d = fold ?body ?L d"
    by (simp add: release_covered_by_def s(2) applicable_suppressions_def rules_in_force_def
        rewrite_row_def deleted_row_def)
  also have "\<dots> = fold (rewrite_row (?tr (suppressions d))) ?L d"
    by (rule fold_body_rewrite) simp
  also have "\<dots> = d\<lparr>findings := map (\<lambda>g. if g \<in> set ?L then rewritten (?tr (suppressions d)) g else g) (findings d),
      events := events d @ concat (map (\<lambda>f. case ?tr (suppressions d) f of None \<Rightarrow> [] | Some fe \<Rightarrow> snd fe) ?L)\<rparr>"
    by (rule fold_rewrite_row [OF assms(1) _ _ deleted_row_keeps_place])
      (auto simp: assms(1) distinct_map_filter)
  finally have r: "release_covered_by s now (Some analyst) d = \<dots>" .
  show "findings d' = map (\<lambda>f. if f_suppressed_by_id f = Some i
        then rewritten (deleted_row i analyst now (suppressions d)) f else f) (findings d)"
    using assms(2) s by (auto simp: delete_suppression_def Let_def r cong: map_cong)
  show "events d' = events d @ concat (map (\<lambda>f. snd (the (deleted_row i analyst now (suppressions d) f)))
        (filter (\<lambda>f. f_suppressed_by_id f = Some i) (findings d)))"
    using assms(2) s by (auto simp: delete_suppression_def Let_def r deleted_row_def)
qed

lemma deleted_row_cases:
  assumes "f_suppressed_at f \<noteq> None"
  obtains (released) "f_suppressed_at (rewritten (deleted_row i a now sups) f) = None"
      "f_suppressed_by_id (rewritten (deleted_row i a now sups) f) = None"
      "\<exists>e \<in> set (snd (the (deleted_row i a now sups f))).
         ev_finding_id e = f_id f \<and> ev_comment e = Some (EC_SuppressionDeleted i)"
  | (handed) r where "r \<in> set (rules_in_force sups (f_source_id f) now)" "r_id r \<noteq> i"
      "sup_matches r (f_fingerprint f) (f_rule_id f) (f_resource_locator f)"
      "rewritten (deleted_row i a now sups) f = f\<lparr>f_suppressed_by_id := Some (r_id r)\<rparr>"
proof (cases "finding_match (filter (\<lambda>r. r_id r \<noteq> i) (rules_in_force sups (f_source_id f) now)) f")
  case None
  then show ?thesis
    using assms by (intro released)
      (auto simp: rewritten_def deleted_row_def hand_over_or_release_def release_def)
next
  case (Some r)
  then have "r \<in> set (filter (\<lambda>r. r_id r \<noteq> i) (rules_in_force sups (f_source_id f) now)) \<and>
      sup_matches r (f_fingerprint f) (f_rule_id f) (f_resource_locator f)"
    unfolding finding_match_def by (rule first_match_Some)
  then show ?thesis
    using Some by (intro handed [of r]) (auto simp: rewritten_def deleted_row_def hand_over_or_release_def)
qed

text \<open>
  C14.  Deleting a suppression leaves nothing hidden by it.  If every finding that names a
  suppression is marked as suppressed, then after the deletion no finding names the deleted one;
  each finding it had hidden is either visible again, with a release event that says why, or is
  handed over to another suppression that is in force for its source and matches it; and no other
  finding changes.
\<close>

theorem deleted_suppression_hides_nothing:
  assumes "distinct (map f_id (findings d))"
    and "\<forall>f \<in> set (findings d). f_suppressed_by_id f \<noteq> None \<longrightarrow> f_suppressed_at f \<noteq> None"
    and "delete_suppression i analyst now d = Inr d'"
  shows "\<exists>tr. findings d' = map tr (findings d) \<and>
    (\<forall>f \<in> set (findings d).
       f_suppressed_by_id (tr f) \<noteq> Some i \<and>
       (f_suppressed_by_id f \<noteq> Some i \<longrightarrow> tr f = f) \<and>
       (f_suppressed_by_id f = Some i \<longrightarrow>
          (f_suppressed_at (tr f) = None \<and>
             (\<exists>e \<in> set (events d'). ev_finding_id e = f_id f \<and> ev_comment e = Some (EC_SuppressionDeleted i))) \<or>
          (\<exists>r \<in> set (applicable_suppressions d (f_source_id f) now).
             r_id r \<noteq> i \<and> sup_matches r (f_fingerprint f) (f_rule_id f) (f_resource_locator f) \<and>
             tr f = f\<lparr>f_suppressed_by_id := Some (r_id r)\<rparr>)))"
proof (intro exI conjI ballI)
  let ?h = "\<lambda>f. if f_suppressed_by_id f = Some i
    then rewritten (deleted_row i analyst now (suppressions d)) f else f"
  note map = delete_suppression_map [OF assms(1,3)]
  show "findings d' = map ?h (findings d)" by (rule map)
  fix f assume f: "f \<in> set (findings d)"
  show "f_suppressed_by_id f \<noteq> Some i \<longrightarrow> ?h f = f" by simp
  show "f_suppressed_by_id (?h f) \<noteq> Some i"
  proof (cases "f_suppressed_by_id f = Some i")
    case True
    then have "f_suppressed_at f \<noteq> None" using f assms(2) by auto
    then show ?thesis
      using True by (cases rule: deleted_row_cases [of f i analyst now "suppressions d"]) simp_all
  qed simp
  show "f_suppressed_by_id f = Some i \<longrightarrow>
      (f_suppressed_at (?h f) = None \<and>
         (\<exists>e \<in> set (events d'). ev_finding_id e = f_id f \<and> ev_comment e = Some (EC_SuppressionDeleted i))) \<or>
      (\<exists>r \<in> set (applicable_suppressions d (f_source_id f) now).
         r_id r \<noteq> i \<and> sup_matches r (f_fingerprint f) (f_rule_id f) (f_resource_locator f) \<and>
         ?h f = f\<lparr>f_suppressed_by_id := Some (r_id r)\<rparr>)"
  proof
    assume hid: "f_suppressed_by_id f = Some i"
    then have "f_suppressed_at f \<noteq> None" using f assms(2) by auto
    then show "(f_suppressed_at (?h f) = None \<and>
         (\<exists>e \<in> set (events d'). ev_finding_id e = f_id f \<and> ev_comment e = Some (EC_SuppressionDeleted i))) \<or>
      (\<exists>r \<in> set (applicable_suppressions d (f_source_id f) now).
         r_id r \<noteq> i \<and> sup_matches r (f_fingerprint f) (f_rule_id f) (f_resource_locator f) \<and>
         ?h f = f\<lparr>f_suppressed_by_id := Some (r_id r)\<rparr>)"
    proof (cases rule: deleted_row_cases [of f i analyst now "suppressions d"])
      case released
      moreover have "\<exists>e \<in> set (events d'). ev_finding_id e = f_id f \<and> ev_comment e = Some (EC_SuppressionDeleted i)"
        using released(3) f hid unfolding map(2) by fastforce
      ultimately show ?thesis using hid by simp
    next
      case (handed r)
      then show ?thesis
        using hid by (intro disjI2 bexI [of _ r]) (auto simp: applicable_suppressions_def rules_in_force_def)
    qed
  qed
qed

section \<open>Witnesses\<close>

text \<open>
  A database with one finding that is hidden by suppression 7; suppression 8 covers it too.
\<close>

definition demo_sups :: "suppression list" where
  "demo_sups =
     [\<lparr>sup_id = 7, sup_scope = RULE_SCOPE, sup_pattern = cps ''aws'', sup_source_id = None, sup_expires_at = Some 50\<rparr>,
      \<lparr>sup_id = 8, sup_scope = FINGERPRINT_SCOPE, sup_pattern = cps ''fp'', sup_source_id = Some 5, sup_expires_at = None\<rparr>]"

definition demo_hidden :: db where
  "demo_hidden =
     empty_db\<lparr>findings := [demo_finding\<lparr>f_suppressed_at := Some 3, f_suppressed_by_id := Some 7\<rparr>],
               suppressions := demo_sups\<rparr>"

lemmas demo_hidden_simps = demo_hidden_def demo_finding_def demo_sups_def

theorem lapsed_suppressions_hide_nothing_witness:
  "list_all (hidden_with_cause 100 demo_sups) (findings (release_lapsed 100 demo_hidden)) \<and>
   \<not> list_all (hidden_with_cause 100 demo_sups) (findings demo_hidden)"
proof -
  have "distinct (map f_id (findings demo_hidden))" "distinct (map sup_id (suppressions demo_hidden))"
    by (simp_all add: demo_hidden_simps)
  moreover have "suppressions demo_hidden = demo_sups" by (simp add: demo_hidden_def)
  moreover have "\<not> list_all (hidden_with_cause 100 demo_sups) (findings demo_hidden)"
    by (simp add: demo_hidden_simps hidden_with_cause_def get_row_def sup_live_def)
  ultimately show ?thesis using lapsed_suppressions_hide_nothing [of demo_hidden 100] by simp
qed

text \<open>A rule suppression covers a resolved finding of the rule and leaves the other one.\<close>

theorem new_suppression_covers_exactly_its_findings_witness:
  "findings (apply_to_existing (demo_sups ! 0) 40 None
     (empty_db\<lparr>findings := [demo_finding\<lparr>f_state := RESOLVED\<rparr>, demo_finding\<lparr>f_id := 2, f_rule_id := cps ''other''\<rparr>]\<rparr>)) =
   [demo_finding\<lparr>f_state := RESOLVED, f_suppressed_at := Some 40, f_suppressed_by_id := Some 7\<rparr>,
    demo_finding\<lparr>f_id := 2, f_rule_id := cps ''other''\<rparr>]"
proof -
  let ?d = "empty_db\<lparr>findings := [demo_finding\<lparr>f_state := RESOLVED\<rparr>, demo_finding\<lparr>f_id := 2, f_rule_id := cps ''other''\<rparr>]\<rparr>"
  have "distinct (map f_id (findings ?d))" by (simp add: demo_finding_def)
  note e = new_suppression_covers_exactly_its_findings [OF this, of "demo_sups ! 0" 40 None]
  have p: "sup_scope (demo_sups ! 0) = RULE_SCOPE" "sup_pattern (demo_sups ! 0) = cps ''aws''" "sup_id (demo_sups ! 0) = 7"
      "sup_source_id (demo_sups ! 0) = None" "f_rule_id demo_finding = cps ''aws''" "f_suppressed_at demo_finding = None"
      "cps ''other'' \<noteq> cps ''aws''"
    by (simp_all add: demo_sups_def demo_finding_def cps_def)
  show ?thesis unfolding e by (simp add: sup_matches_def as_rule_def p p(7) [symmetric])
qed

theorem deleted_suppression_hides_nothing_witness:
  "\<exists>d' tr. delete_suppression 7 2 20 demo_hidden = Inr d' \<and> findings d' = map tr (findings demo_hidden) \<and>
     f_suppressed_by_id (tr (findings demo_hidden ! 0)) \<noteq> Some 7"
proof -
  have "\<exists>d'. delete_suppression 7 2 20 demo_hidden = Inr d'"
    by (simp add: delete_suppression_def demo_hidden_simps get_row_def Let_def)
  then obtain d' where d': "delete_suppression 7 2 20 demo_hidden = Inr d'" ..
  have "distinct (map f_id (findings demo_hidden))"
    and "\<forall>f \<in> set (findings demo_hidden). f_suppressed_by_id f \<noteq> None \<longrightarrow> f_suppressed_at f \<noteq> None"
    and "findings demo_hidden ! 0 \<in> set (findings demo_hidden)"
    by (simp_all add: demo_hidden_simps)
  then show ?thesis using deleted_suppression_hides_nothing [OF _ _ d'] d' by blast
qed

end
