(* ===== verification/Ingest.thy ===== *)
theory Ingest
  imports Suppressions
begin

text \<open>
  Persisting what an engine reports: \<^verbatim>\<open>apps/api/src/iceberg_api/engines/ingest.py\<close>.  An operation on
  a finding returns the changed row with the audit events it adds, and the batch loop stores both.
  The map \<open>known\<close> of the loop holds live ORM objects, so here it maps a fingerprint to the id of a
  row and the row is read when it is used.  \<open>casefold\<close> is the Unicode table of the routing rules;
  \<open>correlate\<close> is \<open>correlation_id(., key=correlation_key)\<close>, absent when there is no key.  A unique
  index that refuses an audit event is the only error of ingest besides a refused correlation id.
\<close>

section \<open>Payloads\<close>

record validation_result =
  vr_provider :: pystr
  vr_validator_id :: pystr
  vr_contract_version :: pystr
  vr_status :: validation_status
  vr_reason :: validation_reason

record finding_payload =
  fp_fingerprint :: pystr
  fp_rule_id :: pystr
  fp_rulepack_version :: pystr
  fp_resource_locator :: jdict
  fp_redacted_snippet :: pystr
  fp_secret_hash :: pystr
  fp_entropy :: "rat option"
  fp_confidence :: "rat option"
  fp_severity :: severity
  fp_validation :: "validation_result option"
  fp_previous_fingerprint :: "pystr option"
  fp_previous_secret_hash :: "pystr option"

record ingest_outcome =
  io_ingested :: nat
  io_suppressed :: nat
  io_reopened :: nat
  io_below_threshold :: nat
  io_rekeyed :: nat
  io_fingerprints :: "pystr list"

definition no_outcome :: ingest_outcome where
  "no_outcome =
     \<lparr>io_ingested = 0, io_suppressed = 0, io_reopened = 0, io_below_threshold = 0, io_rekeyed = 0,
      io_fingerprints = []\<rparr>"

type_synonym correlate = "(pystr \<Rightarrow> py_error + pystr) option"

definition correlation_for :: "correlate \<Rightarrow> pystr \<Rightarrow> py_error + pystr option" where
  "correlation_for c h = (case c of None \<Rightarrow> Inr None | Some g \<Rightarrow> bindE (g h) (\<lambda>i. Inr (Some i)))"

section \<open>One finding\<close>

definition validation_event :: "validation_result \<Rightarrow> validation_status option \<Rightarrow> nat \<Rightarrow> finding \<Rightarrow> finding_event" where
  "validation_event r from scan_id f =
     \<lparr>ev_finding_id = f_id f, ev_actor_id = None, ev_scan_id = Some scan_id, ev_kind = VALIDATION,
      ev_from_value = map_option EV_Validation from, ev_to_value = Some (EV_Validation (vr_status r)),
      ev_comment = Some (EC_Validation (vr_provider r) (vr_validator_id r) (vr_contract_version r)
                           (Some (vr_reason r)))\<rparr>"

definition record_validation ::
  "finding_payload \<Rightarrow> validation_status option \<Rightarrow> nat \<Rightarrow> int \<Rightarrow> finding \<Rightarrow> finding \<times> finding_event list" where
  "record_validation p from scan_id now f =
     (case fp_validation p of
        None \<Rightarrow> (f, [])
      | Some r \<Rightarrow>
          (f\<lparr>f_validation_provider := Some (vr_provider r),
             f_validation_validator_id := Some (vr_validator_id r),
             f_validation_contract_version := Some (vr_contract_version r),
             f_validation_status := Some (vr_status r),
             f_validation_reason := Some (vr_reason r),
             f_validated_at := Some now\<rparr>,
           [validation_event r from scan_id f]))"

definition new_finding :: "nat \<Rightarrow> scan \<Rightarrow> finding_payload \<Rightarrow> pystr option \<Rightarrow> int \<Rightarrow> finding" where
  "new_finding i s p cid now =
     \<lparr>f_id = i, f_created_at = now, f_source_id = s_source_id s, f_fingerprint = fp_fingerprint p,
      f_rule_id = fp_rule_id p, f_rulepack_version = fp_rulepack_version p,
      f_resource_locator = fp_resource_locator p, f_redacted_snippet = fp_redacted_snippet p,
      f_secret_hash = fp_secret_hash p, f_correlation_id = cid, f_entropy = fp_entropy p,
      f_confidence = fp_confidence p, f_severity = fp_severity p, f_validation_provider = None,
      f_validation_validator_id = None, f_validation_contract_version = None,
      f_validation_status = None, f_validation_reason = None, f_validated_at = None,
      f_state = OPEN, f_resolution = None, f_assignee_id = None, f_owner_group_id = None,
      f_owner_pinned = False, f_due_at = None, f_notes = None, f_suppressed_at = None,
      f_suppressed_by_id = None, f_first_seen_scan_id = s_id s, f_last_seen_scan_id = s_id s\<rparr>"

definition create_row ::
  "(pystr \<Rightarrow> pystr) \<Rightarrow> policy \<Rightarrow> correlate \<Rightarrow> nat \<Rightarrow> scan \<Rightarrow> finding_payload \<Rightarrow> suppression_rule option \<Rightarrow>
   int \<Rightarrow> py_error + (finding \<times> finding_event list)" where
  "create_row casefold pol correlate i s p supp now =
     bindE (correlation_for correlate (fp_secret_hash p)) (\<lambda>cid.
       let (f1, e1) = record_validation p None (s_id s) now (new_finding i s p cid now);
           (_, f2, e2) = route casefold pol (s_id s) f1;
           f3 = start_clock pol now False f2;
           (f4, e4) = (case supp of None \<Rightarrow> (f3, []) | Some r \<Rightarrow> suppress r now None f3)
       in Inr (f4, e1 @ e2 @ e4))"

definition refresh_display :: "scan \<Rightarrow> finding_payload \<Rightarrow> pystr option \<Rightarrow> finding \<Rightarrow> finding" where
  "refresh_display s p cid f =
     f\<lparr>f_last_seen_scan_id := s_id s,
       f_correlation_id := cid,
       f_resource_locator := fp_resource_locator p,
       f_redacted_snippet := fp_redacted_snippet p,
       f_rulepack_version := fp_rulepack_version p,
       f_entropy := fp_entropy p,
       f_confidence := fp_confidence p,
       f_severity := fp_severity p\<rparr>"

text \<open>A validation result is recorded only when it differs from what the row says.\<close>

definition validation_changed :: "finding \<Rightarrow> validation_result \<Rightarrow> bool" where
  "validation_changed f r \<longleftrightarrow>
     (Some (vr_provider r), Some (vr_validator_id r), Some (vr_contract_version r), Some (vr_status r),
      Some (vr_reason r)) \<noteq>
     (f_validation_provider f, f_validation_validator_id f, f_validation_contract_version f,
      f_validation_status f, f_validation_reason f)"

definition refresh_validation ::
  "scan \<Rightarrow> finding_payload \<Rightarrow> int \<Rightarrow> finding \<Rightarrow> finding \<times> finding_event list" where
  "refresh_validation s p now f =
     (case fp_validation p of
        None \<Rightarrow> (f, [])
      | Some r \<Rightarrow> if validation_changed f r
                 then record_validation p (f_validation_status f) (s_id s) now f else (f, []))"

definition reopened_event :: "nat \<Rightarrow> finding \<Rightarrow> finding_event" where
  "reopened_event scan_id f =
     \<lparr>ev_finding_id = f_id f, ev_actor_id = None, ev_scan_id = Some scan_id, ev_kind = REOPENED,
      ev_from_value = Some (EV_State RESOLVED), ev_to_value = Some (EV_State OPEN),
      ev_comment = Some (EC_SeenAgain scan_id)\<rparr>"

definition reopen :: "nat \<Rightarrow> finding \<Rightarrow> bool \<times> finding \<times> finding_event list" where
  "reopen scan_id f =
     (if f_state f = RESOLVED
      then (True, f\<lparr>f_state := OPEN, f_resolution := None\<rparr>, [reopened_event scan_id f])
      else (False, f, []))"

definition refresh_row ::
  "(pystr \<Rightarrow> pystr) \<Rightarrow> policy \<Rightarrow> correlate \<Rightarrow> scan \<Rightarrow> finding_payload \<Rightarrow> suppression_rule option \<Rightarrow>
   int \<Rightarrow> finding \<Rightarrow> py_error + (bool \<times> finding \<times> finding_event list)" where
  "refresh_row casefold pol correlate s p supp now f =
     bindE (if f_correlation_id f = None then correlation_for correlate (f_secret_hash f)
            else Inr (f_correlation_id f)) (\<lambda>cid.
       let (f1, e1) = refresh_validation s p now (refresh_display s p cid f);
           (reopened, f2, e2) = reopen (s_id s) f1;
           (_, f3, e3) = route casefold pol (s_id s) f2;
           f4 = start_clock pol now reopened f3;
           (f5, e5) = (case supp of None \<Rightarrow> release (EC_NoSuppression (s_id s)) None f4
                       | Some r \<Rightarrow> suppress r now None f4)
       in Inr (reopened, f5, e1 @ e2 @ e3 @ e5))"

section \<open>The batch\<close>

fun add_events :: "finding_event list \<Rightarrow> finding_event list \<Rightarrow> py_error + finding_event list" where
  "add_events [] es = Inr es"
| "add_events (e # new) es = bindE (add_event e es) (add_events new)"

definition set_finding :: "finding \<Rightarrow> finding list \<Rightarrow> finding list" where
  "set_finding f = update_where (\<lambda>g. f_id g = f_id f) (\<lambda>_. f)"

type_synonym known = "pystr \<Rightarrow> nat option"

record ingest_state =
  is_db :: db
  is_known :: known
  is_out :: ingest_outcome

definition wanted_fingerprints :: "finding_payload list \<Rightarrow> pystr list" where
  "wanted_fingerprints ps =
     map fp_fingerprint ps @ concat (map (\<lambda>p. case fp_previous_fingerprint p of None \<Rightarrow> [] | Some q \<Rightarrow> [q]) ps)"

definition load_findings :: "db \<Rightarrow> nat \<Rightarrow> finding_payload list \<Rightarrow> known" where
  "load_findings d sid ps fp =
     (if fp \<in> set (wanted_fingerprints ps)
      then map_option f_id (List.find (\<lambda>f. f_source_id f = sid \<and> f_fingerprint f = fp) (findings d))
      else None)"

definition same_secret :: "finding \<Rightarrow> finding_payload \<Rightarrow> bool" where
  "same_secret f p = (case fp_previous_secret_hash p of None \<Rightarrow> True | Some h \<Rightarrow> h = f_secret_hash f)"

text \<open>
  The finding a payload is about: the row under its fingerprint, or else the row under its
  fingerprint of the outgoing pepper if it holds the same secret (\<open>True\<close>: re-key it).
\<close>

definition existing_for :: "known \<Rightarrow> db \<Rightarrow> finding_payload \<Rightarrow> (bool \<times> finding) option" where
  "existing_for known d p =
     (case known (fp_fingerprint p) of
        Some i \<Rightarrow> map_option (\<lambda>f. (False, f)) (get_row f_id i (findings d))
      | None \<Rightarrow>
          (case fp_previous_fingerprint p of
             None \<Rightarrow> None
           | Some q \<Rightarrow>
               (case known q of
                  None \<Rightarrow> None
                | Some i \<Rightarrow>
                    (case get_row f_id i (findings d) of
                       None \<Rightarrow> None
                     | Some f \<Rightarrow> if same_secret f p then Some (True, f) else None))))"

definition rekey_row :: "correlate \<Rightarrow> finding_payload \<Rightarrow> finding \<Rightarrow> py_error + finding" where
  "rekey_row correlate p f =
     bindE (correlation_for correlate (fp_secret_hash p)) (\<lambda>cid.
       Inr (f\<lparr>f_fingerprint := fp_fingerprint p, f_secret_hash := fp_secret_hash p,
              f_correlation_id := cid\<rparr>))"

definition rekey_known :: "finding_payload \<Rightarrow> nat \<Rightarrow> known \<Rightarrow> known" where
  "rekey_known p i known =
     (case fp_previous_fingerprint p of None \<Rightarrow> known | Some q \<Rightarrow> known(q := None))(fp_fingerprint p := Some i)"

definition note_ingested :: "finding_payload \<Rightarrow> suppression_rule option \<Rightarrow> bool \<Rightarrow> bool \<Rightarrow> ingest_outcome \<Rightarrow> ingest_outcome" where
  "note_ingested p supp rekeyed reopened out =
     out\<lparr>io_rekeyed := io_rekeyed out + (if rekeyed then 1 else 0),
         io_reopened := io_reopened out + (if reopened then 1 else 0),
         io_ingested := io_ingested out + 1,
         io_fingerprints := io_fingerprints out @ [fp_fingerprint p],
         io_suppressed := io_suppressed out + (if supp \<noteq> None then 1 else 0)\<rparr>"

definition ingest_one ::
  "(pystr \<Rightarrow> pystr) \<Rightarrow> policy \<Rightarrow> suppression_rule list \<Rightarrow> correlate \<Rightarrow> scan \<Rightarrow> int \<Rightarrow>
   finding_payload \<Rightarrow> ingest_state \<Rightarrow> py_error + ingest_state" where
  "ingest_one casefold pol rules correlate s now p st =
     (let d = is_db st;
          supp = first_match rules (fp_fingerprint p) (fp_rule_id p) (fp_resource_locator p)
      in case existing_for (is_known st) d p of
           None \<Rightarrow>
             let (i, d1) = new_id d in
             bindE (create_row casefold pol correlate i s p supp now) (\<lambda>(f, evs).
             bindE (add_events evs (events d1)) (\<lambda>es.
               Inr \<lparr>is_db = d1\<lparr>findings := findings d1 @ [f], events := es\<rparr>,
                    is_known = (is_known st)(fp_fingerprint p := Some i),
                    is_out = note_ingested p supp False False (is_out st)\<rparr>))
         | Some (rekeyed, f) \<Rightarrow>
             bindE (if rekeyed then rekey_row correlate p f else Inr f) (\<lambda>f0.
             bindE (refresh_row casefold pol correlate s p supp now f0) (\<lambda>(reopened, f', evs).
             bindE (add_events evs (events d)) (\<lambda>es.
               Inr \<lparr>is_db = d\<lparr>findings := set_finding f' (findings d), events := es\<rparr>,
                    is_known = (if rekeyed then rekey_known p (f_id f) (is_known st) else is_known st),
                    is_out = note_ingested p supp rekeyed reopened (is_out st)\<rparr>))))"

fun ingest_loop ::
  "(pystr \<Rightarrow> pystr) \<Rightarrow> policy \<Rightarrow> suppression_rule list \<Rightarrow> correlate \<Rightarrow> scan \<Rightarrow> int \<Rightarrow>
   finding_payload list \<Rightarrow> ingest_state \<Rightarrow> py_error + ingest_state" where
  "ingest_loop casefold pol rules correlate s now [] st = Inr st"
| "ingest_loop casefold pol rules correlate s now (p # ps) st =
     bindE (ingest_one casefold pol rules correlate s now p st)
       (ingest_loop casefold pol rules correlate s now ps)"

definition above_threshold :: "rat \<Rightarrow> finding_payload \<Rightarrow> bool" where
  "above_threshold threshold p = (case fp_confidence p of None \<Rightarrow> True | Some c \<Rightarrow> c \<ge> threshold)"

definition ingest_findings ::
  "(pystr \<Rightarrow> pystr) \<Rightarrow> correlate \<Rightarrow> rat \<Rightarrow> scan \<Rightarrow> finding_payload list \<Rightarrow> int \<Rightarrow> db \<Rightarrow>
   py_error + (ingest_outcome \<times> db)" where
  "ingest_findings casefold correlate threshold s payloads now d =
     (let rules = applicable_suppressions d (s_source_id s) now;
          pol = load_policy casefold d (s_source_id s);
          scored = filter (above_threshold threshold) payloads;
          out = no_outcome\<lparr>io_below_threshold := length payloads - length scored\<rparr>;
          st = \<lparr>is_db = d, is_known = load_findings d (s_source_id s) scored, is_out = out\<rparr>
      in bindE (ingest_loop casefold pol rules correlate s now scored st)
           (\<lambda>st'. Inr (is_out st', is_db st')))"

section \<open>Tallies\<close>

text \<open>\<open>int(value)\<close> of the numeric JSON values; a float is truncated towards zero.\<close>

definition json_int :: "json \<Rightarrow> int option" where
  "json_int v =
     (case v of JInt i \<Rightarrow> Some i | JBool b \<Rightarrow> Some (if b then 1 else 0)
      | JFloat q \<Rightarrow> Some (if q < 0 then - \<lfloor>- q\<rfloor> else \<lfloor>q\<rfloor>) | _ \<Rightarrow> None)"

type_synonym totals = "(pystr \<times> int) list"

definition total_of :: "totals \<Rightarrow> pystr \<Rightarrow> int" where
  "total_of ts k = (case map_of ts k of None \<Rightarrow> 0 | Some n \<Rightarrow> n)"

definition add_total :: "pystr \<Rightarrow> int \<Rightarrow> totals \<Rightarrow> totals" where
  "add_total k n ts = AList.update k (total_of ts k + n) ts"

definition merge_scan_counts :: "ingest_outcome \<Rightarrow> totals \<Rightarrow> scan \<Rightarrow> scan" where
  "merge_scan_counts out engine_counts s =
     (let t0 = concat (map (\<lambda>(k, v). case json_int v of None \<Rightarrow> [] | Some n \<Rightarrow> [(k, n)]) (s_counts s));
          t1 = fold (\<lambda>(k, n). add_total k n) engine_counts t0;
          t2 = add_total (cps ''findings'') (int (io_ingested out)) t1;
          t3 = add_total (cps ''suppressed'') (int (io_suppressed out)) t2;
          t4 = add_total (cps ''reopened'') (int (io_reopened out)) t3;
          t5 = add_total (cps ''below_threshold'') (int (io_below_threshold out)) t4;
          t6 = add_total (cps ''rekeyed'') (int (io_rekeyed out)) t5
      in s\<lparr>s_counts := fold (\<lambda>(k, n). AList.update k (JInt n)) t6 (s_counts s)\<rparr>)"

section \<open>What an operation on a finding keeps\<close>

text \<open>The columns that say which finding a row is, and those an analyst decides.\<close>

definition ident :: "finding \<Rightarrow> nat \<times> int \<times> nat \<times> nat" where
  "ident f = (f_id f, f_created_at f, f_source_id f, f_first_seen_scan_id f)"

definition naming :: "finding \<Rightarrow> pystr \<times> pystr \<times> nat" where
  "naming f = (f_fingerprint f, f_secret_hash f, f_last_seen_scan_id f)"

definition decision :: "finding \<Rightarrow> finding_state \<times> finding_resolution option \<times> nat option \<times> pystr option \<times> bool" where
  "decision f = (f_state f, f_resolution f, f_assignee_id f, f_notes f, f_owner_pinned f)"

definition owner_sticks :: "finding \<Rightarrow> finding \<Rightarrow> bool" where
  "owner_sticks f g \<longleftrightarrow> has_owner f \<longrightarrow> f_owner_group_id g = f_owner_group_id f"

lemmas columns_defs = ident_def naming_def decision_def owner_sticks_def has_owner_def

text \<open>An operation that keeps all three groups of columns.\<close>

definition keeps_columns :: "finding \<Rightarrow> finding \<Rightarrow> bool" where
  "keeps_columns f g \<longleftrightarrow> ident g = ident f \<and> naming g = naming f \<and> decision g = decision f \<and> owner_sticks f g"

lemma keeps_columns_trans: "keeps_columns f g \<Longrightarrow> keeps_columns g h \<Longrightarrow> keeps_columns f h"
  by (auto simp: keeps_columns_def columns_defs)

lemma keeps_record_validation: "keeps_columns f (fst (record_validation p st i now f))"
  by (simp add: keeps_columns_def columns_defs record_validation_def split: option.splits)

lemma keeps_refresh_validation: "keeps_columns f (fst (refresh_validation s p now f))"
  using keeps_record_validation
  by (simp add: refresh_validation_def split: option.splits) (simp add: keeps_columns_def columns_defs)

lemma keeps_route: "keeps_columns f (fst (snd (route cf pol i f)))"
  by (rule route_cases [of cf pol i f]) (simp_all add: keeps_columns_def columns_defs)

lemma keeps_start_clock: "keeps_columns f (start_clock pol now b f)"
  by (simp add: keeps_columns_def columns_defs start_clock_def split: option.splits)

lemma keeps_suppress: "keeps_columns f (fst (suppress r now a f))"
  by (simp add: keeps_columns_def columns_defs suppress_def)

lemma keeps_release: "keeps_columns f (fst (release c a f))"
  by (simp add: keeps_columns_def columns_defs release_def)

lemmas keeps_intros = keeps_record_validation keeps_refresh_validation keeps_route keeps_start_clock
  keeps_suppress keeps_release

text \<open>
  A sighting: a finding that was resolved is open again, every other state stays, and so do the
  assignee, the notes and an owner once there is one.
\<close>

definition sighted :: "finding \<Rightarrow> finding \<Rightarrow> bool" where
  "sighted f g \<longleftrightarrow>
     ident g = ident f \<and> owner_sticks f g \<and>
     decision g =
       (if f_state f = RESOLVED
        then (OPEN, None, f_assignee_id f, f_notes f, f_owner_pinned f) else decision f)"

lemma refresh_row_sighted:
  assumes "refresh_row cf pol c s p supp now f = Inr (b, g, evs)"
  shows "sighted f g" and "naming g = (f_fingerprint f, f_secret_hash f, s_id s)"
    and "b \<longleftrightarrow> f_state f = RESOLVED"
proof -
  obtain cid where r: "(let (f1, e1) = refresh_validation s p now (refresh_display s p cid f);
           (reopened, f2, e2) = reopen (s_id s) f1;
           (_, f3, e3) = route cf pol (s_id s) f2;
           f4 = start_clock pol now reopened f3;
           (f5, e5) = (case supp of None \<Rightarrow> release (EC_NoSuppression (s_id s)) None f4
                       | Some r \<Rightarrow> suppress r now None f4)
       in Inr (reopened, f5, e1 @ e2 @ e3 @ e5) :: py_error + _) = Inr (b, g, evs)"
    using assms unfolding refresh_row_def bindE_eq_Inr by blast
  define f0 where "f0 = refresh_display s p cid f"
  define f1 where "f1 = fst (refresh_validation s p now f0)"
  define f2 where "f2 = fst (snd (reopen (s_id s) f1))"
  define f3 where "f3 = fst (snd (route cf pol (s_id s) f2))"
  define f4 where "f4 = start_clock pol now b f3"
  have b: "b = fst (reopen (s_id s) f1)"
    and g: "g = fst (case supp of None \<Rightarrow> release (EC_NoSuppression (s_id s)) None f4
                     | Some r \<Rightarrow> suppress r now None f4)"
    using r unfolding Let_def f4_def f3_def f2_def f1_def f0_def by (auto split: prod.splits cong: option.case_cong)
  have k01: "keeps_columns f0 f1" and k23: "keeps_columns f2 f3" and k34: "keeps_columns f3 f4"
    by (simp_all add: f1_def f3_def f4_def keeps_intros)
  have k4g: "keeps_columns f4 g" unfolding g by (cases supp) (simp_all add: keeps_intros)
  have k2g: "keeps_columns f2 g" using k23 k34 k4g keeps_columns_trans by blast
  have f0: "ident f0 = ident f" "naming f0 = (f_fingerprint f, f_secret_hash f, s_id s)"
      "decision f0 = decision f" "owner_sticks f f0" "f_owner_group_id f0 = f_owner_group_id f"
    by (simp_all add: f0_def refresh_display_def columns_defs)
  have st: "f_state f1 = f_state f" using k01 f0 by (simp add: keeps_columns_def decision_def)
  show "b \<longleftrightarrow> f_state f = RESOLVED" using b st by (simp add: reopen_def)
  show "sighted f g" "naming g = (f_fingerprint f, f_secret_hash f, s_id s)"
    using k01 k2g f0 st unfolding f2_def reopen_def
    by (auto simp: sighted_def keeps_columns_def columns_defs split: if_splits)
qed

lemma create_row_new:
  assumes "create_row cf pol c i s p supp now = Inr (g, evs)"
  shows "f_id g = i" and "f_source_id g = s_source_id s" and "f_fingerprint g = fp_fingerprint p"
    and "f_last_seen_scan_id g = s_id s" and "f_first_seen_scan_id g = s_id s" and "f_state g = OPEN"
proof -
  obtain cid where r: "(let (f1, e1) = record_validation p None (s_id s) now (new_finding i s p cid now);
           (_, f2, e2) = route cf pol (s_id s) f1;
           f3 = start_clock pol now False f2;
           (f4, e4) = (case supp of None \<Rightarrow> (f3, []) | Some r \<Rightarrow> suppress r now None f3)
       in Inr (f4, e1 @ e2 @ e4) :: py_error + _) = Inr (g, evs)"
    using assms unfolding create_row_def bindE_eq_Inr by blast
  define f0 where "f0 = new_finding i s p cid now"
  define f1 where "f1 = fst (record_validation p None (s_id s) now f0)"
  define f2 where "f2 = fst (snd (route cf pol (s_id s) f1))"
  define f3 where "f3 = start_clock pol now False f2"
  have g: "g = fst (case supp of None \<Rightarrow> (f3, []) | Some r \<Rightarrow> suppress r now None f3)"
    using r unfolding Let_def f3_def f2_def f1_def f0_def by (auto split: prod.splits cong: option.case_cong)
  have k01: "keeps_columns f0 f1" and k12: "keeps_columns f1 f2" and k23: "keeps_columns f2 f3"
    by (simp_all add: f1_def f2_def f3_def keeps_intros)
  have k3g: "keeps_columns f3 g"
    unfolding g by (cases supp) (simp_all add: keeps_intros, simp add: keeps_columns_def columns_defs)
  have "keeps_columns f0 g" using k01 k12 k23 k3g keeps_columns_trans by blast
  then show "f_id g = i" "f_source_id g = s_source_id s" "f_fingerprint g = fp_fingerprint p"
      "f_last_seen_scan_id g = s_id s" "f_first_seen_scan_id g = s_id s" "f_state g = OPEN"
    by (simp_all add: keeps_columns_def columns_defs f0_def new_finding_def)
qed

section \<open>The findings table\<close>

text \<open>
  Ids are drawn from a supply without collisions, primary keys are unique, and a fingerprint names
  one finding of a source (\<open>uq_finding_source_id_fingerprint\<close>).
\<close>

definition name_of :: "finding \<Rightarrow> nat \<times> pystr" where
  "name_of f = (f_source_id f, f_fingerprint f)"

definition table_ok :: "db \<Rightarrow> bool" where
  "table_ok d \<longleftrightarrow>
     inj (uuid4 d) \<and> distinct (map f_id (findings d)) \<and> f_id ` set (findings d) \<subseteq> ids_drawn d \<and>
     distinct (map name_of (findings d))"

text \<open>The live map agrees with the table on every fingerprint the batch may ask for.\<close>

definition known_ok :: "nat \<Rightarrow> pystr set \<Rightarrow> known \<Rightarrow> db \<Rightarrow> bool" where
  "known_ok sid W known d \<longleftrightarrow>
     (\<forall>fp \<in> W. \<forall>i. known fp = Some i \<longleftrightarrow> (\<exists>f \<in> set (findings d). f_id f = i \<and> name_of f = (sid, fp)))"

definition replace_row :: "'r \<Rightarrow> 'r \<Rightarrow> 'r list \<Rightarrow> 'r list" where
  "replace_row f g rows = map (\<lambda>r. if r = f then g else r) rows"

lemma replace_row_simps [simp]:
  "replace_row f g [] = []"
  "replace_row f g (r # rows) = (if r = f then g else r) # replace_row f g rows"
  by (simp_all add: replace_row_def)

lemma replace_row_same: "f \<notin> set rows \<Longrightarrow> replace_row f g rows = rows"
  by (induction rows) auto

lemma set_finding_replace:
  "distinct (map f_id rows) \<Longrightarrow> f \<in> set rows \<Longrightarrow> f_id g = f_id f \<Longrightarrow> set_finding g rows = replace_row f g rows"
  using distinct_key_unique [of f_id rows]
  by (auto simp: set_finding_def replace_row_def update_where_def)

lemma in_replace_row:
  "f \<in> set rows \<Longrightarrow> x \<in> set (replace_row f g rows) \<longleftrightarrow> x = g \<or> (x \<in> set rows \<and> x \<noteq> f)"
  by (auto simp: replace_row_def)

lemma distinct_replace_row:
  assumes "distinct (map k rows)" and "f \<in> set rows" and "k g = k f \<or> k g \<notin> k ` set rows"
  shows "distinct (map k (replace_row f g rows))"
  using assms
proof (induction rows)
  case Nil
  then show ?case by simp
next
  case (Cons r rows)
  show ?case
  proof (cases "r = f")
    case True
    then have "f \<notin> set rows" using Cons.prems(1) by auto
    then show ?thesis
      using Cons.prems True by (auto simp: replace_row_same)
  next
    case False
    then have f: "f \<in> set rows" and d: "distinct (map k rows)" using Cons.prems by auto
    have "k g = k f \<or> k g \<notin> k ` set rows" using Cons.prems(3) by auto
    then have "distinct (map k (replace_row f g rows))" by (rule Cons.IH [OF d f])
    moreover have "k r \<notin> k ` set (replace_row f g rows)"
      using Cons.prems f False by (auto simp: in_replace_row [OF f])
    ultimately show ?thesis using False by simp
  qed
qed

lemma table_ok_replace:
  assumes "table_ok d" and "f \<in> set (findings d)" and "f_id g = f_id f"
    and "name_of g = name_of f \<or> name_of g \<notin> name_of ` set (findings d)"
  shows "table_ok (d\<lparr>findings := replace_row f g (findings d), events := es\<rparr>)"
proof -
  have "f_id ` set (replace_row f g (findings d)) \<subseteq> f_id ` set (findings d)"
    using assms(2,3) by (force simp: in_replace_row [OF assms(2)])
  moreover have "distinct (map f_id (replace_row f g (findings d)))"
    "distinct (map name_of (replace_row f g (findings d)))"
    using assms by (intro distinct_replace_row; simp add: table_ok_def)+
  ultimately show ?thesis using assms(1) by (auto simp: table_ok_def ids_drawn_def)
qed

lemma table_ok_insert:
  assumes "table_ok d" and "f_id g = fst (new_id d)" and "name_of g \<notin> name_of ` set (findings d)"
  shows "table_ok ((snd (new_id d))\<lparr>findings := findings d @ [g], events := es\<rparr>)"
proof -
  let ?d = "(snd (new_id d))\<lparr>findings := findings d @ [g], events := es\<rparr>"
  have fresh: "f_id g \<notin> ids_drawn d"
    using assms(1,2) new_id_fresh by (simp add: table_ok_def)
  have "uuid4 ?d = uuid4 d" "ids_drawn ?d = insert (f_id g) (ids_drawn d)"
    using ids_drawn_new_id [of d] assms(2) by (simp_all add: new_id_def ids_drawn_def)
  then show ?thesis using assms fresh by (auto simp: table_ok_def image_iff)
qed

lemma existing_for_None:
  assumes "known_ok sid W known d" and "table_ok d" and "fp_fingerprint p \<in> W"
    and "existing_for known d p = None"
  shows "(sid, fp_fingerprint p) \<notin> name_of ` set (findings d)"
proof
  assume "(sid, fp_fingerprint p) \<in> name_of ` set (findings d)"
  then obtain f where f: "f \<in> set (findings d)" "name_of f = (sid, fp_fingerprint p)" by auto
  then have "known (fp_fingerprint p) = Some (f_id f)" using assms(1,3) by (auto simp: known_ok_def)
  moreover have "get_row f_id (f_id f) (findings d) = Some f"
    using get_row_in [of f_id "findings d" f] assms(2) f(1) by (simp add: table_ok_def)
  ultimately show False using assms(4) by (simp add: existing_for_def)
qed

lemma known_row:
  assumes "known_ok sid W known d" and "table_ok d" and "fp \<in> W" and "known fp = Some i"
    and "get_row f_id i (findings d) = Some f"
  shows "f \<in> set (findings d)" and "name_of f = (sid, fp)"
proof -
  obtain g where g: "g \<in> set (findings d)" "f_id g = i" "name_of g = (sid, fp)"
    using assms(1,3,4) by (auto simp: known_ok_def)
  then have "f = g" using get_row_in [of f_id "findings d" g] assms(2,5) by (simp add: table_ok_def)
  then show "f \<in> set (findings d)" "name_of f = (sid, fp)" using g by auto
qed

text \<open>The two ways a payload can be about a stored finding.\<close>

lemma existing_for_Some:
  assumes "known_ok sid W known d" and "table_ok d" and "fp_fingerprint p \<in> W"
    and "\<forall>q. fp_previous_fingerprint p = Some q \<longrightarrow> q \<in> W" and "existing_for known d p = Some (b, f)"
  shows "f \<in> set (findings d)"
    and "\<not> b \<Longrightarrow> name_of f = (sid, fp_fingerprint p)"
    and "b \<Longrightarrow> \<exists>q. fp_previous_fingerprint p = Some q \<and> q \<noteq> fp_fingerprint p \<and> name_of f = (sid, q) \<and>
      same_secret f p \<and> (sid, fp_fingerprint p) \<notin> name_of ` set (findings d)"
proof -
  have none: "(sid, fp_fingerprint p) \<notin> name_of ` set (findings d)" if "known (fp_fingerprint p) = None"
    using assms(1,3) that by (force simp: known_ok_def)
  consider (same) i where "known (fp_fingerprint p) = Some i" "get_row f_id i (findings d) = Some f" "\<not> b"
    | (rekey) q i where "known (fp_fingerprint p) = None" "fp_previous_fingerprint p = Some q"
        "known q = Some i" "get_row f_id i (findings d) = Some f" "same_secret f p" "b"
    using assms(5) by (auto simp: existing_for_def split: option.splits if_splits)
  then have "f \<in> set (findings d) \<and> (\<not> b \<longrightarrow> name_of f = (sid, fp_fingerprint p)) \<and>
      (b \<longrightarrow> (\<exists>q. fp_previous_fingerprint p = Some q \<and> q \<noteq> fp_fingerprint p \<and> name_of f = (sid, q) \<and>
         same_secret f p \<and> (sid, fp_fingerprint p) \<notin> name_of ` set (findings d)))"
  proof cases
    case same
    then show ?thesis using known_row [OF assms(1,2,3)] by blast
  next
    case rekey
    then have q: "q \<in> W" using assms(4) by simp
    show ?thesis
      using rekey known_row [OF assms(1,2) q rekey(3,4)] none by auto
  qed
  then show "f \<in> set (findings d)"
    and "\<not> b \<Longrightarrow> name_of f = (sid, fp_fingerprint p)"
    and "b \<Longrightarrow> \<exists>q. fp_previous_fingerprint p = Some q \<and> q \<noteq> fp_fingerprint p \<and> name_of f = (sid, q) \<and>
      same_secret f p \<and> (sid, fp_fingerprint p) \<notin> name_of ` set (findings d)"
    by blast+
qed

section \<open>One payload\<close>

text \<open>What any number of sightings may do to a row.\<close>

definition carried :: "finding \<Rightarrow> finding \<Rightarrow> bool" where
  "carried f g \<longleftrightarrow>
     ident g = ident f \<and> owner_sticks f g \<and>
     (decision g = decision f \<or>
      f_state f = RESOLVED \<and> decision g = (OPEN, None, f_assignee_id f, f_notes f, f_owner_pinned f))"

lemma carried_refl [simp]: "carried f f"
  by (simp add: carried_def owner_sticks_def)

lemma carried_trans: "carried f g \<Longrightarrow> carried g h \<Longrightarrow> carried f h"
proof -
  assume f: "carried f g" and g: "carried g h"
  have "has_owner f \<Longrightarrow> has_owner g"
    using f by (auto simp: carried_def decision_def has_owner_def owner_sticks_def)
  then have o: "owner_sticks f h" using f g by (simp add: carried_def owner_sticks_def)
  show ?thesis
  proof (cases "decision g = decision f")
    case True
    then show ?thesis using f g o by (simp add: carried_def decision_def)
  next
    case False
    then have "f_state f = RESOLVED" "decision g = (OPEN, None, f_assignee_id f, f_notes f, f_owner_pinned f)"
      using f by (simp_all add: carried_def)
    then show ?thesis using f g o by (simp add: carried_def decision_def)
  qed
qed

lemma sighted_carried: "sighted f g \<Longrightarrow> carried f g"
  by (auto simp: sighted_def carried_def)

lemma rekey_row_keeps:
  assumes "rekey_row c p f = Inr g"
  shows "ident g = ident f" and "decision g = decision f" and "f_owner_group_id g = f_owner_group_id f"
    and "f_fingerprint g = fp_fingerprint p" and "f_secret_hash g = fp_secret_hash p"
  using assms by (auto simp: rekey_row_def bindE_eq_Inr columns_defs)

text \<open>The row a payload leaves behind in the existing case.\<close>

lemma existing_row_after:
  assumes "(if b then rekey_row c p f else Inr f) = Inr f0"
    and "refresh_row cf pol c s p supp now f0 = Inr (r, g, evs)"
  shows "carried f g" and "f_id g = f_id f" and "f_source_id g = f_source_id f"
    and "f_last_seen_scan_id g = s_id s" and "f_fingerprint g = (if b then fp_fingerprint p else f_fingerprint f)"
    and "f_state g \<noteq> RESOLVED"
proof -
  have f0: "ident f0 = ident f" "decision f0 = decision f" "f_owner_group_id f0 = f_owner_group_id f"
      "f_fingerprint f0 = (if b then fp_fingerprint p else f_fingerprint f)"
    using assms(1) rekey_row_keeps by (auto split: if_splits)
  note r = refresh_row_sighted [OF assms(2)]
  show "carried f g" using f0 r(1) by (auto simp: sighted_def carried_def columns_defs split: if_splits)
  show "f_id g = f_id f" "f_source_id g = f_source_id f"
    using f0(1) r(1) by (simp_all add: sighted_def ident_def)
  show "f_last_seen_scan_id g = s_id s" "f_fingerprint g = (if b then fp_fingerprint p else f_fingerprint f)"
    using f0(4) r(2) by (simp_all add: naming_def)
  show "f_state g \<noteq> RESOLVED" using r(1) f0 by (auto simp: sighted_def decision_def split: if_splits)
qed

definition stored :: "nat \<Rightarrow> nat \<Rightarrow> pystr \<Rightarrow> db \<Rightarrow> bool" where
  "stored sid scan_id fp d \<longleftrightarrow>
     (\<exists>g \<in> set (findings d). name_of g = (sid, fp) \<and> f_last_seen_scan_id g = scan_id \<and> f_state g \<noteq> RESOLVED)"

definition batch_ok :: "nat \<Rightarrow> pystr set \<Rightarrow> ingest_state \<Rightarrow> bool" where
  "batch_ok sid W st \<longleftrightarrow> table_ok (is_db st) \<and> known_ok sid W (is_known st) (is_db st)"

definition asks_within :: "pystr set \<Rightarrow> finding_payload \<Rightarrow> bool" where
  "asks_within W p \<longleftrightarrow> fp_fingerprint p \<in> W \<and> (\<forall>q. fp_previous_fingerprint p = Some q \<longrightarrow> q \<in> W)"

lemma ingest_one_create:
  assumes ok: "batch_ok (s_source_id s) W st" and w: "asks_within W p"
    and none: "existing_for (is_known st) (is_db st) p = None"
    and i: "ingest_one cf pol rules c s now p st = Inr st'"
  obtains g es where "is_db st' = (snd (new_id (is_db st)))\<lparr>findings := findings (is_db st) @ [g], events := es\<rparr>"
    and "is_known st' = (is_known st)(fp_fingerprint p := Some (f_id g))"
    and "f_id g = fst (new_id (is_db st))" and "name_of g = (s_source_id s, fp_fingerprint p)"
    and "f_last_seen_scan_id g = s_id s" and "f_state g = OPEN"
    and "(s_source_id s, fp_fingerprint p) \<notin> name_of ` set (findings (is_db st))"
proof -
  have fresh: "(s_source_id s, fp_fingerprint p) \<notin> name_of ` set (findings (is_db st))"
    using existing_for_None [OF _ _ _ none, of "s_source_id s" W] ok w by (simp add: batch_ok_def asks_within_def)
  have nd: "findings (snd (new_id (is_db st))) = findings (is_db st)" by (simp add: new_id_def)
  obtain g evs es where g: "create_row cf pol c (fst (new_id (is_db st))) s p
        (first_match rules (fp_fingerprint p) (fp_rule_id p) (fp_resource_locator p)) now = Inr (g, evs)"
      "is_db st' = (snd (new_id (is_db st)))\<lparr>findings := findings (is_db st) @ [g], events := es\<rparr>"
      "is_known st' = (is_known st)(fp_fingerprint p := Some (fst (new_id (is_db st))))"
    using i none nd by (auto simp: ingest_one_def Let_def bindE_eq_Inr split: prod.splits)
  note c = create_row_new [OF g(1)]
  show ?thesis
    by (rule that [OF g(2)]) (use g c fresh in \<open>simp_all add: name_of_def\<close>)
qed

lemma ingest_one_existing:
  assumes ok: "batch_ok (s_source_id s) W st" and w: "asks_within W p"
    and ex: "existing_for (is_known st) (is_db st) p = Some (b, f)"
    and i: "ingest_one cf pol rules c s now p st = Inr st'"
  obtains g es where "is_db st' = (is_db st)\<lparr>findings := replace_row f g (findings (is_db st)), events := es\<rparr>"
    and "is_known st' = (if b then rekey_known p (f_id f) (is_known st) else is_known st)"
    and "f \<in> set (findings (is_db st))" and "carried f g" and "f_id g = f_id f"
    and "name_of g = (s_source_id s, fp_fingerprint p)"
    and "f_last_seen_scan_id g = s_id s" and "f_state g \<noteq> RESOLVED"
proof -
  have t: "table_ok (is_db st)" "known_ok (s_source_id s) W (is_known st) (is_db st)"
    using ok by (simp_all add: batch_ok_def)
  have a: "fp_fingerprint p \<in> W" "\<forall>q. fp_previous_fingerprint p = Some q \<longrightarrow> q \<in> W"
    using w by (simp_all add: asks_within_def)
  note e = existing_for_Some [OF t(2,1) a ex]
  obtain f0 r g evs es where g: "(if b then rekey_row c p f else Inr f) = Inr f0"
      "refresh_row cf pol c s p (first_match rules (fp_fingerprint p) (fp_rule_id p) (fp_resource_locator p)) now f0 =
         Inr (r, g, evs)"
      "is_db st' = (is_db st)\<lparr>findings := set_finding g (findings (is_db st)), events := es\<rparr>"
      "is_known st' = (if b then rekey_known p (f_id f) (is_known st) else is_known st)"
    using i ex by (auto simp: ingest_one_def Let_def bindE_eq_Inr)
  note n = existing_row_after [OF g(1,2)]
  have "set_finding g (findings (is_db st)) = replace_row f g (findings (is_db st))"
    using t(1) e(1) n(2) by (simp add: set_finding_replace table_ok_def)
  moreover have "name_of g = (s_source_id s, fp_fingerprint p)"
    using e(2,3) n(3,5) by (cases b) (auto simp: name_of_def)
  ultimately show ?thesis using that g e(1) n by simp
qed

lemma known_ok_insert:
  assumes "known_ok sid W known d" and "name_of g = (sid, fp)" and "(sid, fp) \<notin> name_of ` set (findings d)"
  shows "known_ok sid W (known(fp := Some (f_id g))) (e\<lparr>findings := findings d @ [g], events := es\<rparr>)"
  using assms by (auto simp: known_ok_def image_iff)

lemma known_ok_replace:
  assumes "known_ok sid W known d" and "f \<in> set (findings d)" and "name_of g = name_of f" and "f_id g = f_id f"
  shows "known_ok sid W known (d\<lparr>findings := replace_row f g (findings d), events := es\<rparr>)"
proof -
  have "(\<exists>h \<in> set (replace_row f g (findings d)). f_id h = i \<and> name_of h = n) \<longleftrightarrow>
      (\<exists>h \<in> set (findings d). f_id h = i \<and> name_of h = n)" for i n
    unfolding Bex_def in_replace_row [OF assms(2)] using assms(2-4) by metis
  then show ?thesis using assms(1) by (simp add: known_ok_def)
qed

lemma known_ok_rekey:
  assumes k: "known_ok sid W known d" and t: "table_ok d" and f: "f \<in> set (findings d)"
    and q: "fp_previous_fingerprint p = Some q" "name_of f = (sid, q)" "q \<noteq> fp_fingerprint p"
    and g: "name_of g = (sid, fp_fingerprint p)" "f_id g = f_id f"
    and fresh: "(sid, fp_fingerprint p) \<notin> name_of ` set (findings d)"
  shows "known_ok sid W (rekey_known p (f_id f) known)
    (d\<lparr>findings := replace_row f g (findings d), events := es\<rparr>)"
proof -
  let ?d = "d\<lparr>findings := replace_row f g (findings d), events := es\<rparr>"
  have only_f: "h = f" if "h \<in> set (findings d)" "name_of h = (sid, q)" for h
    using t that f q(2) distinct_key_unique [of name_of "findings d"] by (auto simp: table_ok_def)
  have "rekey_known p (f_id f) known fp = Some i \<longleftrightarrow>
      (\<exists>h \<in> set (findings ?d). f_id h = i \<and> name_of h = (sid, fp))" if "fp \<in> W" for fp i
  proof -
    have kf: "known fp = Some i \<longleftrightarrow> (\<exists>h \<in> set (findings d). f_id h = i \<and> name_of h = (sid, fp))"
      using k that by (simp add: known_ok_def)
    consider (new) "fp = fp_fingerprint p" | (old) "fp = q" "fp \<noteq> fp_fingerprint p"
      | (other) "fp \<noteq> q" "fp \<noteq> fp_fingerprint p" by blast
    then show ?thesis
    proof cases
      case new
      then show ?thesis
        using g fresh unfolding rekey_known_def Bex_def
        by (simp add: in_replace_row [OF f] image_iff) metis
    next
      case old
      then show ?thesis
        using g q only_f by (auto simp: rekey_known_def in_replace_row [OF f])
    next
      case other
      show ?thesis
      proof -
        have "g \<noteq> h \<and> f \<noteq> h" if "name_of h = (sid, fp)" for h
          using that other g(1) q(2) by auto
        then have "(\<exists>h \<in> set (findings d). f_id h = i \<and> name_of h = (sid, fp)) \<longleftrightarrow>
            (\<exists>h \<in> set (replace_row f g (findings d)). f_id h = i \<and> name_of h = (sid, fp))"
          unfolding Bex_def in_replace_row [OF f] by blast
        then show ?thesis using kf other q(1) by (simp add: rekey_known_def)
      qed
    qed
  qed
  then show ?thesis by (simp add: known_ok_def)
qed

text \<open>What one payload does to the table, in the terms the properties use.\<close>

definition carries_all :: "db \<Rightarrow> db \<Rightarrow> bool" where
  "carries_all d e \<longleftrightarrow> (\<forall>f \<in> set (findings d). \<exists>g \<in> set (findings e). carried f g)"

lemma carries_all_refl [simp]: "carries_all d d"
  unfolding carries_all_def using carried_refl by blast

lemma carries_all_trans: "carries_all d e \<Longrightarrow> carries_all e h \<Longrightarrow> carries_all d h"
  unfolding carries_all_def by (meson carried_trans)

lemma ingest_one_step:
  assumes ok: "batch_ok (s_source_id s) W st" and w: "asks_within W p"
    and i: "ingest_one cf pol rules c s now p st = Inr st'"
  shows "batch_ok (s_source_id s) W st'" and "carries_all (is_db st) (is_db st')"
    and "stored (s_source_id s) (s_id s) (fp_fingerprint p) (is_db st')"
    and "stored (s_source_id s) (s_id s) fp (is_db st) \<Longrightarrow> fp_previous_fingerprint p \<noteq> Some fp \<Longrightarrow>
      stored (s_source_id s) (s_id s) fp (is_db st')"
proof -
  have t: "table_ok (is_db st)" "known_ok (s_source_id s) W (is_known st) (is_db st)"
    using ok by (simp_all add: batch_ok_def)
  have a: "fp_fingerprint p \<in> W" "\<forall>q. fp_previous_fingerprint p = Some q \<longrightarrow> q \<in> W"
    using w by (simp_all add: asks_within_def)
  have "batch_ok (s_source_id s) W st' \<and> carries_all (is_db st) (is_db st') \<and>
      stored (s_source_id s) (s_id s) (fp_fingerprint p) (is_db st') \<and>
      (stored (s_source_id s) (s_id s) fp (is_db st) \<longrightarrow> fp_previous_fingerprint p \<noteq> Some fp \<longrightarrow>
       stored (s_source_id s) (s_id s) fp (is_db st'))"
  proof (cases "existing_for (is_known st) (is_db st) p")
    case None
    then obtain g es where g: "is_db st' = (snd (new_id (is_db st)))\<lparr>findings := findings (is_db st) @ [g], events := es\<rparr>"
        "is_known st' = (is_known st)(fp_fingerprint p := Some (f_id g))" "f_id g = fst (new_id (is_db st))"
        "name_of g = (s_source_id s, fp_fingerprint p)" "f_last_seen_scan_id g = s_id s" "f_state g = OPEN"
        "(s_source_id s, fp_fingerprint p) \<notin> name_of ` set (findings (is_db st))"
      using ingest_one_create [OF ok w _ i] by blast
    have "batch_ok (s_source_id s) W st'"
      using table_ok_insert [OF t(1) g(3)] known_ok_insert [OF t(2) g(4,7)] g(1,2,4,7)
      by (simp add: batch_ok_def)
    moreover have "carries_all (is_db st) (is_db st')" by (simp add: carries_all_def g(1)) (metis carried_refl)
    ultimately show ?thesis using g by (auto simp: stored_def)
  next
    case (Some bf)
    obtain b f where bf: "bf = (b, f)" by (cases bf)
    obtain g es where g: "is_db st' = (is_db st)\<lparr>findings := replace_row f g (findings (is_db st)), events := es\<rparr>"
        "is_known st' = (if b then rekey_known p (f_id f) (is_known st) else is_known st)"
        "f \<in> set (findings (is_db st))" "carried f g" "f_id g = f_id f"
        "name_of g = (s_source_id s, fp_fingerprint p)" "f_last_seen_scan_id g = s_id s" "f_state g \<noteq> RESOLVED"
      using ingest_one_existing [OF ok w Some [unfolded bf] i] by blast
    note e = existing_for_Some [OF t(2,1) a Some [unfolded bf]]
    have n: "name_of g = name_of f \<or> name_of g \<notin> name_of ` set (findings (is_db st))"
      using e(2,3) g(6) by (cases b) auto
    have "known_ok (s_source_id s) W (is_known st') (is_db st')"
    proof (cases b)
      case True
      then show ?thesis using e(3) known_ok_rekey [OF t(2,1) g(3)] g by fastforce
    next
      case False
      then show ?thesis using e(2) known_ok_replace [OF t(2) g(3)] g by simp
    qed
    then have "batch_ok (s_source_id s) W st'"
      using table_ok_replace [OF t(1) g(3,5) n] g(1) by (simp add: batch_ok_def)
    moreover have "carries_all (is_db st) (is_db st')"
      unfolding carries_all_def
    proof
      fix h assume h: "h \<in> set (findings (is_db st))"
      show "\<exists>g \<in> set (findings (is_db st')). carried h g"
      proof (cases "h = f")
        case True
        then show ?thesis using g(1,4) in_replace_row [OF g(3)] by auto
      next
        case False
        then show ?thesis using h g(1) in_replace_row [OF g(3)] by (intro bexI [of _ h]) auto
      qed
    qed
    moreover have "stored (s_source_id s) (s_id s) fp (is_db st')"
      if st: "stored (s_source_id s) (s_id s) fp (is_db st)" and "fp_previous_fingerprint p \<noteq> Some fp"
    proof -
      obtain h where h: "h \<in> set (findings (is_db st))" "name_of h = (s_source_id s, fp)"
          "f_last_seen_scan_id h = s_id s" "f_state h \<noteq> RESOLVED"
        using st by (auto simp: stored_def)
      show ?thesis
      proof (cases "h = f")
        case True
        then have "fp = fp_fingerprint p"
          using e(2,3) h(2) \<open>fp_previous_fingerprint p \<noteq> Some fp\<close> by (cases b) auto
        then show ?thesis using g by (auto simp: stored_def in_replace_row [OF g(3)])
      next
        case False
        then show ?thesis using h by (auto simp: stored_def g(1) in_replace_row [OF g(3)])
      qed
    qed
    ultimately show ?thesis using g by (auto simp: stored_def in_replace_row [OF g(3)])
  qed
  then show "batch_ok (s_source_id s) W st'" and "carries_all (is_db st) (is_db st')"
    and "stored (s_source_id s) (s_id s) (fp_fingerprint p) (is_db st')"
    and "stored (s_source_id s) (s_id s) fp (is_db st) \<Longrightarrow> fp_previous_fingerprint p \<noteq> Some fp \<Longrightarrow>
      stored (s_source_id s) (s_id s) fp (is_db st')"
    by blast+
qed

section \<open>The whole batch\<close>

lemma ingest_loop_effect:
  assumes "batch_ok (s_source_id s) W st" and "\<forall>p \<in> set ps. asks_within W p"
    and "ingest_loop cf pol rules c s now ps st = Inr st'"
  shows "batch_ok (s_source_id s) W st' \<and> carries_all (is_db st) (is_db st') \<and>
    (\<forall>fp. stored (s_source_id s) (s_id s) fp (is_db st) \<longrightarrow> Some fp \<notin> fp_previous_fingerprint ` set ps \<longrightarrow>
      stored (s_source_id s) (s_id s) fp (is_db st')) \<and>
    (\<forall>p \<in> set ps. Some (fp_fingerprint p) \<notin> fp_previous_fingerprint ` set ps \<longrightarrow>
      stored (s_source_id s) (s_id s) (fp_fingerprint p) (is_db st'))"
  using assms
proof (induction ps arbitrary: st)
  case Nil
  then show ?case by simp
next
  case (Cons p ps)
  obtain st1 where 1: "ingest_one cf pol rules c s now p st = Inr st1"
      "ingest_loop cf pol rules c s now ps st1 = Inr st'"
    using Cons.prems(3) by (auto simp: bindE_eq_Inr)
  have w: "asks_within W p" "\<forall>p \<in> set ps. asks_within W p" using Cons.prems(2) by auto
  note s = ingest_one_step [OF Cons.prems(1) w(1) 1(1)]
  note r = Cons.IH [OF s(1) w(2) 1(2)]
  have "carries_all (is_db st) (is_db st')" using carries_all_trans [OF s(2)] r by blast
  then show ?case using r s(3,4) by auto
qed

lemma load_findings_ok:
  assumes "table_ok d"
  shows "known_ok sid (set (wanted_fingerprints ps)) (load_findings d sid ps) d"
proof -
  have "map_option f_id (List.find (\<lambda>f. f_source_id f = sid \<and> f_fingerprint f = fp) (findings d)) = Some i \<longleftrightarrow>
      (\<exists>f \<in> set (findings d). f_id f = i \<and> name_of f = (sid, fp))" for fp i
  proof (cases "List.find (\<lambda>f. f_source_id f = sid \<and> f_fingerprint f = fp) (findings d)")
    case None
    then have "\<not> (f_source_id f = sid \<and> f_fingerprint f = fp)" if "f \<in> set (findings d)" for f
      using that unfolding find_None_iff by blast
    then show ?thesis unfolding None by (auto simp: name_of_def)
  next
    case (Some f)
    then have f: "f \<in> set (findings d)" "name_of f = (sid, fp)" by (auto simp: find_Some_iff name_of_def)
    then have "g = f" if "g \<in> set (findings d)" "name_of g = (sid, fp)" for g
      using distinct_key_unique [of name_of "findings d" g f] assms that f by (simp add: table_ok_def)
    then show ?thesis unfolding Some using f by (metis option.simps(9) option.inject)
  qed
  then show ?thesis by (simp add: known_ok_def load_findings_def)
qed

lemma ingest_findings_loop:
  assumes "table_ok d" and "ingest_findings cf c threshold s payloads now d = Inr (out, d')"
  obtains st' where "ingest_loop cf (load_policy cf d (s_source_id s)) (applicable_suppressions d (s_source_id s) now)
      c s now (filter (above_threshold threshold) payloads)
      \<lparr>is_db = d, is_known = load_findings d (s_source_id s) (filter (above_threshold threshold) payloads),
       is_out = no_outcome\<lparr>io_below_threshold := length payloads - length (filter (above_threshold threshold) payloads)\<rparr>\<rparr> = Inr st'"
    and "d' = is_db st'" and "out = is_out st'"
  using assms(2) by (auto simp: ingest_findings_def Let_def bindE_eq_Inr)

lemma ingest_findings_effect:
  assumes "table_ok d" and "ingest_findings cf c threshold s payloads now d = Inr (out, d')"
  shows "table_ok d'" and "carries_all d d'"
    and "p \<in> set payloads \<Longrightarrow> above_threshold threshold p \<Longrightarrow>
      Some (fp_fingerprint p) \<notin> fp_previous_fingerprint ` set payloads \<Longrightarrow>
      stored (s_source_id s) (s_id s) (fp_fingerprint p) d'"
proof -
  let ?ps = "filter (above_threshold threshold) payloads"
  let ?W = "set (wanted_fingerprints ?ps)"
  obtain st' where st': "ingest_loop cf (load_policy cf d (s_source_id s))
      (applicable_suppressions d (s_source_id s) now) c s now ?ps
      \<lparr>is_db = d, is_known = load_findings d (s_source_id s) ?ps,
       is_out = no_outcome\<lparr>io_below_threshold := length payloads - length ?ps\<rparr>\<rparr> = Inr st'" "d' = is_db st'"
    using ingest_findings_loop [OF assms] by metis
  have ok: "batch_ok (s_source_id s) ?W \<lparr>is_db = d, is_known = load_findings d (s_source_id s) ?ps,
       is_out = no_outcome\<lparr>io_below_threshold := length payloads - length ?ps\<rparr>\<rparr>"
    using assms(1) load_findings_ok by (simp add: batch_ok_def)
  have w: "\<forall>p \<in> set ?ps. asks_within ?W p"
    by (force simp: asks_within_def wanted_fingerprints_def)
  note r = ingest_loop_effect [OF ok w st'(1)]
  show "table_ok d'" "carries_all d d'" using r by (simp_all add: batch_ok_def st'(2))
  show "stored (s_source_id s) (s_id s) (fp_fingerprint p) d'"
    if "p \<in> set payloads" "above_threshold threshold p"
      "Some (fp_fingerprint p) \<notin> fp_previous_fingerprint ` set payloads"
  proof -
    have "Some (fp_fingerprint p) \<notin> fp_previous_fingerprint ` set ?ps" using that(3) by auto
    then show ?thesis using r that(1,2) st'(2) by simp
  qed
qed

section \<open>Properties\<close>

text \<open>
  C15.  A scan never overrules a person.  Whatever an engine reports, every stored finding is
  still there after the batch, as the same finding of the same source, and its triage state,
  resolution, assignee, notes and owner pin are as they were; the one exception is that a
  resolved finding that is seen again is open.  So a false positive and an accepted risk survive
  every re-scan, and a pinned or established owner is never re-routed.  This also holds for a
  finding that is re-keyed to a new fingerprint during a pepper rotation.
\<close>

theorem ingest_keeps_analyst_decisions:
  assumes "table_ok d" and "ingest_findings cf c threshold s payloads now d = Inr (out, d')"
    and "f \<in> set (findings d)"
  shows "\<exists>g \<in> set (findings d'). f_id g = f_id f \<and> f_source_id g = f_source_id f \<and>
    f_first_seen_scan_id g = f_first_seen_scan_id f \<and>
    f_assignee_id g = f_assignee_id f \<and> f_notes g = f_notes f \<and> f_owner_pinned g = f_owner_pinned f \<and>
    (has_owner f \<longrightarrow> f_owner_group_id g = f_owner_group_id f) \<and>
    (f_state g = f_state f \<and> f_resolution g = f_resolution f \<or>
     f_state f = RESOLVED \<and> f_state g = OPEN \<and> f_resolution g = None)"
proof -
  obtain g where g: "g \<in> set (findings d')" "carried f g"
    using ingest_findings_effect(2) [OF assms(1,2)] assms(3) by (auto simp: carries_all_def)
  then show ?thesis by (intro bexI [OF _ g(1)]) (auto simp: carried_def columns_defs)
qed

text \<open>
  C16.  Ingest loses nothing and keeps identities unique.  After a batch is accepted, every
  finding that was reported with enough confidence, or unscored, is stored under its fingerprint
  for the scan's source, is marked as last seen by this scan and is not resolved; the table's
  unique index on source and fingerprint is never violated, although rows are inserted and
  re-keyed while the batch runs and the same fingerprint may be reported twice.  The hypothesis
  on the previous fingerprints says that no two secrets share an identity across two peppers.
\<close>

theorem ingest_stores_every_reported_finding:
  assumes "table_ok d" and "ingest_findings cf c threshold s payloads now d = Inr (out, d')"
    and "p \<in> set payloads" and "above_threshold threshold p"
    and "Some (fp_fingerprint p) \<notin> fp_previous_fingerprint ` set payloads"
  shows "table_ok d' \<and>
    (\<exists>g \<in> set (findings d'). f_source_id g = s_source_id s \<and> f_fingerprint g = fp_fingerprint p \<and>
       f_last_seen_scan_id g = s_id s \<and> f_state g \<noteq> RESOLVED)"
  using ingest_findings_effect(1,3) [OF assms(1,2)] assms(3-5) by (auto simp: stored_def name_of_def)

section \<open>Witnesses\<close>

definition demo_payload :: finding_payload where
  "demo_payload =
     \<lparr>fp_fingerprint = cps ''fp'', fp_rule_id = cps ''aws'', fp_rulepack_version = cps ''2'',
      fp_resource_locator = [], fp_redacted_snippet = cps ''y'', fp_secret_hash = cps ''h'',
      fp_entropy = None, fp_confidence = None, fp_severity = HIGH, fp_validation = None,
      fp_previous_fingerprint = None, fp_previous_secret_hash = None\<rparr>"

definition demo_triaged :: db where
  "demo_triaged = empty_db\<lparr>findings := [demo_finding\<lparr>f_state := FALSE_POSITIVE\<rparr>], drawn := 2\<rparr>"

lemma demo_triaged_ok: "table_ok demo_triaged"
  by (auto simp: table_ok_def demo_triaged_def demo_finding_def ids_drawn_def)

lemma demo_ingest: "\<exists>out d'. ingest_findings id None 0 demo_scan [demo_payload] 7 demo_triaged = Inr (out, d')"
proof -
  have "\<not> isl (ingest_findings id None 0 demo_scan [demo_payload] 7 demo_triaged)" by code_simp
  then show ?thesis by (cases "ingest_findings id None 0 demo_scan [demo_payload] 7 demo_triaged") auto
qed

theorem ingest_keeps_analyst_decisions_witness:
  "\<exists>out d'. ingest_findings id None 0 demo_scan [demo_payload] 7 demo_triaged = Inr (out, d') \<and>
     (\<exists>g \<in> set (findings d'). f_id g = 1 \<and> f_state g = FALSE_POSITIVE)"
proof -
  obtain out d' where d': "ingest_findings id None 0 demo_scan [demo_payload] 7 demo_triaged = Inr (out, d')"
    using demo_ingest by blast
  have "demo_finding\<lparr>f_state := FALSE_POSITIVE\<rparr> \<in> set (findings demo_triaged)"
    by (simp add: demo_triaged_def)
  from ingest_keeps_analyst_decisions [OF demo_triaged_ok d' this] d' show ?thesis
    by (fastforce simp: demo_finding_def)
qed

theorem ingest_stores_every_reported_finding_witness:
  "\<exists>out d'. ingest_findings id None 0 demo_scan [demo_payload] 7 demo_triaged = Inr (out, d') \<and> table_ok d' \<and>
     (\<exists>g \<in> set (findings d'). f_fingerprint g = cps ''fp'' \<and> f_last_seen_scan_id g = 9)"
proof -
  obtain out d' where d': "ingest_findings id None 0 demo_scan [demo_payload] 7 demo_triaged = Inr (out, d')"
    using demo_ingest by blast
  have "above_threshold 0 demo_payload" "Some (fp_fingerprint demo_payload) \<notin> fp_previous_fingerprint ` set [demo_payload]"
    by (simp_all add: demo_payload_def above_threshold_def)
  from ingest_stores_every_reported_finding [OF demo_triaged_ok d' _ this] d' show ?thesis
    by (auto simp: demo_payload_def demo_scan_def)
qed

end
