(* ===== verification/Triage.thy ===== *)
theory Triage
  imports Ingest
begin

text \<open>
  The triage state machine, \<^verbatim>\<open>apps/api/src/iceberg_api/findings/triage.py\<close>, and the writing half of
  the route that calls it (\<open>update_finding\<close> of \<^verbatim>\<open>findings/routes.py\<close>).  The theory also defines the
  audit trail of a finding's state as a chain: every state event has to start where the one
  before it ended.  That chain is what the properties about the trail are stated with.

  The user table is not modelled; \<open>active_user\<close> is the lookup of an enabled account.
\<close>

section \<open>Changes\<close>

text \<open>
  \<open>FindingUpdate\<close>: a field that may be null and may be omitted is an option of an option, the
  outer one telling whether it is in \<open>model_fields_set\<close>.
\<close>

record finding_update =
  fu_state :: "finding_state option"
  fu_assignee_id :: "nat option option"
  fu_owner_group_id :: "nat option option"
  fu_notes :: "pystr option option"
  fu_comment :: "pystr option"

datatype triage_error = IllegalTransition finding_state finding_state | EvidenceRequired

fun LEGAL_TRANSITIONS :: "finding_state \<Rightarrow> finding_state list" where
  "LEGAL_TRANSITIONS OPEN = [FALSE_POSITIVE, ACCEPTED_RISK, RESOLVED]"
| "LEGAL_TRANSITIONS FALSE_POSITIVE = [OPEN]"
| "LEGAL_TRANSITIONS ACCEPTED_RISK = [OPEN]"
| "LEGAL_TRANSITIONS RESOLVED = [OPEN]"

definition actor_event ::
  "finding \<Rightarrow> nat \<Rightarrow> finding_event_kind \<Rightarrow> event_value option \<Rightarrow> event_value option \<Rightarrow> pystr option \<Rightarrow> finding_event" where
  "actor_event f actor k from to comment =
     \<lparr>ev_finding_id = f_id f, ev_actor_id = Some actor, ev_scan_id = None, ev_kind = k,
      ev_from_value = from, ev_to_value = to, ev_comment = map_option EC_Text comment\<rparr>"

definition transition :: "finding_state \<Rightarrow> nat \<Rightarrow> pystr option \<Rightarrow> finding \<Rightarrow> finding \<times> finding_event" where
  "transition target actor comment f =
     (f\<lparr>f_state := target, f_resolution := (if target = RESOLVED then Some RES_MANUAL else None)\<rparr>,
      actor_event f actor (if target = OPEN then REOPENED else STATE_CHANGE)
        (Some (EV_State (f_state f))) (Some (EV_State target)) comment)"

definition assign :: "nat option \<Rightarrow> nat \<Rightarrow> pystr option \<Rightarrow> finding \<Rightarrow> finding \<times> finding_event" where
  "assign who actor comment f =
     (f\<lparr>f_assignee_id := who\<rparr>,
      actor_event f actor ASSIGN (map_option EV_Id (f_assignee_id f)) (map_option EV_Id who) comment)"

definition own :: "nat option \<Rightarrow> nat \<Rightarrow> pystr option \<Rightarrow> finding \<Rightarrow> finding \<times> finding_event list" where
  "own grp actor comment f =
     (if f_owner_group_id f = grp \<and> f_owner_pinned f then (f, [])
      else (f\<lparr>f_owner_group_id := grp, f_owner_pinned := True\<rparr>,
            [actor_event f actor OWNER (map_option EV_Id (f_owner_group_id f)) (map_option EV_Id grp) comment]))"

definition annotate :: "pystr option \<Rightarrow> nat \<Rightarrow> finding \<Rightarrow> finding \<times> finding_event" where
  "annotate notes actor f = (f\<lparr>f_notes := notes\<rparr>, actor_event f actor COMMENT None None notes)"

definition moving_to :: "finding_update \<Rightarrow> finding \<Rightarrow> finding_state option" where
  "moving_to c f = (if fu_state c \<noteq> Some (f_state f) then fu_state c else None)"

text \<open>The four parts of \<open>apply\<close> after its checks, each on the row the one before it left.\<close>

definition apply_state :: "finding_update \<Rightarrow> nat \<Rightarrow> finding \<Rightarrow> finding \<times> finding_event list" where
  "apply_state c actor f =
     (case moving_to c f of None \<Rightarrow> (f, [])
      | Some st \<Rightarrow> let (g, e) = transition st actor (fu_comment c) f in (g, [e]))"

definition apply_assignee :: "finding_update \<Rightarrow> nat \<Rightarrow> finding \<Rightarrow> finding \<times> finding_event list" where
  "apply_assignee c actor f =
     (case fu_assignee_id c of None \<Rightarrow> (f, [])
      | Some who \<Rightarrow> if who \<noteq> f_assignee_id f
                   then let (g, e) = assign who actor (fu_comment c) f in (g, [e]) else (f, []))"

definition apply_owner :: "finding_update \<Rightarrow> nat \<Rightarrow> finding \<Rightarrow> finding \<times> finding_event list" where
  "apply_owner c actor f =
     (case fu_owner_group_id c of None \<Rightarrow> (f, []) | Some grp \<Rightarrow> own grp actor (fu_comment c) f)"

definition apply_notes :: "finding_update \<Rightarrow> nat \<Rightarrow> finding \<Rightarrow> finding \<times> finding_event list" where
  "apply_notes c actor f =
     (case fu_notes c of None \<Rightarrow> (f, [])
      | Some n \<Rightarrow> if n \<noteq> f_notes f then let (g, e) = annotate n actor f in (g, [e]) else (f, []))"

definition triage_apply ::
  "finding_update \<Rightarrow> nat \<Rightarrow> (finding \<Rightarrow> bool) option \<Rightarrow> finding \<Rightarrow> triage_error + (finding \<times> finding_event list)" where
  "triage_apply c actor evidence_check f =
     (if (case moving_to c f of None \<Rightarrow> False | Some st \<Rightarrow> st \<notin> set (LEGAL_TRANSITIONS (f_state f)))
      then Inl (IllegalTransition (f_state f) (the (moving_to c f)))
      else if moving_to c f = Some RESOLVED \<and>
              (case evidence_check of None \<Rightarrow> False | Some ok \<Rightarrow> \<not> ok f)
      then Inl EvidenceRequired
      else
        let (f1, e1) = apply_state c actor f;
            (f2, e2) = apply_assignee c actor f1;
            (f3, e3) = apply_owner c actor f2;
            (f4, e4) = apply_notes c actor f3
        in Inr (f4, e1 @ e2 @ e3 @ e4))"

section \<open>The route\<close>

datatype update_error = FindingNotFound | InactiveAssignee | InactiveGroup | Refused triage_error

definition update_finding ::
  "(nat \<Rightarrow> bool) \<Rightarrow> (finding \<Rightarrow> bool) \<Rightarrow> nat \<Rightarrow> finding_update \<Rightarrow> nat \<Rightarrow> db \<Rightarrow> update_error + db" where
  "update_finding active_user evidence i c analyst d =
     (case get_row f_id i (findings d) of
        None \<Rightarrow> Inl FindingNotFound
      | Some f \<Rightarrow>
          if (case fu_assignee_id c of Some (Some u) \<Rightarrow> \<not> active_user u | _ \<Rightarrow> False) then Inl InactiveAssignee
          else if (case fu_owner_group_id c of
                     Some (Some g) \<Rightarrow> (case get_row og_id g (owner_groups d) of
                                        None \<Rightarrow> True | Some grp \<Rightarrow> og_disabled grp)
                   | _ \<Rightarrow> False) then Inl InactiveGroup
          else
            case triage_apply c analyst (Some evidence) f of
              Inl e \<Rightarrow> Inl (Refused e)
            | Inr fe \<Rightarrow> Inr (save_finding fe d))"

section \<open>The audit trail as a chain\<close>

definition state_move :: "finding_event \<Rightarrow> (finding_state \<times> finding_state) option" where
  "state_move e =
     (if ev_kind e = STATE_CHANGE \<or> ev_kind e = REOPENED
      then (case (ev_from_value e, ev_to_value e) of
              (Some (EV_State a), Some (EV_State b)) \<Rightarrow> Some (a, b) | _ \<Rightarrow> None)
      else None)"

text \<open>
  Reading the trail of one finding from its creation, which is always \<open>open\<close>: the state it ends
  in, or nothing if some event does not start where the finding was.
\<close>

definition trail_step :: "nat \<Rightarrow> finding_state option \<Rightarrow> finding_event \<Rightarrow> finding_state option" where
  "trail_step i st e =
     (if ev_finding_id e = i
      then (case state_move e of
              None \<Rightarrow> st
            | Some (a, b) \<Rightarrow> if st = Some a then Some b else None)
      else st)"

definition trail_state :: "nat \<Rightarrow> finding_event list \<Rightarrow> finding_state option" where
  "trail_state i es = foldl (trail_step i) (Some OPEN) es"

definition trail_ok :: "db \<Rightarrow> bool" where
  "trail_ok d \<longleftrightarrow>
     (\<forall>f \<in> set (findings d). trail_state (f_id f) (events d) = Some (f_state f)) \<and>
     (\<forall>e \<in> set (events d). ev_finding_id e \<in> ids_drawn d)"

lemma trail_state_append: "trail_state i (es @ fs) = foldl (trail_step i) (trail_state i es) fs"
  by (simp add: trail_state_def)

lemma trail_other: "\<forall>e \<in> set fs. ev_finding_id e \<noteq> i \<Longrightarrow> foldl (trail_step i) st fs = st"
  by (induction fs arbitrary: st) (auto simp: trail_step_def)

lemma trail_unmoved: "\<forall>e \<in> set fs. state_move e = None \<Longrightarrow> foldl (trail_step i) st fs = st"
  by (induction fs arbitrary: st) (auto simp: trail_step_def)

text \<open>What an operation on one finding promises about its events.\<close>

definition explains :: "finding \<Rightarrow> finding \<Rightarrow> finding_event list \<Rightarrow> bool" where
  "explains f g es \<longleftrightarrow>
     (\<forall>e \<in> set es. ev_finding_id e = f_id f) \<and>
     foldl (trail_step (f_id f)) (Some (f_state f)) es = Some (f_state g)"

lemma explains_silent:
  "\<forall>e \<in> set es. ev_finding_id e = f_id f \<and> state_move e = None \<Longrightarrow> f_state g = f_state f \<Longrightarrow> explains f g es"
  by (simp add: explains_def trail_unmoved)

lemma explains_append:
  "explains f g es \<Longrightarrow> explains g h fs \<Longrightarrow> f_id g = f_id f \<Longrightarrow> explains f h (es @ fs)"
  by (auto simp: explains_def)

lemma explains_refl [simp]: "explains f f []"
  by (simp add: explains_def)

lemma state_move_actor_event [simp]:
  "state_move (actor_event f a k x y c) = (if k = STATE_CHANGE \<or> k = REOPENED
     then (case (x, y) of (Some (EV_State p), Some (EV_State q)) \<Rightarrow> Some (p, q) | _ \<Rightarrow> None) else None)"
  "ev_finding_id (actor_event f a k x y c) = f_id f"
  by (simp_all add: state_move_def actor_event_def)

lemma explains_apply_state: "explains f (fst (apply_state c a f)) (snd (apply_state c a f))"
  by (auto simp: apply_state_def transition_def explains_def trail_step_def Let_def split: option.splits)

lemma explains_apply_rest:
  "explains f (fst (apply_assignee c a f)) (snd (apply_assignee c a f))"
  "explains f (fst (apply_owner c a f)) (snd (apply_owner c a f))"
  "explains f (fst (apply_notes c a f)) (snd (apply_notes c a f))"
  by (auto simp: apply_assignee_def assign_def apply_owner_def own_def apply_notes_def annotate_def
      Let_def intro!: explains_silent split: option.splits)

lemma apply_parts_id [simp]:
  "f_id (fst (apply_state c a f)) = f_id f" "f_id (fst (apply_assignee c a f)) = f_id f"
  "f_id (fst (apply_owner c a f)) = f_id f" "f_id (fst (apply_notes c a f)) = f_id f"
  by (auto simp: apply_state_def transition_def apply_assignee_def assign_def apply_owner_def own_def
      apply_notes_def annotate_def Let_def split: option.splits)

lemma apply_parts_state [simp]:
  "f_state (fst (apply_assignee c a f)) = f_state f" "f_resolution (fst (apply_assignee c a f)) = f_resolution f"
  "f_state (fst (apply_owner c a f)) = f_state f" "f_resolution (fst (apply_owner c a f)) = f_resolution f"
  "f_state (fst (apply_notes c a f)) = f_state f" "f_resolution (fst (apply_notes c a f)) = f_resolution f"
  by (auto simp: apply_assignee_def assign_def apply_owner_def own_def
      apply_notes_def annotate_def Let_def split: option.splits)

lemma apply_parts_name [simp]:
  "name_of (fst (apply_state c a f)) = name_of f" "name_of (fst (apply_assignee c a f)) = name_of f"
  "name_of (fst (apply_owner c a f)) = name_of f" "name_of (fst (apply_notes c a f)) = name_of f"
  by (auto simp: name_of_def apply_state_def transition_def apply_assignee_def assign_def apply_owner_def own_def
      apply_notes_def annotate_def Let_def split: option.splits)

lemma triage_apply_Inr:
  assumes "triage_apply c a ev f = Inr (g, es)"
  obtains f1 f2 f3 where "f1 = fst (apply_state c a f)" "f2 = fst (apply_assignee c a f1)"
    "f3 = fst (apply_owner c a f2)" "g = fst (apply_notes c a f3)"
    "es = snd (apply_state c a f) @ snd (apply_assignee c a f1) @ snd (apply_owner c a f2) @ snd (apply_notes c a f3)"
    "\<And>st. moving_to c f = Some st \<Longrightarrow> st \<in> set (LEGAL_TRANSITIONS (f_state f))"
  using assms by (auto simp: triage_apply_def Let_def split: if_splits option.splits prod.splits)

lemma triage_explains:
  assumes "triage_apply c a ev f = Inr (g, es)"
  shows "explains f g es" and "f_id g = f_id f" and "name_of g = name_of f"
proof -
  obtain f1 f2 f3 where p: "f1 = fst (apply_state c a f)" "f2 = fst (apply_assignee c a f1)"
    "f3 = fst (apply_owner c a f2)" "g = fst (apply_notes c a f3)"
    "es = snd (apply_state c a f) @ snd (apply_assignee c a f1) @ snd (apply_owner c a f2) @ snd (apply_notes c a f3)"
    using triage_apply_Inr [OF assms] by metis
  have h: "explains f f1 (snd (apply_state c a f))" "explains f1 f2 (snd (apply_assignee c a f1))"
    "explains f2 f3 (snd (apply_owner c a f2))" "explains f3 g (snd (apply_notes c a f3))"
    by (simp_all add: p explains_apply_state explains_apply_rest)
  have i: "f_id f1 = f_id f" "f_id f2 = f_id f1" "f_id f3 = f_id f2" "f_id g = f_id f3"
    by (simp_all add: p(1-4))
  show "explains f g es" unfolding p(5)
    using explains_append [OF h(1) explains_append [OF h(2) explains_append [OF h(3,4) i(3)] i(2)] i(1)] .
  show "f_id g = f_id f" by (simp add: i)
  show "name_of g = name_of f" by (simp add: p(1-4))
qed

lemma update_finding_Inr:
  assumes "update_finding act evi i c a d = Inr d'" and "distinct (map f_id (findings d))"
  obtains f g es where "f \<in> set (findings d)" "f_id f = i" "triage_apply c a (Some evi) f = Inr (g, es)"
    "d' = d\<lparr>findings := replace_row f g (findings d), events := events d @ es\<rparr>"
proof -
  obtain f g es where f: "get_row f_id i (findings d) = Some f" "triage_apply c a (Some evi) f = Inr (g, es)"
      "d' = save_finding (g, es) d"
    using assms(1) by (auto simp: update_finding_def split: option.splits if_splits sum.splits)
  then have m: "f \<in> set (findings d)" "f_id f = i" using get_row_Some by fast+
  have "save_finding (g, es) d = d\<lparr>findings := set_finding g (findings d), events := events d @ es\<rparr>"
    by (simp add: save_finding_def set_finding_def)
  also have "set_finding g (findings d) = replace_row f g (findings d)"
    using m assms(2) triage_explains(2) [OF f(2)] by (simp add: set_finding_replace)
  finally show ?thesis using that f m by simp
qed

lemma update_finding_table_ok:
  assumes "table_ok d" and "update_finding act evi i c a d = Inr d'"
  shows "table_ok d'"
proof -
  have dist: "distinct (map f_id (findings d))" using assms(1) by (simp add: table_ok_def)
  obtain f g es where "f \<in> set (findings d)" "triage_apply c a (Some evi) f = Inr (g, es)"
    "d' = d\<lparr>findings := replace_row f g (findings d), events := events d @ es\<rparr>"
    using update_finding_Inr [OF assms(2) dist] by metis
  then show ?thesis using table_ok_replace [OF assms(1)] triage_explains by simp
qed

section \<open>Properties\<close>

lemma apply_parts_rest [simp]:
  "f_due_at (fst (apply_state c a f)) = f_due_at f" "f_due_at (fst (apply_assignee c a f)) = f_due_at f"
  "f_due_at (fst (apply_owner c a f)) = f_due_at f" "f_due_at (fst (apply_notes c a f)) = f_due_at f"
  "f_assignee_id (fst (apply_state c a f)) = f_assignee_id f" "f_assignee_id (fst (apply_owner c a f)) = f_assignee_id f"
  "f_assignee_id (fst (apply_notes c a f)) = f_assignee_id f"
  "f_owner_group_id (fst (apply_state c a f)) = f_owner_group_id f"
  "f_owner_group_id (fst (apply_assignee c a f)) = f_owner_group_id f"
  "f_owner_group_id (fst (apply_notes c a f)) = f_owner_group_id f"
  "f_owner_pinned (fst (apply_state c a f)) = f_owner_pinned f"
  "f_owner_pinned (fst (apply_assignee c a f)) = f_owner_pinned f"
  "f_owner_pinned (fst (apply_notes c a f)) = f_owner_pinned f"
  "f_notes (fst (apply_state c a f)) = f_notes f" "f_notes (fst (apply_assignee c a f)) = f_notes f"
  "f_notes (fst (apply_owner c a f)) = f_notes f"
  by (auto simp: apply_state_def transition_def apply_assignee_def assign_def apply_owner_def own_def
      apply_notes_def annotate_def Let_def split: option.splits)

text \<open>What each part leaves in its own columns, and that it writes an event exactly when they change.\<close>

lemma apply_state_own:
  "f_state (fst (apply_state c a f)) = (case fu_state c of None \<Rightarrow> f_state f | Some st \<Rightarrow> st)"
  "length (snd (apply_state c a f)) = of_bool (f_state (fst (apply_state c a f)) \<noteq> f_state f)"
  by (auto simp: apply_state_def transition_def moving_to_def split: option.splits)

lemma apply_assignee_own:
  "f_assignee_id (fst (apply_assignee c a f)) = (case fu_assignee_id c of None \<Rightarrow> f_assignee_id f | Some x \<Rightarrow> x)"
  "length (snd (apply_assignee c a f)) = of_bool (f_assignee_id (fst (apply_assignee c a f)) \<noteq> f_assignee_id f)"
  by (auto simp: apply_assignee_def assign_def split: option.splits)

lemma apply_owner_own:
  "(f_owner_group_id (fst (apply_owner c a f)), f_owner_pinned (fst (apply_owner c a f))) =
     (case fu_owner_group_id c of None \<Rightarrow> (f_owner_group_id f, f_owner_pinned f) | Some x \<Rightarrow> (x, True))"
  "length (snd (apply_owner c a f)) =
     of_bool ((f_owner_group_id (fst (apply_owner c a f)), f_owner_pinned (fst (apply_owner c a f))) \<noteq>
              (f_owner_group_id f, f_owner_pinned f))"
  by (auto simp: apply_owner_def own_def split: option.splits)

lemma apply_notes_own:
  "f_notes (fst (apply_notes c a f)) = (case fu_notes c of None \<Rightarrow> f_notes f | Some x \<Rightarrow> x)"
  "length (snd (apply_notes c a f)) = of_bool (f_notes (fst (apply_notes c a f)) \<noteq> f_notes f)"
  by (auto simp: apply_notes_def annotate_def split: option.splits)

lemmas apply_parts_own = apply_state_own apply_assignee_own apply_owner_own apply_notes_own

lemma apply_parts_actor:
  "e \<in> set (snd (apply_state c a f)) \<Longrightarrow> ev_actor_id e = Some a"
  "e \<in> set (snd (apply_assignee c a f)) \<Longrightarrow> ev_actor_id e = Some a"
  "e \<in> set (snd (apply_owner c a f)) \<Longrightarrow> ev_actor_id e = Some a"
  "e \<in> set (snd (apply_notes c a f)) \<Longrightarrow> ev_actor_id e = Some a"
  by (auto simp: apply_state_def transition_def apply_assignee_def assign_def apply_owner_def own_def
      apply_notes_def annotate_def actor_event_def Let_def split: option.splits if_splits)

lemma triage_apply_Inr_iff:
  "(\<exists>r. triage_apply c a ev f = Inr r) \<longleftrightarrow>
     (fu_state c = None \<or> fu_state c = Some (f_state f) \<or>
      (\<exists>st. fu_state c = Some st \<and> st \<in> set (LEGAL_TRANSITIONS (f_state f)) \<and>
            (st = RESOLVED \<and> ev \<noteq> None \<longrightarrow> the ev f)))"
  by (cases "fu_state c"; cases ev)
     (auto simp: triage_apply_def moving_to_def Let_def split: if_splits option.splits prod.splits)

lemma triage_apply_idle:
  assumes "fu_state c = None \<or> fu_state c = Some (f_state f)"
    and "fu_assignee_id c = None \<or> fu_assignee_id c = Some (f_assignee_id f)"
    and "fu_owner_group_id c = None \<or> fu_owner_group_id c = Some (f_owner_group_id f) \<and> f_owner_pinned f"
    and "fu_notes c = None \<or> fu_notes c = Some (f_notes f)"
  shows "triage_apply c a ev f = Inr (f, [])"
proof -
  have "moving_to c f = None" using assms(1) by (auto simp: moving_to_def)
  moreover have "apply_assignee c a f = (f, [])" using assms(2) by (auto simp: apply_assignee_def)
  moreover have "apply_owner c a f = (f, [])" using assms(3) by (auto simp: apply_owner_def own_def)
  moreover have "apply_notes c a f = (f, [])" using assms(4) by (auto simp: apply_notes_def)
  ultimately show ?thesis by (simp add: triage_apply_def apply_state_def)
qed

definition changed_columns :: "finding \<Rightarrow> finding \<Rightarrow> nat" where
  "changed_columns f g =
     of_bool (f_state g \<noteq> f_state f) + of_bool (f_assignee_id g \<noteq> f_assignee_id f) +
     of_bool ((f_owner_group_id g, f_owner_pinned g) \<noteq> (f_owner_group_id f, f_owner_pinned f)) +
     of_bool (f_notes g \<noteq> f_notes f)"

lemma triage_apply_effect:
  assumes "triage_apply c a ev f = Inr (g, es)"
  shows "f_state g = (case fu_state c of None \<Rightarrow> f_state f | Some st \<Rightarrow> st)"
    and "f_assignee_id g = (case fu_assignee_id c of None \<Rightarrow> f_assignee_id f | Some x \<Rightarrow> x)"
    and "(f_owner_group_id g, f_owner_pinned g) =
      (case fu_owner_group_id c of None \<Rightarrow> (f_owner_group_id f, f_owner_pinned f) | Some x \<Rightarrow> (x, True))"
    and "f_notes g = (case fu_notes c of None \<Rightarrow> f_notes f | Some x \<Rightarrow> x)"
    and "f_due_at g = f_due_at f"
    and "f_resolution g = (if f_state g = f_state f then f_resolution f
                           else if f_state g = RESOLVED then Some RES_MANUAL else None)"
    and "length es = changed_columns f g"
    and "\<forall>e \<in> set es. ev_actor_id e = Some a"
proof -
  obtain f1 f2 f3 where p: "f1 = fst (apply_state c a f)" "f2 = fst (apply_assignee c a f1)"
    "f3 = fst (apply_owner c a f2)" "g = fst (apply_notes c a f3)"
    "es = snd (apply_state c a f) @ snd (apply_assignee c a f1) @ snd (apply_owner c a f2) @ snd (apply_notes c a f3)"
    using triage_apply_Inr [OF assms] by metis
  show "f_state g = (case fu_state c of None \<Rightarrow> f_state f | Some st \<Rightarrow> st)"
    by (simp add: p(1-4) apply_parts_own)
  show "f_assignee_id g = (case fu_assignee_id c of None \<Rightarrow> f_assignee_id f | Some x \<Rightarrow> x)"
    by (simp add: p(1-4) apply_parts_own cong: option.case_cong)
  show "(f_owner_group_id g, f_owner_pinned g) =
      (case fu_owner_group_id c of None \<Rightarrow> (f_owner_group_id f, f_owner_pinned f) | Some x \<Rightarrow> (x, True))"
    using apply_owner_own(1) [of c a f2] by (simp add: p(1-4) cong: option.case_cong)
  show "f_notes g = (case fu_notes c of None \<Rightarrow> f_notes f | Some x \<Rightarrow> x)"
    by (simp add: p(1-4) apply_parts_own cong: option.case_cong)
  show "f_due_at g = f_due_at f" by (simp add: p(1-4))
  have "f_resolution f1 = (if f_state f1 = f_state f then f_resolution f
                           else if f_state f1 = RESOLVED then Some RES_MANUAL else None)"
    by (auto simp: p(1) apply_state_def transition_def moving_to_def split: option.splits)
  then show "f_resolution g = (if f_state g = f_state f then f_resolution f
                           else if f_state g = RESOLVED then Some RES_MANUAL else None)"
    by (simp add: p(2-4))
  show "length es = changed_columns f g"
    by (simp add: p(5) changed_columns_def apply_state_own(2) apply_assignee_own(2) apply_owner_own(2)
        apply_notes_own(2)) (simp add: p(1-4))
  show "\<forall>e \<in> set es. ev_actor_id e = Some a"
    by (auto simp: p(5) dest: apply_parts_actor)
qed

text \<open>
  C17.  A triage change is refused exactly when it asks for a move that is not legal, or for a
  resolution the evidence policy does not allow.  Otherwise the finding takes exactly the
  requested columns, a resolution is recorded exactly for a move into \<open>resolved\<close>, the number of
  events is the number of columns that really changed (owner and pin counting as one), every
  event names the analyst, and sending the same change again, by whoever and under whatever
  evidence policy, changes nothing and records nothing.
\<close>

theorem triage_records_exactly_the_real_changes:
  "((\<exists>r. triage_apply c a ev f = Inr r) \<longleftrightarrow>
      (fu_state c = None \<or> fu_state c = Some (f_state f) \<or>
       (\<exists>st. fu_state c = Some st \<and> st \<in> set (LEGAL_TRANSITIONS (f_state f)) \<and>
             (st = RESOLVED \<and> ev \<noteq> None \<longrightarrow> the ev f)))) \<and>
   (\<forall>g es. triage_apply c a ev f = Inr (g, es) \<longrightarrow>
     f_state g = (case fu_state c of None \<Rightarrow> f_state f | Some st \<Rightarrow> st) \<and>
     f_assignee_id g = (case fu_assignee_id c of None \<Rightarrow> f_assignee_id f | Some x \<Rightarrow> x) \<and>
     (f_owner_group_id g, f_owner_pinned g) =
       (case fu_owner_group_id c of None \<Rightarrow> (f_owner_group_id f, f_owner_pinned f) | Some x \<Rightarrow> (x, True)) \<and>
     f_notes g = (case fu_notes c of None \<Rightarrow> f_notes f | Some x \<Rightarrow> x) \<and>
     f_resolution g = (if f_state g = f_state f then f_resolution f
                       else if f_state g = RESOLVED then Some RES_MANUAL else None) \<and>
     length es = changed_columns f g \<and> (\<forall>e \<in> set es. ev_actor_id e = Some a) \<and>
     (\<forall>b ev'. triage_apply c b ev' g = Inr (g, [])))"
proof -
  have idle: "triage_apply c b ev' g = Inr (g, [])" if "triage_apply c a ev f = Inr (g, es)" for g es b ev'
    by (rule triage_apply_idle) (use triage_apply_effect [OF that] in \<open>auto split: option.splits\<close>)
  show ?thesis
    using triage_apply_effect idle by (intro conjI allI impI triage_apply_Inr_iff) blast+
qed

text \<open>Resolving and annotating an open finding in one request: two events, and a resend is silent.\<close>

definition demo_change :: finding_update where
  "demo_change = \<lparr>fu_state = Some RESOLVED, fu_assignee_id = None, fu_owner_group_id = None,
     fu_notes = Some (Some (cps ''rotated'')), fu_comment = None\<rparr>"

theorem triage_records_exactly_the_real_changes_witness:
  "\<exists>g es. triage_apply demo_change 4 (Some (\<lambda>_. True)) demo_finding = Inr (g, es) \<and>
     f_state g = RESOLVED \<and> f_resolution g = Some RES_MANUAL \<and> length es = 2 \<and>
     triage_apply demo_change 5 None g = Inr (g, [])"
proof -
  have o: "f_state demo_finding = OPEN" by (simp add: demo_finding_def)
  note t = triage_records_exactly_the_real_changes [of demo_change 4 "Some (\<lambda>_. True)" demo_finding]
  have "\<exists>r. triage_apply demo_change 4 (Some (\<lambda>_. True)) demo_finding = Inr r"
    using conjunct1 [OF t] by (simp add: demo_change_def o)
  then obtain g es where g: "triage_apply demo_change 4 (Some (\<lambda>_. True)) demo_finding = Inr (g, es)"
    by auto
  with conjunct2 [OF t] have e: "f_state g = RESOLVED" "f_resolution g = Some RES_MANUAL"
    "length es = changed_columns demo_finding g" "f_notes g = Some (cps ''rotated'')"
    "f_assignee_id g = f_assignee_id demo_finding" "f_owner_group_id g = f_owner_group_id demo_finding"
    "f_owner_pinned g = f_owner_pinned demo_finding" "triage_apply demo_change 5 None g = Inr (g, [])"
    by (auto simp: demo_change_def o)
  moreover have "f_notes demo_finding = None" by (simp add: demo_finding_def)
  ultimately show ?thesis using g by (auto simp: changed_columns_def o)
qed

section \<open>A finding resolved while the scan that reopened it still runs\<close>

lemma add_events_Inr: "add_events new es = Inr es' \<Longrightarrow> es' = es @ new"
  by (induction new arbitrary: es) (fastforce simp: bindE_eq_Inr add_event_Inr_iff)+

lemma add_events_clash:
  assumes "e \<in> set new" and "b \<in> set es" and "event_clash e b"
  shows "\<exists>err. add_events new es = Inl err"
  using assms
proof (induction new arbitrary: es)
  case (Cons x new)
  show ?case
  proof (cases "add_event x es")
    case (Inr es')
    then have "es' = es @ [x]" "e \<noteq> x"
      using Cons.prems by (auto simp: add_event_Inr_iff list_ex_iff)
    then show ?thesis using Cons Inr by simp
  qed simp
qed simp

lemma keeps_refresh_display: "f_state (refresh_display s p cid f) = f_state f" "f_id (refresh_display s p cid f) = f_id f"
  by (simp_all add: refresh_display_def)

text \<open>A sighting in its parts, each on the row the one before it left.\<close>

lemma refresh_row_parts:
  assumes "refresh_row cf pol c s p supp now f = Inr (r, g, evs)"
  obtains cid f1 f2 f3 f5 where
    "f1 = fst (refresh_validation s p now (refresh_display s p cid f))"
    "f2 = fst (snd (reopen (s_id s) f1))" "f3 = start_clock pol now r (fst (snd (route cf pol (s_id s) f2)))"
    "f5 = (case supp of None \<Rightarrow> release (EC_NoSuppression (s_id s)) None f3 | Some q \<Rightarrow> suppress q now None f3)"
    "g = fst f5"
    "evs = snd (refresh_validation s p now (refresh_display s p cid f)) @ snd (snd (reopen (s_id s) f1)) @
       snd (snd (route cf pol (s_id s) f2)) @ snd f5"
  using assms by (fastforce simp: refresh_row_def bindE_eq_Inr Let_def split_beta)

lemma refresh_validation_id_state:
  "f_state (fst (refresh_validation s p now (refresh_display s p cid f))) = f_state f"
  "f_id (fst (refresh_validation s p now (refresh_display s p cid f))) = f_id f"
  using keeps_refresh_validation [of "refresh_display s p cid f" s p now]
  by (simp_all add: keeps_columns_def columns_defs keeps_refresh_display)

lemma refresh_row_reopens:
  assumes "refresh_row cf pol c s p supp now f = Inr (r, g, evs)" and "f_state f = RESOLVED"
  shows "reopened_event (s_id s) f \<in> set evs"
  by (rule refresh_row_parts [OF assms(1)])
     (simp add: reopen_def reopened_event_def refresh_validation_id_state assms(2))

lemma existing_for_row:
  assumes "table_ok d" and "f \<in> set (findings d)" and "name_of f = (sid, fp_fingerprint p)"
  shows "existing_for (load_findings d sid [p]) d p = Some (False, f)"
proof -
  have "fp_fingerprint p \<in> set (wanted_fingerprints [p])" by (simp add: wanted_fingerprints_def)
  then have "load_findings d sid [p] (fp_fingerprint p) = Some (f_id f)"
    using load_findings_ok [OF assms(1), of sid "[p]"] assms(2,3) unfolding known_ok_def by blast
  moreover have "get_row f_id (f_id f) (findings d) = Some f"
    using get_row_in [of f_id "findings d" f] assms(1,2) by (simp add: table_ok_def)
  ultimately show ?thesis by (simp add: existing_for_def)
qed

text \<open>
  C18.  The index that makes system events idempotent assumes that a scan leaves a finding it
  reopened in \<open>open\<close>.  An analyst can resolve the finding again while that scan is still
  reporting, and then the scan's next sighting of it cannot be stored: the second reopening
  violates the index, and since \<open>ingest_findings\<close> does not catch the error, the whole batch fails.
\<close>

theorem second_reopening_by_one_scan_fails:
  assumes "table_ok d" and "f \<in> set (findings d)" and "f_state f = RESOLVED"
    and "f_source_id f = s_source_id s" and "f_fingerprint f = fp_fingerprint p" and "above_threshold threshold p"
    and "reopened_event (s_id s) f \<in> set (events d)"
  shows "\<exists>err. ingest_findings cf c threshold s [p] now d = Inl err"
proof -
  have clash: "event_clash (reopened_event (s_id s) f) (reopened_event (s_id s) f)"
    by (simp add: event_clash_def system_event_def reopened_event_def IDEMPOTENT_SYSTEM_EVENTS_def)
  have ex: "existing_for (load_findings d (s_source_id s) [p]) d p = Some (False, f)"
    using assms(4,5) by (intro existing_for_row assms(1,2)) (simp add: name_of_def)
  have "ingest_one cf pol rules c s now p \<lparr>is_db = d, is_known = load_findings d (s_source_id s) [p], is_out = out\<rparr> \<noteq> Inr st"
    for pol rules out st
  proof
    assume "ingest_one cf pol rules c s now p \<lparr>is_db = d, is_known = load_findings d (s_source_id s) [p], is_out = out\<rparr> = Inr st"
    then obtain r g evs es where "refresh_row cf pol c s p
        (first_match rules (fp_fingerprint p) (fp_rule_id p) (fp_resource_locator p)) now f = Inr (r, g, evs)"
        "add_events evs (events d) = Inr es"
      by (auto simp: ingest_one_def ex Let_def bindE_eq_Inr)
    then show False
      using add_events_clash [OF refresh_row_reopens [OF _ assms(3)] assms(7) clash] by fastforce
  qed
  then have "ingest_findings cf c threshold s [p] now d \<noteq> Inr r" for r
    using assms(6) by (simp add: ingest_findings_def Let_def bindE_eq_Inr)
  then show ?thesis by (cases "ingest_findings cf c threshold s [p] now d") blast+
qed

text \<open>The course of events: the scan reopens, the analyst resolves, the scan reports once more.\<close>

definition demo_resolved :: db where
  "demo_resolved = empty_db\<lparr>findings := [demo_finding\<lparr>f_state := RESOLVED\<rparr>], drawn := 2\<rparr>"

definition demo_reresolved :: db where
  "demo_reresolved =
     (case ingest_findings id None 0 demo_scan [demo_payload] 7 demo_resolved of
        Inl _ \<Rightarrow> demo_resolved
      | Inr (_, d1) \<Rightarrow>
          (case update_finding (\<lambda>_. True) (\<lambda>_. True) 1 demo_change 4 d1 of Inl _ \<Rightarrow> d1 | Inr d2 \<Rightarrow> d2))"

lemma demo_reresolved_rows:
  "map f_id (findings demo_reresolved) = [1]" "map f_state (findings demo_reresolved) = [RESOLVED]"
  "map name_of (findings demo_reresolved) = [(5, cps ''fp'')]"
  "map ev_kind (events demo_reresolved) = [REOPENED, STATE_CHANGE, COMMENT]"
  "hd (events demo_reresolved) = reopened_event 9 demo_finding"
  "drawn demo_reresolved = 2"
  by code_simp+

theorem second_reopening_by_one_scan_fails_witness:
  "\<exists>err. ingest_findings id None 0 demo_scan [demo_payload] 8 demo_reresolved = Inl err"
proof -
  obtain f where f: "findings demo_reresolved = [f]" "f_id f = 1" "f_state f = RESOLVED" "name_of f = (5, cps ''fp'')"
    using demo_reresolved_rows(1-3) by (cases "findings demo_reresolved") auto
  have "table_ok demo_resolved"
    by (auto simp: table_ok_def demo_resolved_def demo_finding_def ids_drawn_def)
  then have "table_ok (case ingest_findings id None 0 demo_scan [demo_payload] 7 demo_resolved of
      Inl _ \<Rightarrow> demo_resolved | Inr (_, d1) \<Rightarrow> d1)"
    using ingest_findings_effect(1) by (fastforce split: sum.split)
  then have "table_ok demo_reresolved"
    unfolding demo_reresolved_def by (fastforce split: sum.split_asm sum.split dest: update_finding_table_ok)
  moreover have "reopened_event (s_id demo_scan) f \<in> set (events demo_reresolved)"
    using demo_reresolved_rows(4,5) f(2) by (cases "events demo_reresolved") (auto simp: demo_scan_def reopened_event_def demo_finding_def)
  ultimately show ?thesis
    by (intro second_reopening_by_one_scan_fails [of _ f])
       (use f in \<open>auto simp: name_of_def demo_scan_def demo_payload_def above_threshold_def\<close>)
qed

end
