(* ===== verification/Reconcile.thy ===== *)
theory Reconcile
  imports Triage
begin

text \<open>
  Reconciliation of a finished scan, \<^verbatim>\<open>apps/api/src/iceberg_api/scans/reconcile.py\<close>: what the scan did
  not see again is resolved, and the tallies are kept on the scan.

  The scan object and its row are one: the function takes the row and returns the row it leaves.
\<close>

section \<open>Numbers out of a JSON column\<close>

text \<open>
  \<open>int(value)\<close>.  Of strings only those of ASCII decimal digits with an optional sign and
  surrounding whitespace are read; the column is written by this code base with integers only.
\<close>

definition int_of_text :: "pystr \<Rightarrow> int option" where
  "int_of_text s =
     (let body = py_strip s;
          signed = body \<noteq> [] \<and> (hd body = 43 \<or> hd body = 45);
          digits = (if signed then tl body else body)
      in if digits = [] \<or> \<not> list_all (\<lambda>c. 48 \<le> c \<and> c \<le> 57) digits then None
         else Some ((if body \<noteq> [] \<and> hd body = 45 then -1 else 1) * int (py_int_of_digits digits)))"

definition py_int :: "json \<Rightarrow> py_error + int" where
  "py_int v =
     (case v of
        JStr s \<Rightarrow> (case int_of_text s of Some n \<Rightarrow> Inr n | None \<Rightarrow> Inl (ValueError ''invalid literal for int()''))
      | _ \<Rightarrow> (case json_int v of Some n \<Rightarrow> Inr n | None \<Rightarrow> Inl (TypeError ''int() argument'')))"

section \<open>The diff\<close>

record reconciliation_result =
  rec_new :: nat
  rec_seen :: nat
  rec_resolved :: nat
  rec_reopened :: int

definition missing_findings :: "scan \<Rightarrow> db \<Rightarrow> finding list" where
  "missing_findings s d =
     filter (\<lambda>f. f_source_id f = s_source_id s \<and> f_state f = OPEN \<and> f_last_seen_scan_id f \<noteq> s_id s \<and>
                 f_suppressed_at f = None) (findings d)"

definition saw_any_content :: "scan \<Rightarrow> db \<Rightarrow> bool" where
  "saw_any_content s d \<longleftrightarrow> rowcount (\<lambda>t. t_scan_id t = s_id s \<and> t_kind t = FETCH) (tasks d) > 0"

definition auto_resolved_event :: "scan \<Rightarrow> finding \<Rightarrow> finding_event" where
  "auto_resolved_event s f =
     \<lparr>ev_finding_id = f_id f, ev_actor_id = None, ev_scan_id = Some (s_id s), ev_kind = STATE_CHANGE,
      ev_from_value = Some (EV_State OPEN), ev_to_value = Some (EV_State RESOLVED),
      ev_comment = Some (EC_NotSeen (s_id s))\<rparr>"

text \<open>One round of the loop: the conditional update, and the event only if it matched.\<close>

definition auto_resolve_one :: "scan \<Rightarrow> finding \<Rightarrow> nat \<times> db \<Rightarrow> py_error + nat \<times> db" where
  "auto_resolve_one s f nd =
     (case nd of (n, d) \<Rightarrow>
        let P = (\<lambda>g. f_id g = f_id f \<and> f_state g = OPEN) in
        if rowcount P (findings d) \<noteq> 1 then Inr (n, d)
        else bindE (add_event (auto_resolved_event s f) (events d)) (\<lambda>es.
          Inr (n + 1, d\<lparr>findings := update_where P
                          (\<lambda>g. g\<lparr>f_state := RESOLVED, f_resolution := Some RES_AUTO\<rparr>) (findings d),
                        events := es\<rparr>)))"

fun auto_resolve :: "scan \<Rightarrow> finding list \<Rightarrow> nat \<times> db \<Rightarrow> py_error + nat \<times> db" where
  "auto_resolve s [] nd = Inr nd"
| "auto_resolve s (f # fs) nd = bindE (auto_resolve_one s f nd) (auto_resolve s fs)"

definition reconcile_scan ::
  "scan \<Rightarrow> int \<Rightarrow> db \<Rightarrow> py_error + reconciliation_result option \<times> scan \<times> db" where
  "reconcile_scan s now d =
     (if s_status s \<noteq> SCAN_COMPLETED then Inr (None, s, d)
      else
        let missing = missing_findings s d;
            missing' = (if missing \<noteq> [] \<and> \<not> saw_any_content s d then [] else missing)
        in bindE (auto_resolve s missing' (0, d)) (\<lambda>(resolved, d1).
           bindE (case map_of (s_counts s) (cps ''reopened'') of None \<Rightarrow> Inr 0 | Some v \<Rightarrow> py_int v) (\<lambda>reopened.
             let result = \<lparr>rec_new = rowcount (\<lambda>f. f_source_id f = s_source_id s \<and> f_first_seen_scan_id f = s_id s) (findings d1),
                           rec_seen = rowcount (\<lambda>f. f_source_id f = s_source_id s \<and> f_last_seen_scan_id f = s_id s) (findings d1),
                           rec_resolved = resolved, rec_reopened = reopened\<rparr>;
                 counts = fold (\<lambda>(k, v). AList.update k v)
                   [(cps ''new'', JInt (int (rec_new result))), (cps ''seen'', JInt (int (rec_seen result))),
                    (cps ''resolved'', JInt (int (rec_resolved result))), (cps ''reopened'', JInt (rec_reopened result))]
                   (s_counts s);
                 s' = s\<lparr>s_counts := counts,
                        s_finished_at := (case s_finished_at s of None \<Rightarrow> Some now | t \<Rightarrow> t)\<rparr>
             in Inr (Some result, s', d1\<lparr>scans := update_where (\<lambda>x. s_id x = s_id s) (\<lambda>_. s') (scans d1)\<rparr>))))"

section \<open>What the loop does\<close>

definition auto_resolved :: "finding \<Rightarrow> finding" where
  "auto_resolved f = f\<lparr>f_state := RESOLVED, f_resolution := Some RES_AUTO\<rparr>"

lemma auto_resolved_id [simp]: "f_id (auto_resolved f) = f_id f" "f_state (auto_resolved f) = RESOLVED"
  by (simp_all add: auto_resolved_def)

lemma auto_resolve_one_open:
  assumes "distinct (map f_id (findings d))" and "f \<in> set (findings d)" and "f_state f = OPEN"
  shows "auto_resolve_one s f (n, d) = bindE (add_event (auto_resolved_event s f) (events d)) (\<lambda>es.
    Inr (n + 1, d\<lparr>findings := map (\<lambda>g. if g = f then auto_resolved f else g) (findings d), events := es\<rparr>))"
proof -
  have u: "f_id g = f_id f \<and> f_state g = OPEN \<longleftrightarrow> g = f" if "g \<in> set (findings d)" for g
    using distinct_key_unique [OF assms(1) that assms(2)] assms(3) by blast
  have rc: "rowcount (\<lambda>g. f_id g = f_id f \<and> f_state g = OPEN) (findings d) = 1"
    using rowcount_1_get_row [OF assms(1), of "\<lambda>g. f_id g = f_id f \<and> f_state g = OPEN" "f_id f"]
      get_row_in [OF assms(1,2)] assms(3) by blast
  have "update_where (\<lambda>g. f_id g = f_id f \<and> f_state g = OPEN)
      (\<lambda>g. g\<lparr>f_state := RESOLVED, f_resolution := Some RES_AUTO\<rparr>) (findings d) =
      map (\<lambda>g. if g = f then auto_resolved f else g) (findings d)"
    unfolding update_where_def using u by (intro map_cong) (simp_all add: auto_resolved_def)
  then show ?thesis by (simp add: auto_resolve_one_def Let_def rc)
qed

lemma auto_resolve_Inr:
  assumes "distinct (map f_id (findings d))" and "distinct (map f_id fs)" and "set fs \<subseteq> set (findings d)"
    and "\<forall>f \<in> set fs. f_state f = OPEN" and "auto_resolve s fs (n, d) = Inr (n', d')"
  shows "n' = n + length fs" and "d' = d\<lparr>findings := map (\<lambda>g. if g \<in> set fs then auto_resolved g else g) (findings d),
    events := events d @ map (auto_resolved_event s) fs\<rparr>"
proof -
  have "n' = n + length fs \<and> d' = d\<lparr>findings := map (\<lambda>g. if g \<in> set fs then auto_resolved g else g) (findings d),
    events := events d @ map (auto_resolved_event s) fs\<rparr>"
    using assms
  proof (induction fs arbitrary: n d)
    case Nil
    then show ?case by (simp add: map_idI)
  next
    case (Cons f fs)
    let ?d = "d\<lparr>findings := map (\<lambda>g. if g = f then auto_resolved f else g) (findings d),
                events := events d @ [auto_resolved_event s f]\<rparr>"
    have notin: "auto_resolved f \<notin> set fs" "f \<notin> set fs" using Cons.prems(2) by (auto simp: image_iff)
    have r: "auto_resolve s fs (n + 1, ?d) = Inr (n', d')"
      using Cons.prems auto_resolve_one_open [of d f s n]
      by (auto simp: bindE_eq_Inr add_event_Inr_iff)
    have ids: "map f_id (findings ?d) = map f_id (findings d)" by simp
    have "set fs \<subseteq> set (findings ?d)" using Cons.prems(3) notin(2) by (auto simp: image_iff)
    then have "n' = n + 1 + length fs \<and> d' = ?d\<lparr>findings := map (\<lambda>g. if g \<in> set fs then auto_resolved g else g) (findings ?d),
        events := events ?d @ map (auto_resolved_event s) fs\<rparr>"
      using Cons.prems(1,2,4) r by (intro Cons.IH) (simp_all only: ids, simp_all)
    moreover have "map (\<lambda>g. if g \<in> set fs then auto_resolved g else g) (findings ?d) =
        map (\<lambda>g. if g \<in> set (f # fs) then auto_resolved g else g) (findings d)"
      using notin by auto
    ultimately show ?case by simp
  qed
  then show "n' = n + length fs" and "d' = d\<lparr>findings := map (\<lambda>g. if g \<in> set fs then auto_resolved g else g) (findings d),
    events := events d @ map (auto_resolved_event s) fs\<rparr>" by blast+
qed

definition unseen :: "scan \<Rightarrow> finding \<Rightarrow> bool" where
  "unseen s f \<longleftrightarrow> f_source_id f = s_source_id s \<and> f_state f = OPEN \<and> f_last_seen_scan_id f \<noteq> s_id s \<and> f_suppressed_at f = None"

lemma reconcile_scan_Inr:
  assumes "distinct (map f_id (findings d))" and "reconcile_scan s now d = Inr (r, s', d')"
  obtains (refused) "s_status s \<noteq> SCAN_COMPLETED" "r = None" "s' = s" "d' = d"
  | (ran) res where "s_status s = SCAN_COMPLETED" "r = Some res"
      "rec_resolved res = (if saw_any_content s d then length (filter (unseen s) (findings d)) else 0)"
      "findings d' = map (\<lambda>f. if saw_any_content s d \<and> unseen s f then auto_resolved f else f) (findings d)"
      "events d' = events d @ (if saw_any_content s d then map (auto_resolved_event s) (filter (unseen s) (findings d)) else [])"
      "d' = d\<lparr>findings := findings d', events := events d', scans := scans d'\<rparr>"
      "scans d' = update_where (\<lambda>x. s_id x = s_id s) (\<lambda>_. s') (scans d)"
      "s' = s\<lparr>s_counts := s_counts s', s_finished_at := s_finished_at s'\<rparr>"
proof (cases "s_status s = SCAN_COMPLETED")
  case False
  then show ?thesis using assms(2) by (intro refused) (simp_all add: reconcile_scan_def)
next
  case True
  let ?fs = "if saw_any_content s d then filter (unseen s) (findings d) else []"
  have m: "(if missing_findings s d \<noteq> [] \<and> \<not> saw_any_content s d then [] else missing_findings s d) = ?fs"
    by (auto simp: missing_findings_def unseen_def [abs_def])
  obtain n d1 res where a: "auto_resolve s ?fs (0, d) = Inr (n, d1)"
    and res: "r = Some res" "rec_resolved res = n"
    and d': "d' = d1\<lparr>scans := update_where (\<lambda>x. s_id x = s_id s) (\<lambda>_. s') (scans d1)\<rparr>"
    and s': "s' = s\<lparr>s_counts := s_counts s', s_finished_at := s_finished_at s'\<rparr>"
    using assms(2) True unfolding reconcile_scan_def Let_def m by (auto simp: bindE_eq_Inr)
  have fs: "distinct (map f_id ?fs)" "set ?fs \<subseteq> set (findings d)" "\<forall>f \<in> set ?fs. f_state f = OPEN"
    using assms(1) by (auto simp: distinct_map_filter unseen_def)
  note e = auto_resolve_Inr [OF assms(1) fs a]
  have f1: "findings d1 = map (\<lambda>f. if saw_any_content s d \<and> unseen s f then auto_resolved f else f) (findings d)"
    unfolding e(2) by (auto cong: map_cong)
  show ?thesis
  proof (rule ran [OF True res(1)])
    show "rec_resolved res = (if saw_any_content s d then length (filter (unseen s) (findings d)) else 0)"
      using res(2) e(1) by simp
    show "findings d' = map (\<lambda>f. if saw_any_content s d \<and> unseen s f then auto_resolved f else f) (findings d)"
      using f1 by (simp add: d')
    show "events d' = events d @ (if saw_any_content s d then map (auto_resolved_event s) (filter (unseen s) (findings d)) else [])"
      unfolding d' e(2) by simp
    show "d' = d\<lparr>findings := findings d', events := events d', scans := scans d'\<rparr>"
      unfolding d' e(2) by simp
    show "scans d' = update_where (\<lambda>x. s_id x = s_id s) (\<lambda>_. s') (scans d)"
      unfolding d' e(2) by simp
  qed (rule s')
qed

text \<open>The loop raises only if this scan has already recorded a resolution of one of the findings.\<close>

definition unresolved_by :: "nat \<Rightarrow> finding_event list \<Rightarrow> bool" where
  "unresolved_by scan_id es \<longleftrightarrow> \<not> list_ex (\<lambda>e. system_event e \<and> ev_kind e = STATE_CHANGE \<and> ev_scan_id e = Some scan_id) es"

lemma auto_resolve_total:
  assumes "distinct (map f_id (findings d))" and "distinct (map f_id fs)" and "set fs \<subseteq> set (findings d)"
    and "\<forall>f \<in> set fs. f_state f = OPEN"
    and "\<forall>f \<in> set fs. \<not> list_ex (event_clash (auto_resolved_event s f)) (events d)"
  shows "\<exists>r. auto_resolve s fs (n, d) = Inr r"
  using assms
proof (induction fs arbitrary: n d)
  case (Cons f fs)
  let ?d = "d\<lparr>findings := map (\<lambda>g. if g = f then auto_resolved f else g) (findings d),
              events := events d @ [auto_resolved_event s f]\<rparr>"
  have notin: "f \<notin> set fs" using Cons.prems(2) by auto
  have one: "auto_resolve_one s f (n, d) = Inr (n + 1, ?d)"
    using Cons.prems auto_resolve_one_open [of d f s n] by (simp add: add_event_def)
  have ids: "map f_id (findings ?d) = map f_id (findings d)" by simp
  have "set fs \<subseteq> set (findings ?d)" using Cons.prems(3) notin by (auto simp: image_iff)
  moreover have "\<not> list_ex (event_clash (auto_resolved_event s g)) (events ?d)" if "g \<in> set fs" for g
  proof -
    have "f_id g \<noteq> f_id f" using Cons.prems(2) that by (auto simp: image_iff)
    then have "\<not> event_clash (auto_resolved_event s g) (auto_resolved_event s f)"
      by (simp add: event_clash_def auto_resolved_event_def)
    then show ?thesis using Cons.prems(5) that by simp
  qed
  ultimately have "\<exists>r. auto_resolve s fs (n + 1, ?d) = Inr r"
    using Cons.prems(1,2,4) by (intro Cons.IH) (simp_all only: ids, simp_all)
  then show ?case by (simp add: one)
qed simp

lemma unresolved_no_clash: "unresolved_by (s_id s) es \<Longrightarrow> \<not> list_ex (event_clash (auto_resolved_event s f)) es"
  by (auto simp: unresolved_by_def list_ex_iff event_clash_def auto_resolved_event_def)

definition counts_readable :: "scan \<Rightarrow> bool" where
  "counts_readable s \<longleftrightarrow> (case map_of (s_counts s) (cps ''reopened'') of Some (JInt _) \<Rightarrow> True | None \<Rightarrow> True | _ \<Rightarrow> False)"

lemma reconcile_scan_total:
  assumes "distinct (map f_id (findings d))" and "unresolved_by (s_id s) (events d)" and "counts_readable s"
  shows "\<exists>r. reconcile_scan s now d = Inr r"
proof (cases "s_status s = SCAN_COMPLETED")
  case True
  define fs where "fs = (if missing_findings s d \<noteq> [] \<and> \<not> saw_any_content s d then [] else missing_findings s d)"
  have "\<exists>r. auto_resolve s fs (0, d) = Inr r"
    using assms(1) unresolved_no_clash [OF assms(2)]
    by (intro auto_resolve_total) (auto simp: fs_def missing_findings_def distinct_map_filter)
  then obtain n d1 where a: "auto_resolve s fs (0, d) = Inr (n, d1)" by auto
  have "\<exists>m. (case map_of (s_counts s) (cps ''reopened'') of None \<Rightarrow> Inr 0 | Some v \<Rightarrow> py_int v) = Inr m"
    using assms(3) by (auto simp: counts_readable_def py_int_def json_int_def split: option.splits json.splits)
  then show ?thesis using True a by (auto simp: reconcile_scan_def Let_def fs_def [symmetric])
qed (simp add: reconcile_scan_def)

section \<open>Property\<close>

text \<open>
  C25.  Reconciling a scan resolves, as \<open>auto\<close> and with one event each, exactly those findings of the
  scan's source that are open, not suppressed and were not seen by it, and only if the scan
  completed and had any fetch task at all; every other finding is left as it is.  It never raises
  for a scan that has not been reconciled before.
\<close>

theorem reconciliation_resolves_exactly_the_unseen:
  assumes "distinct (map f_id (findings d))" and "unresolved_by (s_id s) (events d)" and "counts_readable s"
  shows "\<exists>r s' d'. reconcile_scan s now d = Inr (r, s', d') \<and>
    findings d' = map (\<lambda>f. if s_status s = SCAN_COMPLETED \<and> saw_any_content s d \<and> unseen s f
      then f\<lparr>f_state := RESOLVED, f_resolution := Some RES_AUTO\<rparr> else f) (findings d) \<and>
    events d' = events d @ (if s_status s = SCAN_COMPLETED \<and> saw_any_content s d
      then map (auto_resolved_event s) (filter (unseen s) (findings d)) else [])"
proof -
  obtain r s' d' where e: "reconcile_scan s now d = Inr (r, s', d')"
    using reconcile_scan_total [OF assms, of now] by auto
  from assms(1) e have "findings d' = map (\<lambda>f. if s_status s = SCAN_COMPLETED \<and> saw_any_content s d \<and> unseen s f
      then f\<lparr>f_state := RESOLVED, f_resolution := Some RES_AUTO\<rparr> else f) (findings d)"
  proof (cases rule: reconcile_scan_Inr)
    case refused
    then show ?thesis by simp
  next
    case ran
    show ?thesis unfolding ran(4) auto_resolved_def by (rule map_cong) (simp_all only: ran(1) simp_thms)
  qed
  moreover from assms(1) e have "events d' = events d @ (if s_status s = SCAN_COMPLETED \<and> saw_any_content s d
      then map (auto_resolved_event s) (filter (unseen s) (findings d)) else [])"
  proof (cases rule: reconcile_scan_Inr)
    case refused
    then show ?thesis by simp
  next
    case ran
    show ?thesis unfolding ran(5) by (simp only: ran(1) simp_thms)
  qed
  ultimately show ?thesis using e by blast
qed

definition demo_reconciled :: db where
  "demo_reconciled = empty_db\<lparr>findings := [demo_finding\<lparr>f_last_seen_scan_id := 8\<rparr>, demo_finding\<lparr>f_id := 2\<rparr>],
     tasks := [demo_task], scans := [demo_scan\<lparr>s_status := SCAN_COMPLETED\<rparr>]\<rparr>"

theorem reconciliation_resolves_exactly_the_unseen_witness:
  "\<exists>r s' d'. reconcile_scan (demo_scan\<lparr>s_status := SCAN_COMPLETED\<rparr>) 50 demo_reconciled = Inr (r, s', d') \<and>
     map f_state (findings d') = [RESOLVED, OPEN]"
proof -
  have "distinct (map f_id (findings demo_reconciled))"
    "unresolved_by (s_id (demo_scan\<lparr>s_status := SCAN_COMPLETED\<rparr>)) (events demo_reconciled)"
    "counts_readable (demo_scan\<lparr>s_status := SCAN_COMPLETED\<rparr>)"
    "saw_any_content (demo_scan\<lparr>s_status := SCAN_COMPLETED\<rparr>) demo_reconciled"
    by (simp_all add: demo_reconciled_def demo_finding_def unresolved_by_def counts_readable_def demo_scan_def
        saw_any_content_def rowcount_def demo_task_def)
  with reconciliation_resolves_exactly_the_unseen [of demo_reconciled "demo_scan\<lparr>s_status := SCAN_COMPLETED\<rparr>" 50]
  show ?thesis
    by (auto simp: demo_reconciled_def demo_finding_def unseen_def demo_scan_def)
qed

end
