(* ===== verification/Cursors.thy ===== *)
theory Cursors
  imports Iceberg_Models
begin

text \<open>
  Incremental watermarks, \<^verbatim>\<open>apps/api/src/iceberg_api/scans/cursors.py\<close>: which positions a scan hands
  to its engines, when a watermark is no longer to be trusted, in which mode a requested scan
  runs, and how a completed scan stores the watermarks its tasks proposed.

  A cursor row is addressed by its source and scope, which the table declares unique; its own id
  is read by nobody.  \<open>py_str\<close> is Python's \<open>str\<close> on a JSON value that is not a string: proposals
  and rule packs are validated to hold strings there, and the code calls \<open>str\<close> on them all the
  same.
\<close>

section \<open>Reading a dict\<close>

fun truthy :: "json \<Rightarrow> bool" where
  "truthy JNull = False"
| "truthy (JBool b) = b"
| "truthy (JInt n) = (n \<noteq> 0)"
| "truthy (JFloat q) = (q \<noteq> 0)"
| "truthy (JStr s) = (s \<noteq> [])"
| "truthy (JList xs) = (xs \<noteq> [])"
| "truthy (JObj o') = (o' \<noteq> [])"

fun json_str :: "(json \<Rightarrow> pystr) \<Rightarrow> json \<Rightarrow> pystr" where
  "json_str py_str (JStr s) = s"
| "json_str py_str v = py_str v"

text \<open>\<open>str(d.get(key) or "")\<close>\<close>

definition text_or_empty :: "(json \<Rightarrow> pystr) \<Rightarrow> pystr \<Rightarrow> jdict \<Rightarrow> pystr" where
  "text_or_empty py_str k o' =
     (case map_of o' k of None \<Rightarrow> [] | Some v \<Rightarrow> if truthy v then json_str py_str v else [])"

section \<open>Live watermarks\<close>

definition all_cursors :: "db \<Rightarrow> nat \<Rightarrow> source_cursor list" where
  "all_cursors d sid = filter (\<lambda>c. cur_source_id c = sid) (cursors d)"

definition active_cursors :: "db \<Rightarrow> nat \<Rightarrow> (pystr \<times> source_cursor) list" where
  "active_cursors d sid =
     dict_of (map (\<lambda>c. (cur_scope c, c))
       (filter (\<lambda>c. cur_source_id c = sid \<and> cur_invalidated_at c = None) (cursors d)))"

definition positions_for_scan :: "db \<Rightarrow> scan \<Rightarrow> (pystr \<times> jdict) list" where
  "positions_for_scan d s =
     (if s_mode s \<noteq> FULL
      then map (\<lambda>(scope, c). (scope, cur_position c)) (active_cursors d (s_source_id s)) else [])"

section \<open>Trust\<close>

definition DAY :: int where "DAY = 86400000000"

definition invalidation_for ::
  "source \<Rightarrow> pystr option \<Rightarrow> bool \<Rightarrow> int \<Rightarrow> source_cursor option \<Rightarrow> cursor_invalidation_reason option" where
  "invalidation_for src version rotating now cursor =
     (case cursor of
        None \<Rightarrow> Some NO_CURSOR
      | Some c \<Rightarrow>
          if cur_invalidated_at c \<noteq> None
          then (case cur_invalidation_reason c of Some r \<Rightarrow> Some r | None \<Rightarrow> Some OPERATOR_REQUESTED)
          else if cur_source_configuration_version c \<noteq> Some (src_updated_at src)
          then Some SOURCE_CONFIGURATION_CHANGED
          else if version = None \<or> cur_rulepack_version c \<noteq> version then Some RULEPACK_CHANGED
          else if rotating then Some PEPPER_ROTATING
          else if now - cur_minted_at c \<ge> DAY * int (src_full_scan_interval_days src)
          then Some INTERVAL_ELAPSED
          else None)"

definition fleet_rulepack_version :: "(json \<Rightarrow> pystr) \<Rightarrow> db \<Rightarrow> pystr option" where
  "fleet_rulepack_version py_str d =
     (let versions = remdups (concat (map (\<lambda>e.
            case map_of (eng_rulepack e) (cps ''version'') of
              Some v \<Rightarrow> if truthy v then [json_str py_str v] else []
            | None \<Rightarrow> [])
          (filter (\<lambda>e. eng_status e = ENGINE_ACTIVE) (engines d))))
      in case versions of [v] \<Rightarrow> Some v | _ \<Rightarrow> None)"

definition invalidate_cursors ::
  "nat \<Rightarrow> cursor_invalidation_reason \<Rightarrow> pystr option \<Rightarrow> int \<Rightarrow> db \<Rightarrow> nat \<times> db" where
  "invalidate_cursors sid reason scope now d =
     (let P = (\<lambda>c. cur_source_id c = sid \<and> cur_invalidated_at c = None \<and>
                   (case scope of None \<Rightarrow> True | Some sc \<Rightarrow> cur_scope c = sc))
      in (rowcount P (cursors d),
          d\<lparr>cursors := update_where P
              (\<lambda>c. c\<lparr>cur_invalidated_at := Some now, cur_invalidation_reason := Some reason\<rparr>) (cursors d)\<rparr>))"

text \<open>The loop of \<open>plan_mode\<close> stops at the first cursor that is not trusted.\<close>

fun first_reason :: "('a \<Rightarrow> 'r option) \<Rightarrow> 'a list \<Rightarrow> 'r option" where
  "first_reason f [] = None"
| "first_reason f (x # xs) = (case f x of Some r \<Rightarrow> Some r | None \<Rightarrow> first_reason f xs)"

definition plan_mode ::
  "source \<Rightarrow> scan_mode \<Rightarrow> pystr option \<Rightarrow> bool \<Rightarrow> int \<Rightarrow> db \<Rightarrow>
   (scan_mode \<times> cursor_invalidation_reason option \<times> int option) \<times> db" where
  "plan_mode src requested version rotating now d =
     (if requested = FULL then ((FULL, None, None), d)
      else
        let live = map snd (active_cursors d (src_id src)) in
        if live = [] then ((FULL, Some NO_CURSOR, None), d)
        else
          case first_reason (\<lambda>c. invalidation_for src version rotating now (Some c)) live of
            Some reason \<Rightarrow> ((FULL, Some reason, None), snd (invalidate_cursors (src_id src) reason None now d))
          | None \<Rightarrow> ((INCREMENTAL, None, Some (Min (set (map cur_minted_at live)))), d))"

section \<open>Storing proposals\<close>

definition mint_cursor :: "scan \<Rightarrow> jdict \<Rightarrow> int \<Rightarrow> source_cursor \<Rightarrow> source_cursor" where
  "mint_cursor s position now c =
     c\<lparr>cur_position := position,
       cur_rulepack_version := s_rulepack_version s,
       cur_source_configuration_version := s_source_configuration_version s,
       cur_minted_by_scan_id := s_id s,
       cur_minted_at := now,
       cur_invalidated_at := None,
       cur_invalidation_reason := None\<rparr>"

definition new_cursor :: "scan \<Rightarrow> pystr \<Rightarrow> int \<Rightarrow> source_cursor" where
  "new_cursor s scope now =
     \<lparr>cur_source_id = s_source_id s, cur_scope = scope, cur_position = [],
      cur_rulepack_version = None, cur_source_configuration_version = None,
      cur_minted_by_scan_id = s_id s, cur_minted_at = now,
      cur_invalidated_at = None, cur_invalidation_reason = None\<rparr>"

text \<open>
  What a task's proposal says: nothing, if the task did not complete, proposed nothing, or
  proposed something malformed.
\<close>

definition task_proposal :: "(json \<Rightarrow> pystr) \<Rightarrow> scan_task \<Rightarrow> (pystr \<times> jdict) option" where
  "task_proposal py_str t =
     (if t_status t \<noteq> TASK_COMPLETED \<or> t_cursor_proposal t = [] then None
      else
        let scope = text_or_empty py_str (cps ''scope'') (t_cursor_proposal t);
            version = text_or_empty py_str (cps ''version'') (t_cursor_proposal t)
        in case map_of (t_cursor_proposal t) (cps ''position'') of
             Some (JObj position) \<Rightarrow>
               if scope = [] \<or> version = [] then None
               else Some (scope, fold (\<lambda>(k, v). AList.update k v) position [(cps ''version'', JStr version)])
           | _ \<Rightarrow> None)"

definition store_cursor :: "scan \<Rightarrow> int \<Rightarrow> pystr \<times> jdict \<Rightarrow> source_cursor list \<Rightarrow> source_cursor list" where
  "store_cursor s now pr rows =
     (let mine = (\<lambda>c. cur_source_id c = s_source_id s \<and> cur_scope c = fst pr)
      in if list_ex mine rows then update_where mine (mint_cursor s (snd pr) now) rows
         else rows @ [mint_cursor s (snd pr) now (new_cursor s (fst pr) now)])"

definition commit_proposals ::
  "(json \<Rightarrow> pystr) \<Rightarrow> scan \<Rightarrow> scan_task list \<Rightarrow> int \<Rightarrow> db \<Rightarrow> nat \<times> db" where
  "commit_proposals py_str s ts now d =
     (let proposals = List.map_filter (task_proposal py_str) ts
      in (length proposals, d\<lparr>cursors := fold (store_cursor s now) proposals (cursors d)\<rparr>))"

section \<open>The table's index\<close>

definition cursor_key :: "source_cursor \<Rightarrow> nat \<times> pystr" where
  "cursor_key c = (cur_source_id c, cur_scope c)"

definition cursors_unique :: "source_cursor list \<Rightarrow> bool" where
  "cursors_unique rows \<longleftrightarrow> distinct (map cursor_key rows)"

definition live_for :: "nat \<Rightarrow> source_cursor list \<Rightarrow> source_cursor list" where
  "live_for sid rows = filter (\<lambda>c. cur_source_id c = sid \<and> cur_invalidated_at c = None) rows"

lemma distinct_live_scopes: "cursors_unique rows \<Longrightarrow> distinct (map cur_scope (live_for sid rows))"
proof -
  assume "cursors_unique rows"
  then have "distinct (map cursor_key (live_for sid rows))"
    by (simp add: cursors_unique_def live_for_def distinct_map_filter)
  moreover have "map cursor_key (live_for sid rows) = map (Pair sid) (map cur_scope (live_for sid rows))"
    by (auto simp: live_for_def cursor_key_def)
  ultimately show ?thesis by (simp only: distinct_map)
qed

lemma active_cursors_live:
  assumes "cursors_unique (cursors d)"
  shows "active_cursors d sid = map (\<lambda>c. (cur_scope c, c)) (live_for sid (cursors d))"
  using distinct_live_scopes [OF assms, of sid]
  by (simp add: active_cursors_def live_for_def [symmetric] dict_of_distinct comp_def)

section \<open>Properties\<close>

definition trusted :: "source \<Rightarrow> pystr option \<Rightarrow> bool \<Rightarrow> int \<Rightarrow> source_cursor \<Rightarrow> bool" where
  "trusted src version rotating now c \<longleftrightarrow>
     cur_source_configuration_version c = Some (src_updated_at src) \<and>
     version \<noteq> None \<and> cur_rulepack_version c = version \<and> \<not> rotating \<and>
     now < cur_minted_at c + DAY * int (src_full_scan_interval_days src)"

lemma invalidation_for_live:
  "cur_invalidated_at c = None \<Longrightarrow> invalidation_for src v rot now (Some c) = None \<longleftrightarrow> trusted src v rot now c"
  by (auto simp: invalidation_for_def trusted_def)

lemma first_reason_None: "first_reason f xs = None \<longleftrightarrow> (\<forall>x \<in> set xs. f x = None)"
  by (induction xs) (auto split: option.splits)

lemma update_where_drains:
  "(\<And>r. Q r \<Longrightarrow> P r) \<Longrightarrow> (\<And>r. \<not> Q (f r)) \<Longrightarrow> filter Q (update_where P f rows) = []"
  by (induction rows) auto

lemma invalidate_cursors_none_live:
  "live_for sid (cursors (snd (invalidate_cursors sid r None now d))) = []"
  by (simp add: invalidate_cursors_def Let_def live_for_def) (intro update_where_drains; simp)

lemma plan_mode_cases:
  assumes "plan_mode src requested version rotating now d = ((mode, reason, baseline), d')"
    and "cursors_unique (cursors d)"
  obtains (asked) "requested = FULL" "mode = FULL" "reason = None" "baseline = None"
  | (promoted) r where "requested = INCREMENTAL" "mode = FULL" "reason = Some r" "baseline = None"
      "live_for (src_id src) (cursors d) = [] \<or>
       (\<exists>c \<in> set (live_for (src_id src) (cursors d)). \<not> trusted src version rotating now c)"
      "live_for (src_id src) (cursors d') = []"
  | (incremental) "requested = INCREMENTAL" "mode = INCREMENTAL" "reason = None"
      "live_for (src_id src) (cursors d) \<noteq> []"
      "\<forall>c \<in> set (live_for (src_id src) (cursors d)). trusted src version rotating now c"
      "baseline = Some (Min (cur_minted_at ` set (live_for (src_id src) (cursors d))))" "d' = d"
proof (cases requested)
  case FULL
  then show ?thesis using assms(1) by (intro asked) (simp_all add: plan_mode_def)
next
  case INCREMENTAL
  let ?live = "live_for (src_id src) (cursors d)"
  have live: "map snd (active_cursors d (src_id src)) = ?live"
    by (simp add: active_cursors_live [OF assms(2)] comp_def)
  have inv: "cur_invalidated_at c = None" if "c \<in> set ?live" for c using that by (simp add: live_for_def)
  show ?thesis
  proof (cases "?live = []")
    case True
    then show ?thesis using assms(1) INCREMENTAL by (intro promoted) (auto simp: plan_mode_def live)
  next
    case False
    show ?thesis
    proof (cases "first_reason (\<lambda>c. invalidation_for src version rotating now (Some c)) ?live")
      case None
      then have "\<forall>c \<in> set ?live. trusted src version rotating now c"
        using inv invalidation_for_live by (auto simp: first_reason_None)
      then show ?thesis
        using None False assms(1) INCREMENTAL by (intro incremental) (auto simp: plan_mode_def live)
    next
      case (Some r)
      then obtain c where "c \<in> set ?live" "invalidation_for src version rotating now (Some c) \<noteq> None"
        by (metis first_reason_None option.distinct(1))
      then have "\<exists>c \<in> set ?live. \<not> trusted src version rotating now c"
        using inv [of c] invalidation_for_live [of c] by auto
      then show ?thesis
        using Some False assms(1) INCREMENTAL invalidate_cursors_none_live
        by (intro promoted [of r]) (auto simp: plan_mode_def live)
    qed
  qed
qed

text \<open>
  C19.  A requested incremental scan is granted exactly when the source has live watermarks and
  every one of them was taken under the source's present configuration, by the rule pack the
  fleet agrees on, outside a pepper rotation and less than the source's full-scan interval ago.
  It then starts from the oldest of them.  In every other case the scan is full; a promotion
  carries a reason and leaves the source without live watermarks.
\<close>

theorem incremental_only_from_trusted_watermarks:
  assumes "plan_mode src requested version rotating now d = ((mode, reason, baseline), d')"
    and "cursors_unique (cursors d)"
  shows "(mode = INCREMENTAL \<longleftrightarrow>
            requested = INCREMENTAL \<and> live_for (src_id src) (cursors d) \<noteq> [] \<and>
            list_all (trusted src version rotating now) (live_for (src_id src) (cursors d))) \<and>
         (mode = INCREMENTAL \<longrightarrow>
            d' = d \<and> baseline = Some (Min (cur_minted_at ` set (live_for (src_id src) (cursors d))))) \<and>
         (mode \<noteq> requested \<longrightarrow> reason \<noteq> None \<and> live_for (src_id src) (cursors d') = [])"
  using assms by (cases rule: plan_mode_cases) (auto simp: list_all_iff)

text \<open>A fresh watermark is followed; the same one is retired once the rule pack has changed.\<close>

definition demo_source :: source where
  "demo_source = \<lparr>src_id = 5, src_name = cps ''wiki'', src_type = CONFLUENCE, src_connection = [],
     src_credential_ref = None, src_tags = [], src_enabled = True, src_full_scan_interval_days = 7,
     src_updated_at = 3\<rparr>"

definition demo_cursor :: source_cursor where
  "demo_cursor = \<lparr>cur_source_id = 5, cur_scope = cps ''ENG'', cur_position = [], cur_rulepack_version = Some (cps ''v1''),
     cur_source_configuration_version = Some 3, cur_minted_by_scan_id = 8, cur_minted_at = 10,
     cur_invalidated_at = None, cur_invalidation_reason = None\<rparr>"

abbreviation demo_watermarked :: db where
  "demo_watermarked \<equiv> empty_db\<lparr>sources := [demo_source], cursors := [demo_cursor]\<rparr>"

theorem incremental_only_from_trusted_watermarks_witness:
  "fst (fst (plan_mode demo_source INCREMENTAL (Some (cps ''v1'')) False 20 demo_watermarked)) = INCREMENTAL \<and>
   fst (fst (plan_mode demo_source INCREMENTAL (Some (cps ''v2'')) False 20 demo_watermarked)) = FULL \<and>
   live_for 5 (cursors (snd (plan_mode demo_source INCREMENTAL (Some (cps ''v2'')) False 20 demo_watermarked))) = []"
proof -
  have u: "cursors_unique (cursors demo_watermarked)" by (simp add: cursors_unique_def)
  have l: "live_for (src_id demo_source) (cursors demo_watermarked) = [demo_cursor]"
    by (simp add: live_for_def demo_source_def demo_cursor_def)
  have t: "trusted demo_source (Some (cps ''v1'')) False 20 demo_cursor"
      "\<not> trusted demo_source (Some (cps ''v2'')) False 20 demo_cursor"
    by (simp_all add: trusted_def demo_source_def demo_cursor_def DAY_def cps_def)
  obtain m1 r1 b1 d1 where p1: "plan_mode demo_source INCREMENTAL (Some (cps ''v1'')) False 20 demo_watermarked = ((m1, r1, b1), d1)"
    by (metis prod.exhaust)
  obtain m2 r2 b2 d2 where p2: "plan_mode demo_source INCREMENTAL (Some (cps ''v2'')) False 20 demo_watermarked = ((m2, r2, b2), d2)"
    by (metis prod.exhaust)
  have "m1 = INCREMENTAL" using incremental_only_from_trusted_watermarks [OF p1 u] l t(1) by simp
  moreover have "m2 \<noteq> INCREMENTAL" using incremental_only_from_trusted_watermarks [OF p2 u] l t(2) by simp
  moreover have "live_for 5 (cursors d2) = []"
    using incremental_only_from_trusted_watermarks [OF p2 u] \<open>m2 \<noteq> INCREMENTAL\<close> by (simp add: demo_source_def)
  ultimately show ?thesis unfolding p1 p2 by (cases m2) simp_all
qed

text \<open>
  Looking a scope up among the live positions of a source, and what storing one proposal does to
  that lookup.
\<close>

definition live_position :: "nat \<Rightarrow> source_cursor list \<Rightarrow> pystr \<Rightarrow> jdict option" where
  "live_position sid rows scope =
     map_of (map (\<lambda>c. (cur_scope c, cur_position c)) (live_for sid rows)) scope"

lemma positions_for_scan_lookup:
  assumes "cursors_unique (cursors d)" and "s_mode s = INCREMENTAL"
  shows "map_of (positions_for_scan d s) scope = live_position (s_source_id s) (cursors d) scope"
  by (simp add: positions_for_scan_def assms(2) active_cursors_live [OF assms(1)] live_position_def comp_def)

lemma mint_cursor_simps [simp]:
  "cur_source_id (mint_cursor s q now c) = cur_source_id c" "cur_scope (mint_cursor s q now c) = cur_scope c"
  "cursor_key (mint_cursor s q now c) = cursor_key c" "cur_position (mint_cursor s q now c) = q"
  "cur_invalidated_at (mint_cursor s q now c) = None"
  by (simp_all add: mint_cursor_def cursor_key_def)

lemma live_position_update:
  "list_ex (\<lambda>c. cur_source_id c = s_source_id s \<and> cur_scope c = sc) rows \<Longrightarrow>
   live_position (s_source_id s)
     (update_where (\<lambda>c. cur_source_id c = s_source_id s \<and> cur_scope c = sc) (mint_cursor s q now) rows) scope =
   (if scope = sc then Some q else live_position (s_source_id s) rows scope)"
proof (induction rows)
  case (Cons c rows)
  have rest: "live_position (s_source_id s)
      (update_where (\<lambda>c. cur_source_id c = s_source_id s \<and> cur_scope c = sc) (mint_cursor s q now) rows) scope =
      live_position (s_source_id s) rows scope"
    if "scope \<noteq> sc" for rows
    using that by (induction rows) (auto simp: live_position_def live_for_def)
  show ?case
  proof (cases "cur_source_id c = s_source_id s \<and> cur_scope c = sc")
    case True
    then show ?thesis using rest [of rows] by (auto simp: live_position_def live_for_def)
  next
    case False
    then have "list_ex (\<lambda>c. cur_source_id c = s_source_id s \<and> cur_scope c = sc) rows"
      using Cons.prems by auto
    with Cons.IH False show ?thesis by (auto simp: live_position_def live_for_def)
  qed
qed simp

lemma store_cursor_lookup:
  "live_position (s_source_id s) (store_cursor s now pr rows) scope =
     (if scope = fst pr then Some (snd pr) else live_position (s_source_id s) rows scope)"
proof (cases "list_ex (\<lambda>c. cur_source_id c = s_source_id s \<and> cur_scope c = fst pr) rows")
  case True
  then show ?thesis using live_position_update [OF True] by (simp add: store_cursor_def Let_def)
next
  case False
  then have "map_of (map (\<lambda>c. (cur_scope c, cur_position c)) (live_for (s_source_id s) rows)) (fst pr) = None"
    by (auto simp: map_of_eq_None_iff live_for_def list_ex_iff)
  with False show ?thesis
    by (simp add: store_cursor_def Let_def live_position_def live_for_def new_cursor_def map_add_def split: option.splits)
qed

lemma store_cursor_unique: "cursors_unique rows \<Longrightarrow> cursors_unique (store_cursor s now pr rows)"
  by (auto simp: cursors_unique_def store_cursor_def Let_def map_update_where new_cursor_def cursor_key_def list_ex_iff
      cong: map_cong)

lemma store_proposals_lookup:
  "live_position (s_source_id s) (fold (store_cursor s now) prs rows) scope =
     (case map_of (rev prs) scope of Some q \<Rightarrow> Some q | None \<Rightarrow> live_position (s_source_id s) rows scope)"
  by (induction prs arbitrary: rows)
     (auto simp: store_cursor_lookup map_add_def split: option.splits)

lemma store_proposals_unique: "cursors_unique rows \<Longrightarrow> cursors_unique (fold (store_cursor s now) prs rows)"
  by (induction prs arbitrary: rows) (simp_all add: store_cursor_unique)

text \<open>
  C20.  Round trip of a watermark.  After a scan has stored its tasks' proposals, the next
  incremental scan of the source is handed, for every scope, what the last completed task that
  proposed one for it yields, and for every other scope what it would have been handed before.  What is
  stored and handed back is one flat dictionary, the proposal's version with the keys of its position
  beside it, a \<open>version\<close> key of the position replacing the former: not the nested
  \<open>version\<close> and \<open>position\<close> the model's comment describes, and not the position verbatim.
  The table keeps one row per source and scope, although a retired row is revived rather than a second
  one inserted.  A full scan is handed nothing.
\<close>

theorem committed_watermarks_are_handed_back:
  assumes "cursors_unique (cursors d)" and "s_source_id s' = s_source_id s" and "s_mode s' = INCREMENTAL"
  shows "cursors_unique (cursors (snd (commit_proposals py_str s ts now d))) \<and>
    map_of (positions_for_scan (snd (commit_proposals py_str s ts now d)) s') scope =
      (case map_of (rev (List.map_filter (task_proposal py_str) ts)) scope of
         Some position \<Rightarrow> Some position
       | None \<Rightarrow> map_of (positions_for_scan d s') scope) \<and>
    positions_for_scan (snd (commit_proposals py_str s ts now d)) (s'\<lparr>s_mode := FULL\<rparr>) = []"
proof -
  let ?d = "snd (commit_proposals py_str s ts now d)"
  have c: "cursors ?d = fold (store_cursor s now) (List.map_filter (task_proposal py_str) ts) (cursors d)"
    by (simp add: commit_proposals_def Let_def)
  have u: "cursors_unique (cursors ?d)" unfolding c by (rule store_proposals_unique [OF assms(1)])
  show ?thesis
    using u positions_for_scan_lookup [OF u assms(3)] positions_for_scan_lookup [OF assms(1,3)]
    by (auto simp: c assms(2) store_proposals_lookup positions_for_scan_def split: option.splits)
qed

definition demo_proposing :: scan_task where
  "demo_proposing = demo_task\<lparr>t_cursor_proposal :=
     [(cps ''scope'', JStr (cps ''ENG'')), (cps ''version'', JStr (cps ''1'')),
      (cps ''position'', JObj [(cps ''since'', JInt 42)])]\<rparr>"

theorem committed_watermarks_are_handed_back_witness:
  "map_of (positions_for_scan
      (snd (commit_proposals (\<lambda>_. []) demo_scan [demo_proposing] 30
        (demo_watermarked\<lparr>cursors := [demo_cursor\<lparr>cur_invalidated_at := Some 20\<rparr>]\<rparr>)))
      (demo_scan\<lparr>s_mode := INCREMENTAL\<rparr>)) (cps ''ENG'') =
   Some [(cps ''version'', JStr (cps ''1'')), (cps ''since'', JInt 42)]"
proof -
  let ?d = "demo_watermarked\<lparr>cursors := [demo_cursor\<lparr>cur_invalidated_at := Some 20\<rparr>]\<rparr>"
  have pr: "List.map_filter (task_proposal (\<lambda>_. [])) [demo_proposing] =
      [(cps ''ENG'', [(cps ''version'', JStr (cps ''1'')), (cps ''since'', JInt 42)])]"
    by code_simp
  have u: "cursors_unique (cursors ?d)" by (simp add: cursors_unique_def)
  show ?thesis
    using committed_watermarks_are_handed_back [OF u, of "demo_scan\<lparr>s_mode := INCREMENTAL\<rparr>" demo_scan
        "\<lambda>_. []" "[demo_proposing]" 30 "cps ''ENG''", unfolded pr]
    by simp
qed

end
