(* ===== verification/Manifest.thy ===== *)
theory Manifest
  imports Iceberg_Models
begin

text \<open>
  The coverage manifest, the second half of \<^verbatim>\<open>apps/api/src/iceberg_api/scans/coverage.py\<close>:
  \<open>build_manifest\<close> folds the reports of a scan's tasks into one allowlisted record, and
  \<open>_coverage_state\<close> decides whether that record is evidence that the whole source was read.  The
  loop body is \<open>manifest_step\<close> on the record of the loop's local variables.
\<close>

section \<open>The loop\<close>

record manifest_acc =
  a_counts :: coverage_counts
  a_reasons :: "reason_key counter"
  a_gaps :: "coverage_manifest_gap list"
  a_gaps_omitted :: nat
  a_reported :: nat
  a_unreported :: nat
  a_discovery_requested :: nat
  a_discovery_requested_known :: bool
  a_scope_discovered :: nat
  a_scope_gaps :: nat
  a_fetch_scope_gap :: bool

definition zero_counts :: coverage_counts where
  "zero_counts = \<lparr>cc_requested = 0, cc_discovered = 0, cc_scanned = 0, cc_skipped = 0, cc_failed = 0\<rparr>"

definition acc_start :: manifest_acc where
  "acc_start =
     \<lparr>a_counts = zero_counts, a_reasons = [], a_gaps = [], a_gaps_omitted = 0, a_reported = 0,
      a_unreported = 0, a_discovery_requested = 0, a_discovery_requested_known = True,
      a_scope_discovered = 0, a_scope_gaps = 0, a_fetch_scope_gap = False\<rparr>"

definition step_unreported :: "scan_task \<Rightarrow> manifest_acc \<Rightarrow> manifest_acc" where
  "step_unreported t a =
     a\<lparr>a_unreported := a_unreported a + 1,
       a_scope_gaps := a_scope_gaps a + 1,
       a_gaps_omitted := a_gaps_omitted a + 1,
       a_reasons := counter_add (SCOPE_GAP, UNREPORTED) 1 (a_reasons a),
       a_discovery_requested_known := a_discovery_requested_known a \<and> t_kind t \<noteq> DISCOVERY,
       a_fetch_scope_gap := a_fetch_scope_gap a \<or> t_kind t \<noteq> DISCOVERY\<rparr>"

definition step_reported :: "scan_task \<Rightarrow> task_coverage_report \<Rightarrow> manifest_acc \<Rightarrow> manifest_acc" where
  "step_reported t r a =
     (let retained = take (MAX_COVERAGE_GAP_REFERENCES - length (a_gaps a)) (tc_gaps r) in
      a\<lparr>a_reported := a_reported a + 1,
        a_counts := add_counts (a_counts a) (tc_counts r),
        a_scope_discovered := a_scope_discovered a + cs_discovered (tc_scope r),
        a_scope_gaps := a_scope_gaps a + cs_gaps (tc_scope r),
        a_gaps_omitted :=
          a_gaps_omitted a + tc_gaps_omitted r + (length (tc_gaps r) - length retained),
        a_discovery_requested_known :=
          a_discovery_requested_known a \<and> \<not> (t_kind t = DISCOVERY \<and> cs_requested (tc_scope r) = None),
        a_discovery_requested :=
          (if t_kind t = DISCOVERY
           then (case cs_requested (tc_scope r) of None \<Rightarrow> a_discovery_requested a
                 | Some n \<Rightarrow> a_discovery_requested a + n)
           else a_discovery_requested a),
        a_fetch_scope_gap :=
          a_fetch_scope_gap a \<or> (t_kind t \<noteq> DISCOVERY \<and> cs_gaps (tc_scope r) \<noteq> 0),
        a_reasons := count_reasons (tc_reasons r) (a_reasons a),
        a_gaps := a_gaps a @
          map (\<lambda>g. \<lparr>mg_task_id = t_id t, mg_phase = tc_phase r, mg_gap = g\<rparr>) retained\<rparr>)"

definition manifest_step :: "scan_task \<Rightarrow> manifest_acc \<Rightarrow> manifest_acc" where
  "manifest_step t a =
     (case validated_report (t_kind t) (t_coverage t) of
        None \<Rightarrow> step_unreported t a
      | Some r \<Rightarrow> step_reported t r a)"

definition ordered_tasks :: "scan_task list \<Rightarrow> scan_task list" where
  "ordered_tasks ts = sort_key (\<lambda>t. (t_created_at t, t_id t)) ts"

definition manifest_acc_of :: "scan_task list \<Rightarrow> manifest_acc" where
  "manifest_acc_of ts = fold manifest_step (ordered_tasks ts) acc_start"

section \<open>The manifest\<close>

definition coverage_state_of :: "scan_status \<Rightarrow> nat \<Rightarrow> nat \<Rightarrow> nat \<Rightarrow> nat \<Rightarrow> coverage_state" where
  "coverage_state_of status skipped failed scope_gaps unreported =
     (if status = SCAN_CANCELLED then COV_CANCELLED
      else if status = SCAN_FAILED then COV_FAILED
      else if status = SCAN_PARTIAL then COV_PARTIAL
      else if skipped \<noteq> 0 \<or> failed \<noteq> 0 \<or> scope_gaps \<noteq> 0 \<or> unreported \<noteq> 0 then COV_PARTIAL
      else COV_COMPLETE)"

definition requested_scope :: "manifest_acc \<Rightarrow> nat option" where
  "requested_scope a =
     (if a_discovery_requested_known a \<and> \<not> a_fetch_scope_gap a \<and>
         a_discovery_requested a = a_scope_discovered a + a_scope_gaps a
      then Some (a_discovery_requested a) else None)"

definition task_count :: "scan_task_status \<Rightarrow> scan_task list \<Rightarrow> nat" where
  "task_count st ts = length (filter (\<lambda>t. t_status t = st) ts)"

definition manifest_of :: "scan \<Rightarrow> scan_task list \<Rightarrow> coverage_manifest" where
  "manifest_of s ts =
     (let a = manifest_acc_of ts in
      \<lparr>m_scan_id = s_id s,
       m_source_id = s_source_id s,
       m_scan_status = s_status s,
       m_coverage_state =
         coverage_state_of (s_status s) (cc_skipped (a_counts a)) (cc_failed (a_counts a))
           (a_scope_gaps a) (a_unreported a),
       m_source_configuration_version = s_source_configuration_version s,
       m_rulepack_version = s_rulepack_version s,
       m_finalized_at = (case s_finished_at s of Some t \<Rightarrow> t | None \<Rightarrow> s_updated_at s),
       m_counts = a_counts a,
       m_scope = \<lparr>cs_requested = requested_scope a, cs_discovered = a_scope_discovered a,
                  cs_gaps = a_scope_gaps a\<rparr>,
       m_reasons = reason_counts (a_reasons a),
       m_task_counts =
         \<lparr>ct_total = length ts, ct_completed = task_count TASK_COMPLETED ts,
          ct_failed = task_count TASK_FAILED ts, ct_cancelled = task_count TASK_CANCELLED ts,
          ct_reported = a_reported a, ct_unreported = a_unreported a\<rparr>,
       m_gaps = a_gaps a,
       m_gaps_omitted = a_gaps_omitted a,
       m_scan_mode = s_mode s,
       m_incremental_baseline = s_incremental_baseline_at s,
       m_promoted_from = s_promoted_from s,
       m_promotion_reason = s_promotion_reason s\<rparr>)"

definition valid_manifest :: "coverage_manifest \<Rightarrow> bool" where
  "valid_manifest m \<longleftrightarrow>
     valid_counts (m_counts m) \<and> valid_scope (m_scope m) \<and>
     list_all valid_reason_count (m_reasons m) \<and>
     length (m_gaps m) \<le> MAX_COVERAGE_GAP_REFERENCES \<and>
     list_all (\<lambda>g. is_reference (gap_reference (mg_gap g))) (m_gaps m)"

definition build_manifest :: "scan \<Rightarrow> scan_task list \<Rightarrow> py_error + coverage_manifest" where
  "build_manifest s ts =
     (let m = manifest_of s ts in
      if valid_manifest m then Inr m else Inl (ValueError ''ValidationError''))"

definition frozen_or_built_manifest :: "scan \<Rightarrow> scan_task list \<Rightarrow> py_error + coverage_manifest" where
  "frozen_or_built_manifest s ts =
     (case s_coverage_manifest s of
        StoredManifest m \<Rightarrow> if valid_manifest m then Inr m else build_manifest s ts
      | _ \<Rightarrow> build_manifest s ts)"

section \<open>The loop invariant\<close>

text \<open>What every iteration keeps: the totals reconcile and the counter's keys are legal.\<close>

definition acc_ok :: "manifest_acc \<Rightarrow> bool" where
  "acc_ok a \<longleftrightarrow>
     valid_counts (a_counts a) \<and>
     distinct (map fst (a_reasons a)) \<and>
     (\<forall>x \<in> set (a_reasons a). valid_reason_count (as_reason_count x)) \<and>
     counter_total (\<lambda>k. fst k = SKIPPED) (a_reasons a) = cc_skipped (a_counts a) \<and>
     counter_total (\<lambda>k. fst k = FAILED) (a_reasons a) = cc_failed (a_counts a) \<and>
     counter_total (\<lambda>k. fst k = SCOPE_GAP) (a_reasons a) = a_scope_gaps a \<and>
     length (a_gaps a) \<le> MAX_COVERAGE_GAP_REFERENCES \<and>
     (\<forall>g \<in> set (a_gaps a). valid_gap (mg_gap g)) \<and>
     length (a_gaps a) + a_gaps_omitted a =
       cc_skipped (a_counts a) + cc_failed (a_counts a) + a_scope_gaps a"

lemma set_AList_update: "x \<in> set (AList.update k v c) \<Longrightarrow> x = (k, v) \<or> x \<in> set c"
  by (induction c) (auto split: if_splits)

lemma counter_add_valid:
  assumes "\<forall>x \<in> set c. valid_reason_count (as_reason_count x)"
    and "n > 0" and "coverage_reason_allowed (fst k) (snd k)"
  shows "\<forall>x \<in> set (counter_add k n c). valid_reason_count (as_reason_count x)"
proof
  fix x
  assume "x \<in> set (counter_add k n c)"
  then have "x = (k, counter_get c k + n) \<or> x \<in> set c"
    unfolding counter_add_def by (rule set_AList_update)
  then show "valid_reason_count (as_reason_count x)"
    using assms by (auto simp: valid_reason_count_def)
qed

lemma count_reasons_valid:
  assumes "\<forall>x \<in> set c. valid_reason_count (as_reason_count x)" and "list_all valid_reason_count es"
  shows "\<forall>x \<in> set (count_reasons es c). valid_reason_count (as_reason_count x)"
  using assms
proof (induction es arbitrary: c)
  case Nil
  then show ?case by (simp add: count_reasons_def)
next
  case (Cons e es)
  have "\<forall>x \<in> set (counter_add (reason_key e) (rc_count e) c). valid_reason_count (as_reason_count x)"
    using Cons.prems by (intro counter_add_valid) (simp_all add: valid_reason_count_def reason_key_def)
  from Cons.IH [OF this] Cons.prems show ?case by (simp add: count_reasons_def)
qed

lemma acc_ok_start: "acc_ok acc_start"
  by (simp add: acc_ok_def acc_start_def zero_counts_def valid_counts_def counter_total_def)

lemma acc_ok_unreported:
  assumes "acc_ok a"
  shows "acc_ok (step_unreported t a)"
proof -
  have "\<forall>x \<in> set (counter_add (SCOPE_GAP, UNREPORTED) 1 (a_reasons a)). valid_reason_count (as_reason_count x)"
    using assms by (intro counter_add_valid) (simp_all add: acc_ok_def coverage_reason_allowed_def)
  then show ?thesis using assms by (simp add: acc_ok_def step_unreported_def)
qed

lemma acc_ok_reported:
  assumes a: "acc_ok a" and r: "valid_report r"
  shows "acc_ok (step_reported t r a)"
proof -
  have tot: "counter_total (\<lambda>k. fst k = d) (count_reasons (tc_reasons r) (a_reasons a)) =
      counter_total (\<lambda>k. fst k = d) (a_reasons a) + outcome_total (tc_reasons r) d" for d
    using a by (simp add: acc_ok_def count_reasons_props(4) outcome_total_alt reason_key_def)
  have "\<forall>x \<in> set (count_reasons (tc_reasons r) (a_reasons a)). valid_reason_count (as_reason_count x)"
    using a r by (intro count_reasons_valid) (simp_all add: acc_ok_def valid_report_def)
  moreover have "distinct (map fst (count_reasons (tc_reasons r) (a_reasons a)))"
    using a by (simp add: acc_ok_def count_reasons_props(1))
  moreover have "valid_counts (add_counts (a_counts a) (tc_counts r))"
    using a r by (simp add: acc_ok_def valid_report_def valid_counts_def add_counts_def)
  moreover have "\<forall>g \<in> set (a_gaps (step_reported t r a)). valid_gap (mg_gap g)"
    using a r by (auto simp: acc_ok_def valid_report_def step_reported_def Let_def list_all_iff
        dest!: in_set_takeD)
  ultimately show ?thesis
    using a r by (simp add: acc_ok_def step_reported_def Let_def tot add_counts_def valid_report_def
        reconciles_iff min_def) linarith
qed

lemma acc_ok_step: "acc_ok a \<Longrightarrow> acc_ok (manifest_step t a)"
  by (auto simp: manifest_step_def validated_report_Some acc_ok_unreported acc_ok_reported split: option.splits)

lemma acc_ok_fold: "acc_ok a \<Longrightarrow> acc_ok (fold manifest_step ts a)"
  by (induction ts arbitrary: a) (simp_all add: acc_ok_step)

lemma acc_ok_manifest: "acc_ok (manifest_acc_of ts)"
  by (simp add: manifest_acc_of_def acc_ok_fold acc_ok_start)

lemma build_manifest_Inr: "build_manifest s ts = Inr (manifest_of s ts)"
proof -
  have "acc_ok (manifest_acc_of ts)" by (rule acc_ok_manifest)
  then have "valid_manifest (manifest_of s ts)"
    by (auto simp: valid_manifest_def manifest_of_def Let_def acc_ok_def list_all_iff valid_gap_def
        valid_scope_def requested_scope_def)
  then show ?thesis by (simp add: build_manifest_def)
qed

section \<open>What completeness means\<close>

text \<open>A task's report as evidence: it was made, for the task's own phase, and misses nothing.\<close>

definition fully_covered :: "scan_task \<Rightarrow> bool" where
  "fully_covered t \<longleftrightarrow>
     (case validated_report (t_kind t) (t_coverage t) of
        None \<Rightarrow> False
      | Some r \<Rightarrow> cc_skipped (tc_counts r) = 0 \<and> cc_failed (tc_counts r) = 0 \<and> cs_gaps (tc_scope r) = 0)"

definition acc_clean :: "manifest_acc \<Rightarrow> bool" where
  "acc_clean a \<longleftrightarrow>
     cc_skipped (a_counts a) = 0 \<and> cc_failed (a_counts a) = 0 \<and> a_scope_gaps a = 0 \<and> a_unreported a = 0"

lemma acc_clean_step: "acc_clean (manifest_step t a) \<longleftrightarrow> acc_clean a \<and> fully_covered t"
  by (auto simp: manifest_step_def acc_clean_def fully_covered_def step_unreported_def
      step_reported_def Let_def add_counts_def split: option.splits)

lemma acc_clean_fold: "acc_clean (fold manifest_step ts a) \<longleftrightarrow> acc_clean a \<and> (\<forall>t \<in> set ts. fully_covered t)"
  by (induction ts arbitrary: a) (auto simp: acc_clean_step)

lemma acc_clean_manifest: "acc_clean (manifest_acc_of ts) \<longleftrightarrow> (\<forall>t \<in> set ts. fully_covered t)"
  by (simp add: manifest_acc_of_def acc_clean_fold ordered_tasks_def)
     (simp add: acc_clean_def acc_start_def zero_counts_def)

lemma manifest_complete_iff:
  "m_coverage_state (manifest_of s ts) = COV_COMPLETE \<longleftrightarrow>
     s_status s \<notin> {SCAN_CANCELLED, SCAN_FAILED, SCAN_PARTIAL} \<and> (\<forall>t \<in> set ts. fully_covered t)"
  unfolding acc_clean_manifest [symmetric]
  by (auto simp: manifest_of_def Let_def coverage_state_of_def acc_clean_def)

section \<open>Properties\<close>

text \<open>
  C8.  The manifest of a scan is a sound and reconciled summary for any task rows whatever,
  including rows of old engines and corrupt ones: building it never raises, its objects
  reconcile, its reason subtotals add up to the skipped, failed and gap totals it states, every
  uninspected object is either referenced or counted as omitted, and it claims complete coverage
  exactly when the scan did not end cancelled, failed or partial and every one of its tasks
  reported for its own phase with nothing skipped, failed or missing.
\<close>

theorem manifest_claims_completeness_only_on_evidence:
  "\<exists>m. build_manifest s ts = Inr m \<and> valid_manifest m \<and>
     outcome_total (m_reasons m) SKIPPED = cc_skipped (m_counts m) \<and>
     outcome_total (m_reasons m) FAILED = cc_failed (m_counts m) \<and>
     outcome_total (m_reasons m) SCOPE_GAP = cs_gaps (m_scope m) \<and>
     length (m_gaps m) + m_gaps_omitted m =
       cc_skipped (m_counts m) + cc_failed (m_counts m) + cs_gaps (m_scope m) \<and>
     (m_coverage_state m = COV_COMPLETE) =
       (s_status s \<notin> {SCAN_CANCELLED, SCAN_FAILED, SCAN_PARTIAL} \<and> list_all fully_covered ts)"
proof -
  have a: "acc_ok (manifest_acc_of ts)" by (rule acc_ok_manifest)
  have v: "valid_manifest (manifest_of s ts)"
    using build_manifest_Inr [of s ts] by (simp add: build_manifest_def Let_def split: if_splits)
  show ?thesis
    using a v manifest_complete_iff [of s ts] build_manifest_Inr [of s ts]
    by (simp add: manifest_of_def Let_def acc_ok_def list_all_iff)
qed

end
