(* ===== verification/Notifications.thy ===== *)
theory Notifications
  imports Ownership
begin

text \<open>
  Announcements, \<^verbatim>\<open>apps/api/src/iceberg_api/notifications/dispatch.py\<close>: the outbox rows a finished scan
  writes, the escalation of overdue findings, and the delivery loop with its retries.

  A channel's event filter is its parsed form.  Building a message and handing it to a transport is
  outside the model: \<open>send\<close> gives the outcome of the attempt, an arbitrary function of the row (its
  attempt counter included) and of the time.  Rows that the SQL orders only by a timestamp keep
  their insertion order among equals.
\<close>

section \<open>The outbox and its indexes\<close>

definition same_announcement :: "notification_delivery \<Rightarrow> notification_delivery \<Rightarrow> bool" where
  "same_announcement a b \<longleftrightarrow>
     nd_channel_id a = nd_channel_id b \<and> nd_finding_id a = nd_finding_id b \<and>
     nd_scan_id a = nd_scan_id b \<and> nd_scan_id a \<noteq> None"

definition same_escalation :: "notification_delivery \<Rightarrow> notification_delivery \<Rightarrow> bool" where
  "same_escalation a b \<longleftrightarrow>
     nd_kind a = FINDING_OVERDUE \<and> nd_kind b = FINDING_OVERDUE \<and>
     nd_channel_id a = nd_channel_id b \<and> nd_finding_id a = nd_finding_id b \<and>
     nd_due_at a = nd_due_at b \<and> nd_due_at a \<noteq> None"

definition add_delivery :: "notification_delivery \<Rightarrow> db \<Rightarrow> py_error + db" where
  "add_delivery nd d =
     (if list_ex (\<lambda>x. same_announcement nd x \<or> same_escalation nd x) (deliveries d)
      then Inl (IntegrityError ''uq_notification_delivery'')
      else Inr (d\<lparr>deliveries := deliveries d @ [nd]\<rparr>))"

text \<open>Inserting rows one after the other; each draws its id.\<close>

fun add_deliveries :: "(nat \<Rightarrow> notification_delivery) list \<Rightarrow> db \<Rightarrow> py_error + db" where
  "add_deliveries [] d = Inr d"
| "add_deliveries (mk # mks) d =
     (let (i, d') = new_id d in bindE (add_delivery (mk i) d') (add_deliveries mks))"

section \<open>Who wants to hear\<close>

definition newly_opened_findings :: "db \<Rightarrow> scan \<Rightarrow> finding list" where
  "newly_opened_findings d s =
     (let first_seen = filter (\<lambda>f. f_first_seen_scan_id f = s_id s \<and> f_state f = OPEN \<and> f_suppressed_at f = None)
                         (findings d);
          reopened = filter (\<lambda>f. f_last_seen_scan_id f = s_id s \<and> f_state f = OPEN \<and> f_suppressed_at f = None \<and>
                         list_ex (\<lambda>e. ev_finding_id e = f_id f \<and> ev_kind e = REOPENED \<and> ev_scan_id e = Some (s_id s))
                           (events d))
                       (findings d)
      in map snd (dict_of (map (\<lambda>f. (f_id f, f)) (first_seen @ reopened))))"

definition channel_wants :: "notification_channel \<Rightarrow> finding \<Rightarrow> bool" where
  "channel_wants ch f =
     (if (case ef_min_severity (ch_event_filter ch) of
            None \<Rightarrow> False | Some m \<Rightarrow> SEVERITY_RANK (f_severity f) < SEVERITY_RANK m) then False
      else \<not> (ef_source_ids (ch_event_filter ch) \<noteq> [] \<and> f_source_id f \<notin> set (ef_source_ids (ch_event_filter ch))))"

definition severities_at_or_above :: "severity \<Rightarrow> severity list" where
  "severities_at_or_above m = filter (\<lambda>l. SEVERITY_RANK l \<ge> SEVERITY_RANK m) [LOW, MEDIUM, HIGH, CRITICAL]"

text \<open>The same filter as the conjunction of SQL clauses.\<close>

definition wanted_by :: "notification_channel \<Rightarrow> finding \<Rightarrow> bool" where
  "wanted_by ch f =
     list_all (\<lambda>clause. clause f)
       ((case ef_min_severity (ch_event_filter ch) of
           None \<Rightarrow> [] | Some m \<Rightarrow> [\<lambda>g. f_severity g \<in> set (severities_at_or_above m)]) @
        (if ef_source_ids (ch_event_filter ch) = [] then []
         else [\<lambda>g. f_source_id g \<in> set (ef_source_ids (ch_event_filter ch))]))"

definition has_escalation_target :: "notification_channel list \<Rightarrow> owner_group list \<Rightarrow> finding \<Rightarrow> bool" where
  "has_escalation_target chs groups f =
     (let targeted = map og_id (filter (\<lambda>g. \<not> og_disabled g \<and>
            og_notification_channel_id g \<in> Some ` set (map ch_id chs)) groups);
          disbanded = map og_id (filter og_disabled groups);
          broadcast = list_ex (\<lambda>ch. wanted_by ch f) chs
      in (case f_owner_group_id f of None \<Rightarrow> False | Some g \<Rightarrow> g \<in> set targeted) \<or>
         (case f_owner_group_id f of None \<Rightarrow> True | Some g \<Rightarrow> g \<in> set disbanded) \<and> broadcast)"

definition escalation_targets ::
  "finding \<Rightarrow> owner_group option \<Rightarrow> notification_channel list \<Rightarrow> notification_channel list" where
  "escalation_targets f grp chs =
     (case grp of
        Some g \<Rightarrow>
          if \<not> og_disabled g
          then (case og_notification_channel_id g of
                  None \<Rightarrow> []
                | Some i \<Rightarrow> (case get_row ch_id i chs of None \<Rightarrow> [] | Some ch \<Rightarrow> [ch]))
          else filter (\<lambda>ch. channel_wants ch f) chs
      | None \<Rightarrow> filter (\<lambda>ch. channel_wants ch f) chs)"

section \<open>Writing the outbox\<close>

definition opened_delivery :: "nat \<Rightarrow> nat \<Rightarrow> nat \<Rightarrow> int \<Rightarrow> nat \<Rightarrow> notification_delivery" where
  "opened_delivery channel finding scan now i =
     \<lparr>nd_id = i, nd_channel_id = channel, nd_finding_id = finding, nd_kind = FINDING_OPENED,
      nd_scan_id = Some scan, nd_due_at = None, nd_status = PENDING, nd_attempts = 0,
      nd_next_attempt_at = now, nd_delivered_at = None, nd_last_error = None\<rparr>"

text \<open>One (finding, channel) pair of the nested loops of \<open>enqueue_for_scan\<close>.\<close>

definition enqueue_one :: "scan \<Rightarrow> int \<Rightarrow> finding \<times> notification_channel \<Rightarrow> nat \<times> db \<Rightarrow> py_error + nat \<times> db" where
  "enqueue_one s now fc nd =
     (case (fc, nd) of ((f, ch), (n, d)) \<Rightarrow>
        if \<not> channel_wants ch f then Inr (n, d)
        else if list_ex (\<lambda>x. nd_channel_id x = ch_id ch \<and> nd_finding_id x = f_id f \<and> nd_scan_id x = Some (s_id s))
                  (deliveries d) then Inr (n, d)
        else bindE (add_deliveries [opened_delivery (ch_id ch) (f_id f) (s_id s) now] d) (\<lambda>d'. Inr (n + 1, d')))"

fun enqueue_all :: "scan \<Rightarrow> int \<Rightarrow> (finding \<times> notification_channel) list \<Rightarrow> nat \<times> db \<Rightarrow> py_error + nat \<times> db" where
  "enqueue_all s now [] nd = Inr nd"
| "enqueue_all s now (fc # fcs) nd = bindE (enqueue_one s now fc nd) (enqueue_all s now fcs)"

definition enqueue_for_scan :: "scan \<Rightarrow> int \<Rightarrow> db \<Rightarrow> py_error + nat \<times> db" where
  "enqueue_for_scan s now d =
     (let chs = filter ch_enabled (channels d) in
      if chs = [] then Inr (0, d)
      else
        let fs = newly_opened_findings d s in
        if fs = [] then Inr (0, d)
        else enqueue_all s now (concat (map (\<lambda>f. map (Pair f) chs) fs)) (0, d))"

definition overdue_delivery :: "finding \<Rightarrow> int \<Rightarrow> notification_channel \<Rightarrow> nat \<Rightarrow> notification_delivery" where
  "overdue_delivery f now ch i =
     \<lparr>nd_id = i, nd_channel_id = ch_id ch, nd_finding_id = f_id f, nd_kind = FINDING_OVERDUE,
      nd_scan_id = None, nd_due_at = f_due_at f, nd_status = PENDING, nd_attempts = 0,
      nd_next_attempt_at = now, nd_delivered_at = None, nd_last_error = None\<rparr>"

definition escalated :: "db \<Rightarrow> finding \<Rightarrow> bool" where
  "escalated d f \<longleftrightarrow>
     list_ex (\<lambda>x. nd_kind x = FINDING_OVERDUE \<and> nd_finding_id x = f_id f \<and>
                  nd_due_at x = f_due_at f \<and> f_due_at f \<noteq> None) (deliveries d)"

text \<open>The query without its order and limit: what is still to be escalated.\<close>

definition escalation_backlog :: "int \<Rightarrow> db \<Rightarrow> finding list" where
  "escalation_backlog now d =
     filter (\<lambda>f. actionable f \<and> (case f_due_at f of None \<Rightarrow> False | Some due \<Rightarrow> due < now) \<and> \<not> escalated d f \<and>
                 has_escalation_target (filter ch_enabled (channels d)) (owner_groups d) f)
       (findings d)"

definition due_key :: "finding \<Rightarrow> int" where
  "due_key f = (case f_due_at f of None \<Rightarrow> 0 | Some due \<Rightarrow> due)"

definition escalate_overdue :: "int \<Rightarrow> nat \<Rightarrow> db \<Rightarrow> py_error + nat \<times> db" where
  "escalate_overdue now limit d =
     (let chs = filter ch_enabled (channels d) in
      if chs = [] then Inr (0, d)
      else
        let page = take limit (sort_key due_key (escalation_backlog now d));
            group_of = (\<lambda>f. case f_owner_group_id f of None \<Rightarrow> None | Some g \<Rightarrow> get_row og_id g (owner_groups d));
            rows = concat (map (\<lambda>f. map (overdue_delivery f now) (escalation_targets f (group_of f) chs)) page)
        in bindE (add_deliveries rows d) (\<lambda>d'. Inr (length rows, d')))"

section \<open>Delivering\<close>

datatype send_outcome = Sent | SendRefused bool pystr | SendCrashed pystr

record delivery_settings =
  notification_max_attempts :: nat
  notification_retry_backoff_seconds :: nat
  notification_batch_size :: nat

definition fail_delivery :: "pystr \<Rightarrow> int \<Rightarrow> notification_delivery \<Rightarrow> notification_delivery" where
  "fail_delivery reason now nd =
     nd\<lparr>nd_status := DELIVERY_FAILED, nd_last_error := Some reason, nd_next_attempt_at := now\<rparr>"

definition SECOND :: int where "SECOND = 1000000"

definition retry_or_fail ::
  "delivery_settings \<Rightarrow> bool \<Rightarrow> pystr \<Rightarrow> int \<Rightarrow> notification_delivery \<Rightarrow> notification_delivery" where
  "retry_or_fail cfg permanent message now nd =
     (if permanent \<or> nd_attempts nd \<ge> notification_max_attempts cfg then fail_delivery message now nd
      else nd\<lparr>nd_next_attempt_at :=
                now + SECOND * int (notification_retry_backoff_seconds cfg * 2 ^ (nd_attempts nd - 1)),
              nd_last_error := Some message\<rparr>)"

fun channel_type_value :: "notification_channel_type \<Rightarrow> pystr" where
  "channel_type_value EMAIL = cps ''email''"
| "channel_type_value WEBHOOK = cps ''webhook''"

type_synonym sender = "notification_delivery \<Rightarrow> int \<Rightarrow> send_outcome"

definition attempt ::
  "delivery_settings \<Rightarrow> (notification_channel_type \<Rightarrow> bool) \<Rightarrow> sender \<Rightarrow> int \<Rightarrow> db \<Rightarrow>
   notification_delivery \<Rightarrow> notification_delivery" where
  "attempt cfg has_transport send now d nd0 =
     (let nd = nd0\<lparr>nd_attempts := nd_attempts nd0 + 1\<rparr>;
          channel = get_row ch_id (nd_channel_id nd) (channels d);
          finding = get_row f_id (nd_finding_id nd) (findings d);
          scan = (case nd_scan_id nd of None \<Rightarrow> None | Some i \<Rightarrow> get_row s_id i (scans d));
          source = (case finding of None \<Rightarrow> None | Some f \<Rightarrow> get_row src_id (f_source_id f) (sources d))
      in case (channel, finding, source) of
           (Some ch, Some f, Some src) \<Rightarrow>
             if scan = None \<and> nd_kind nd \<noteq> FINDING_OVERDUE
             then fail_delivery (cps ''referenced row no longer exists'') now nd
             else if \<not> ch_enabled ch then fail_delivery (cps ''channel disabled before delivery'') now nd
             else if \<not> has_transport (ch_type ch) then fail_delivery (cps ''no transport for channel type '' @ channel_type_value (ch_type ch)) now nd
             else (case send nd now of
                     Sent \<Rightarrow> nd\<lparr>nd_status := DELIVERED, nd_delivered_at := Some now, nd_last_error := None\<rparr>
                   | SendRefused permanent message \<Rightarrow> retry_or_fail cfg permanent message now nd
                   | SendCrashed class \<Rightarrow> retry_or_fail cfg False (cps ''delivery error: '' @ class) now nd)
         | _ \<Rightarrow> fail_delivery (cps ''referenced row no longer exists'') now nd)"

record delivery_outcome =
  do_delivered :: nat
  do_retrying :: nat
  do_failed :: nat

definition tally :: "notification_delivery_status \<Rightarrow> delivery_outcome \<Rightarrow> delivery_outcome" where
  "tally st out =
     (case st of DELIVERED \<Rightarrow> out\<lparr>do_delivered := do_delivered out + 1\<rparr>
      | DELIVERY_FAILED \<Rightarrow> out\<lparr>do_failed := do_failed out + 1\<rparr>
      | PENDING \<Rightarrow> out\<lparr>do_retrying := do_retrying out + 1\<rparr>)"

definition deliver_step ::
  "delivery_settings \<Rightarrow> (notification_channel_type \<Rightarrow> bool) \<Rightarrow> sender \<Rightarrow> int \<Rightarrow>
   notification_delivery \<Rightarrow> delivery_outcome \<times> db \<Rightarrow> delivery_outcome \<times> db" where
  "deliver_step cfg has_transport send now nd od =
     (case od of (out, d) \<Rightarrow>
        let nd' = attempt cfg has_transport send now d nd
        in (tally (nd_status nd') out,
            d\<lparr>deliveries := update_where (\<lambda>x. nd_id x = nd_id nd) (\<lambda>_. nd') (deliveries d)\<rparr>))"

definition due_deliveries :: "delivery_settings \<Rightarrow> int \<Rightarrow> db \<Rightarrow> notification_delivery list" where
  "due_deliveries cfg now d =
     take (notification_batch_size cfg)
       (sort_key nd_next_attempt_at
         (filter (\<lambda>x. nd_status x = PENDING \<and> nd_next_attempt_at x \<le> now) (deliveries d)))"

definition deliver_pending ::
  "delivery_settings \<Rightarrow> (notification_channel_type \<Rightarrow> bool) \<Rightarrow> sender \<Rightarrow> int \<Rightarrow> db \<Rightarrow> delivery_outcome \<times> db" where
  "deliver_pending cfg has_transport send now d =
     fold (deliver_step cfg has_transport send now) (due_deliveries cfg now d)
       (\<lparr>do_delivered = 0, do_retrying = 0, do_failed = 0\<rparr>, d)"

definition pending_count :: "nat option \<Rightarrow> db \<Rightarrow> nat" where
  "pending_count channel d =
     rowcount (\<lambda>x. nd_status x = PENDING \<and> (case channel of None \<Rightarrow> True | Some c \<Rightarrow> nd_channel_id x = c)) (deliveries d)"

section \<open>The two readings of a filter\<close>

lemma wanted_by_channel_wants: "wanted_by ch f \<longleftrightarrow> channel_wants ch f"
  by (cases "f_severity f"; cases "ef_min_severity (ch_event_filter ch)")
     (auto simp: wanted_by_def channel_wants_def severities_at_or_above_def split: if_splits)

definition group_of :: "owner_group list \<Rightarrow> finding \<Rightarrow> owner_group option" where
  "group_of groups f = (case f_owner_group_id f of None \<Rightarrow> None | Some g \<Rightarrow> get_row og_id g groups)"

lemma has_target_iff:
  assumes "distinct (map og_id groups)" and "get_row og_id i groups = Some g" and "f_owner_group_id f = Some i"
  shows "has_escalation_target chs groups f \<longleftrightarrow>
    (if og_disabled g then list_ex (\<lambda>ch. channel_wants ch f) chs
     else og_notification_channel_id g \<in> Some ` ch_id ` set chs)"
proof -
  have g: "g \<in> set groups" "og_id g = i" using get_row_Some [OF assms(2)] by auto
  have u: "x = g" if "x \<in> set groups" "og_id x = i" for x
    using distinct_key_unique [OF assms(1)] that g by blast
  have "i \<in> og_id ` set (filter P groups) \<longleftrightarrow> P g" for P
  proof
    assume "i \<in> og_id ` set (filter P groups)"
    then obtain x where "x \<in> set groups" "P x" "og_id x = i" unfolding set_filter by blast
    then show "P g" using u by simp
  next
    assume "P g"
    then have "g \<in> set (filter P groups)" using g(1) by simp
    then show "i \<in> og_id ` set (filter P groups)" using g(2) by blast
  qed
  then show ?thesis
    by (auto simp: has_escalation_target_def Let_def assms(3) wanted_by_channel_wants simp del: set_filter)
qed

lemma get_row_ch_None: "get_row ch_id i chs = None \<longleftrightarrow> i \<notin> ch_id ` set chs"
  by (rule get_row_None)

lemma query_agrees_with_targets:
  assumes "distinct (map og_id groups)" and "set_option (f_owner_group_id f) \<subseteq> og_id ` set groups"
  shows "has_escalation_target chs groups f \<longleftrightarrow> escalation_targets f (group_of groups f) chs \<noteq> []"
proof (cases "f_owner_group_id f")
  case None
  then show ?thesis
    by (auto simp: has_escalation_target_def Let_def group_of_def escalation_targets_def wanted_by_channel_wants
        list_ex_iff filter_empty_conv)
next
  case (Some i)
  then obtain g where g: "get_row og_id i groups = Some g"
    using assms(2) get_row_None [of og_id i groups] by (cases "get_row og_id i groups") auto
  show ?thesis
    unfolding has_target_iff [OF assms(1) g Some]
    by (auto simp: group_of_def Some g escalation_targets_def list_ex_iff filter_empty_conv image_iff
        get_row_ch_None split: option.splits dest: get_row_Some)
qed

section \<open>Inserting into the outbox\<close>

definition clash :: "notification_delivery \<Rightarrow> notification_delivery \<Rightarrow> bool" where
  "clash a b \<longleftrightarrow> same_announcement a b \<or> same_escalation a b"

lemma add_deliveries_Inr:
  assumes "\<And>mk i x. mk \<in> set mks \<Longrightarrow> x \<in> set (deliveries d) \<Longrightarrow> \<not> clash (mk i) x"
    and "sorted_wrt (\<lambda>a b. \<forall>i j. \<not> clash (b j) (a i)) mks"
  shows "\<exists>ids. length ids = length mks \<and>
    add_deliveries mks d = Inr (d\<lparr>deliveries := deliveries d @ map (\<lambda>(mk, i). mk i) (zip mks ids), drawn := drawn d + length mks\<rparr>)"
  using assms
proof (induction mks arbitrary: d)
  case (Cons mk mks)
  let ?i = "fst (new_id d)" and ?d = "snd (new_id d)"
  let ?e = "?d\<lparr>deliveries := deliveries ?d @ [mk ?i]\<rparr>"
  have nd: "deliveries ?d = deliveries d" by (simp add: new_id_def)
  have "\<not> clash (mk ?i) x" if "x \<in> set (deliveries d)" for x using Cons.prems(1) that by simp
  then have a: "add_delivery (mk ?i) ?d = Inr ?e"
    by (simp add: add_delivery_def nd clash_def list_ex_iff)
  have "\<not> clash (mk' i) x" if "mk' \<in> set mks" "x \<in> set (deliveries ?e)" for mk' i x
    using Cons.prems that by (auto simp: nd)
  then obtain ids where ids: "length ids = length mks"
      "add_deliveries mks ?e = Inr (?e\<lparr>deliveries := deliveries ?e @ map (\<lambda>(mk, i). mk i) (zip mks ids), drawn := drawn ?e + length mks\<rparr>)"
    using Cons.IH [of ?e] Cons.prems(2) by auto
  have "add_deliveries (mk # mks) d = add_deliveries mks ?e"
    using a by (simp add: split_beta)
  then show ?case using ids by (intro exI [of _ "?i # ids"]) (simp add: new_id_def)
qed simp

text \<open>Rows given by pairs of a finding and a channel, no pair twice.\<close>

definition pair_key :: "finding \<times> notification_channel \<Rightarrow> nat \<times> nat" where
  "pair_key p = (f_id (fst p), ch_id (snd p))"

lemma sorted_wrt_pairs:
  assumes "distinct (map pair_key ps)"
    and "\<And>p q i j. clash (mk p i) (mk q j) \<Longrightarrow> pair_key p = pair_key q"
  shows "sorted_wrt (\<lambda>a b. \<forall>i j. \<not> clash (b j) (a i)) (map mk ps)"
  using assms(1)
proof (induction ps)
  case (Cons p ps)
  have "\<not> clash (mk q j) (mk p i)" if "q \<in> set ps" for q i j
    using assms(2) [of q j p i] Cons.prems that by (auto simp: image_iff)
  then show ?case using Cons by auto
qed simp

lemma distinct_pairs:
  assumes "distinct (map f_id fs)" and "\<And>f. distinct (map ch_id (targets f))"
  shows "distinct (map pair_key (concat (map (\<lambda>f. map (Pair f) (targets f)) fs)))"
  using assms(1)
proof (induction fs)
  case (Cons f fs)
  have "distinct (map pair_key (map (Pair f) (targets f)))"
    using assms(2) [of f] by (simp add: pair_key_def comp_def distinct_map inj_on_def)
  moreover have "pair_key (f, x) \<noteq> pair_key (g, y)" if "g \<in> set fs" for x g y
    using Cons.prems that by (auto simp: pair_key_def image_iff)
  ultimately show ?case using Cons by (auto dest: sym)
qed simp

section \<open>The backlog of escalations\<close>

lemma escalation_targets_distinct:
  "distinct (map ch_id chs) \<Longrightarrow> distinct (map ch_id (escalation_targets f g chs))"
  by (auto simp: escalation_targets_def distinct_map_filter split: option.splits)

definition rows_ok :: "db \<Rightarrow> bool" where
  "rows_ok d \<longleftrightarrow> distinct (map f_id (findings d)) \<and> distinct (map ch_id (channels d)) \<and>
     distinct (map og_id (owner_groups d))"

definition escalation_pairs :: "finding list \<Rightarrow> db \<Rightarrow> (finding \<times> notification_channel) list" where
  "escalation_pairs page d =
     concat (map (\<lambda>f. map (Pair f)
       (escalation_targets f (group_of (owner_groups d) f) (filter ch_enabled (channels d)))) page)"

lemma overdue_delivery_simps [simp]:
  "nd_kind (overdue_delivery f now ch i) = FINDING_OVERDUE" "nd_finding_id (overdue_delivery f now ch i) = f_id f"
  "nd_channel_id (overdue_delivery f now ch i) = ch_id ch" "nd_due_at (overdue_delivery f now ch i) = f_due_at f"
  "nd_scan_id (overdue_delivery f now ch i) = None"
  by (simp_all add: overdue_delivery_def)

lemma backlog_has_targets:
  assumes "rows_ok d" and "f \<in> set (escalation_backlog now d)"
  shows "escalation_targets f (group_of (owner_groups d) f) (filter ch_enabled (channels d)) \<noteq> []"
proof -
  have h: "has_escalation_target (filter ch_enabled (channels d)) (owner_groups d) f"
    using assms(2) by (simp add: escalation_backlog_def)
  have og: "distinct (map og_id (owner_groups d))" using assms(1) by (simp add: rows_ok_def)
  have fk: "set_option (f_owner_group_id f) \<subseteq> og_id ` set (owner_groups d)"
    using h by (auto simp: has_escalation_target_def Let_def split: option.splits)
  show ?thesis using query_agrees_with_targets [OF og fk] h by simp
qed

lemma escalate_overdue_effect:
  fixes now :: int and limit :: nat
  assumes "rows_ok d"
  defines "page \<equiv> take limit (sort_key due_key (escalation_backlog now d))"
  shows "\<exists>n d'. escalate_overdue now limit d = Inr (n, d') \<and>
    findings d' = findings d \<and> channels d' = channels d \<and> owner_groups d' = owner_groups d \<and>
    (\<forall>f \<in> set (findings d). escalated d' f \<longleftrightarrow> escalated d f \<or> f \<in> set page)"
proof (cases "filter ch_enabled (channels d) = []")
  case True
  then have "escalation_backlog now d = []"
    by (auto simp: escalation_backlog_def filter_empty_conv has_escalation_target_def Let_def list_ex_iff split: option.splits)
  then show ?thesis using True by (simp add: escalate_overdue_def page_def)
next
  case False
  let ?ps = "escalation_pairs page d"
  let ?mk = "\<lambda>p. overdue_delivery (fst p) now (snd p)"
  have sub: "set page \<subseteq> set (escalation_backlog now d)"
    using set_take_subset [of limit "sort_key due_key (escalation_backlog now d)"] by (simp add: page_def)
  have in_d: "set page \<subseteq> set (findings d)" using sub by (auto simp: escalation_backlog_def)
  have "mset (map f_id (sort_key due_key (escalation_backlog now d))) = mset (map f_id (escalation_backlog now d))" by simp
  moreover have "distinct (map f_id (escalation_backlog now d))"
    using assms(1) unfolding escalation_backlog_def rows_ok_def by (simp only: distinct_map_filter)
  ultimately have "distinct (map f_id (sort_key due_key (escalation_backlog now d)))"
    using mset_eq_imp_distinct_iff by blast
  then have "distinct (map f_id page)" by (simp add: page_def take_map [symmetric])
  then have dist: "distinct (map pair_key ?ps)" unfolding escalation_pairs_def
    using assms(1) by (intro distinct_pairs escalation_targets_distinct) (auto simp: rows_ok_def distinct_map_filter)
  have s: "sorted_wrt (\<lambda>a b. \<forall>i j. \<not> clash (b j) (a i)) (map ?mk ?ps)"
    by (rule sorted_wrt_pairs [OF dist]) (auto simp: clash_def same_announcement_def same_escalation_def pair_key_def)
  have page_in: "fst p \<in> set page" if "p \<in> set ?ps" for p using that by (auto simp: escalation_pairs_def)
  have fresh: "\<not> clash (?mk p i) x" if "p \<in> set ?ps" "x \<in> set (deliveries d)" for p i x
  proof -
    have "\<not> escalated d (fst p)" using page_in [OF that(1)] sub by (auto simp: escalation_backlog_def)
    then show ?thesis using that(2)
      by (auto simp: clash_def same_announcement_def same_escalation_def escalated_def list_ex_iff)
  qed
  obtain ids where ids: "length ids = length (map ?mk ?ps)" "add_deliveries (map ?mk ?ps) d =
      Inr (d\<lparr>deliveries := deliveries d @ map (\<lambda>(mk, i). mk i) (zip (map ?mk ?ps) ids), drawn := drawn d + length (map ?mk ?ps)\<rparr>)"
    using add_deliveries_Inr [OF _ s, of d] fresh by fastforce
  let ?d' = "d\<lparr>deliveries := deliveries d @ map (\<lambda>(mk, i). mk i) (zip (map ?mk ?ps) ids), drawn := drawn d + length (map ?mk ?ps)\<rparr>"
  have rows: "concat (map (\<lambda>f. map (overdue_delivery f now)
      (escalation_targets f (case f_owner_group_id f of None \<Rightarrow> None | Some g \<Rightarrow> get_row og_id g (owner_groups d))
        (filter ch_enabled (channels d)))) page) = map ?mk ?ps"
    by (simp add: escalation_pairs_def map_concat comp_def group_of_def)
  have e: "escalate_overdue now limit d = Inr (length (map ?mk ?ps), ?d')"
    using False ids(2) by (simp add: escalate_overdue_def Let_def page_def [symmetric] rows del: length_map)
  have new: "(\<exists>x \<in> set (map (\<lambda>(mk, i). mk i) (zip (map ?mk ?ps) ids)). nd_kind x = FINDING_OVERDUE \<and>
      nd_finding_id x = f_id f \<and> nd_due_at x = f_due_at f \<and> f_due_at f \<noteq> None) \<longleftrightarrow> f \<in> set page"
    if f: "f \<in> set (findings d)" for f
  proof
    assume "f \<in> set page"
    moreover from this obtain ch where "(f, ch) \<in> set ?ps"
      using backlog_has_targets [OF assms(1), of f now] sub unfolding escalation_pairs_def by (fastforce simp: neq_Nil_conv)
    then obtain k where k: "k < length ?ps" "?ps ! k = (f, ch)" by (auto simp: in_set_conv_nth)
    then have "(overdue_delivery f now ch, ids ! k) \<in> set (zip (map ?mk ?ps) ids)"
      using ids(1) by (auto simp: in_set_zip intro!: exI [of _ k])
    then have "overdue_delivery f now ch (ids ! k) \<in> set (map (\<lambda>(mk, i). mk i) (zip (map ?mk ?ps) ids))"
      by (force simp: image_iff)
    moreover have "f_due_at f \<noteq> None"
      using \<open>f \<in> set page\<close> sub by (cases "f_due_at f") (auto simp: escalation_backlog_def)
    ultimately show "\<exists>x \<in> set (map (\<lambda>(mk, i). mk i) (zip (map ?mk ?ps) ids)). nd_kind x = FINDING_OVERDUE \<and>
      nd_finding_id x = f_id f \<and> nd_due_at x = f_due_at f \<and> f_due_at f \<noteq> None"
      by (intro bexI [of _ "overdue_delivery f now ch (ids ! k)"]) simp_all
  next
    assume "\<exists>x \<in> set (map (\<lambda>(mk, i). mk i) (zip (map ?mk ?ps) ids)). nd_kind x = FINDING_OVERDUE \<and>
      nd_finding_id x = f_id f \<and> nd_due_at x = f_due_at f \<and> f_due_at f \<noteq> None"
    then obtain mk i where "(mk, i) \<in> set (zip (map ?mk ?ps) ids)" "nd_finding_id (mk i) = f_id f" by auto
    then obtain p where "p \<in> set ?ps" "f_id (fst p) = f_id f" by (auto dest!: set_zip_leftD)
    moreover from this have "fst p \<in> set page" using page_in by blast
    ultimately have "fst p = f"
      using distinct_key_unique [of f_id "findings d"] assms(1) f in_d by (auto simp: rows_ok_def)
    then show "f \<in> set page" using \<open>fst p \<in> set page\<close> by simp
  qed
  have esc: "escalated (d\<lparr>deliveries := deliveries d @ R, drawn := m\<rparr>) f \<longleftrightarrow> escalated d f \<or>
      (\<exists>x \<in> set R. nd_kind x = FINDING_OVERDUE \<and> nd_finding_id x = f_id f \<and>
         nd_due_at x = f_due_at f \<and> f_due_at f \<noteq> None)" for R m f
    unfolding escalated_def list_ex_iff by auto
  have "\<forall>f \<in> set (findings d). escalated ?d' f \<longleftrightarrow> escalated d f \<or> f \<in> set page"
    unfolding esc using new by blast
  then show ?thesis
    using e by (intro exI [of _ "length (map ?mk ?ps)"] exI [of _ ?d'] conjI) simp_all
qed

lemma backlog_shrinks:
  assumes "rows_ok d"
  obtains n d' where "escalate_overdue now limit d = Inr (n, d')" "rows_ok d'"
    "findings d' = findings d" "\<And>f. f \<in> set (findings d) \<Longrightarrow> escalated d f \<Longrightarrow> escalated d' f"
    "length (escalation_backlog now d') = length (escalation_backlog now d) - limit"
    "\<And>f. f \<in> set (escalation_backlog now d) \<Longrightarrow> escalated d' f \<or> f \<in> set (escalation_backlog now d')"
proof -
  let ?b = "escalation_backlog now d"
  let ?page = "take limit (sort_key due_key ?b)"
  obtain n d' where d': "escalate_overdue now limit d = Inr (n, d')" "findings d' = findings d"
      "channels d' = channels d" "owner_groups d' = owner_groups d"
      "\<forall>f \<in> set (findings d). escalated d' f \<longleftrightarrow> escalated d f \<or> f \<in> set ?page"
    using escalate_overdue_effect [OF assms, of now limit] by blast
  have b': "escalation_backlog now d' = filter (\<lambda>f. f \<notin> set ?page) ?b"
    using d'(5) unfolding escalation_backlog_def d'(2-4) filter_filter by (intro filter_cong) auto
  have "distinct (findings d)" using assms by (simp add: rows_ok_def distinct_map)
  then have db: "distinct ?b" by (simp add: escalation_backlog_def)
  have "length (filter (\<lambda>f. f \<notin> set ?page) ?b) = card (set (filter (\<lambda>f. f \<notin> set ?page) ?b))"
    by (rule distinct_card [symmetric]) (rule distinct_filter [OF db])
  also have "set (filter (\<lambda>f. f \<notin> set ?page) ?b) = set ?b - set ?page" unfolding set_filter by blast
  also have "card (set ?b - set ?page) = card (set ?b) - card (set ?page)"
    using set_take_subset [of limit "sort_key due_key ?b"] by (intro card_Diff_subset) auto
  also have "card (set ?b) = length ?b" using db by (simp add: distinct_card)
  also have "card (set ?page) = min limit (length ?b)"
    using db distinct_card [of ?page] by simp
  finally have len: "length (escalation_backlog now d') = length ?b - limit" by (simp add: b' min_def)
  show thesis
  proof (rule that [OF d'(1)])
    show "rows_ok d'" using assms by (simp add: rows_ok_def d'(2-4))
    show "findings d' = findings d" by (rule d'(2))
    show "escalated d' f" if "f \<in> set (findings d)" "escalated d f" for f using d'(5) that by blast
    show "length (escalation_backlog now d') = length ?b - limit" by (rule len)
    show "escalated d' f \<or> f \<in> set (escalation_backlog now d')" if "f \<in> set ?b" for f
    proof (cases "f \<in> set ?page")
      case True
      moreover have "f \<in> set (findings d)" using that by (simp add: escalation_backlog_def)
      ultimately show ?thesis using d'(5) by blast
    next
      case False
      then show ?thesis using that unfolding b' set_filter by blast
    qed
  qed
qed

fun escalate_times :: "nat \<Rightarrow> int \<Rightarrow> nat \<Rightarrow> db \<Rightarrow> py_error + db" where
  "escalate_times 0 now limit d = Inr d"
| "escalate_times (Suc n) now limit d = bindE (escalate_overdue now limit d) (\<lambda>(_, d'). escalate_times n now limit d')"

lemma escalate_times_effect:
  assumes "rows_ok d" and "length (escalation_backlog now d) \<le> n * limit"
  shows "\<exists>d'. escalate_times n now limit d = Inr d' \<and> escalation_backlog now d' = [] \<and>
    (\<forall>f \<in> set (findings d). escalated d f \<or> f \<in> set (escalation_backlog now d) \<longrightarrow> escalated d' f)"
  using assms
proof (induction n arbitrary: d)
  case (Suc n)
  obtain m d1 where d1: "escalate_overdue now limit d = Inr (m, d1)" "rows_ok d1" "findings d1 = findings d"
    "\<And>f. f \<in> set (findings d) \<Longrightarrow> escalated d f \<Longrightarrow> escalated d1 f"
    "length (escalation_backlog now d1) = length (escalation_backlog now d) - limit"
    "\<And>f. f \<in> set (escalation_backlog now d) \<Longrightarrow> escalated d1 f \<or> f \<in> set (escalation_backlog now d1)"
    using backlog_shrinks [OF Suc.prems(1), of now limit] by metis
  have "length (escalation_backlog now d1) \<le> n * limit" using d1(5) Suc.prems(2) by simp
  with Suc.IH [OF d1(2)] obtain d' where d': "escalate_times n now limit d1 = Inr d'"
    "escalation_backlog now d' = []"
    "\<forall>f \<in> set (findings d1). escalated d1 f \<or> f \<in> set (escalation_backlog now d1) \<longrightarrow> escalated d' f"
    by blast
  have "escalated d' f" if "f \<in> set (findings d)" "escalated d f \<or> f \<in> set (escalation_backlog now d)" for f
    using d1(3,4,6) d'(3) that by metis
  then show ?case using d1(1) d' by simp
qed simp

text \<open>
  C21.  The SQL condition \<open>_has_escalation_target\<close>, which has to hold before the page limit is
  applied, is true of a finding exactly when \<open>_escalation_targets\<close> finds it a channel, provided the
  group that owns it exists.
\<close>

theorem escalation_query_agrees_with_targets:
  assumes "distinct (map og_id groups)" and "set_option (f_owner_group_id f) \<subseteq> og_id ` set groups"
  shows "has_escalation_target chs groups f \<longleftrightarrow> escalation_targets f (group_of groups f) chs \<noteq> []"
  using assms by (rule query_agrees_with_targets)

text \<open>
  C22.  No overdue finding starves.  However large the backlog, a number of beats of
  \<open>escalate_overdue\<close> whose pages together are as large announces every overdue finding that has
  anywhere to go: no beat raises, and in the end nothing is left to escalate.
\<close>

theorem overdue_backlog_drains:
  assumes "rows_ok d" and "length (escalation_backlog now d) \<le> n * limit"
  shows "\<exists>d'. escalate_times n now limit d = Inr d' \<and> escalation_backlog now d' = [] \<and>
    (\<forall>f \<in> set (escalation_backlog now d). escalated d' f)"
  using escalate_times_effect [OF assms] by (auto simp: escalation_backlog_def)

section \<open>The delivery loop\<close>

lemma attempt_simps [simp]:
  "nd_id (attempt cfg ht send now d x) = nd_id x" "nd_attempts (attempt cfg ht send now d x) = nd_attempts x + 1"
  by (auto simp: attempt_def Let_def fail_delivery_def retry_or_fail_def split: option.splits send_outcome.splits)

lemma attempt_pending:
  "nd_status x = PENDING \<Longrightarrow> nd_status (attempt cfg ht send now d x) = PENDING \<Longrightarrow>
     nd_attempts x + 1 < notification_max_attempts cfg \<and>
     nd_next_attempt_at (attempt cfg ht send now d x) =
       now + SECOND * int (notification_retry_backoff_seconds cfg * 2 ^ nd_attempts x)"
  by (auto simp: attempt_def Let_def fail_delivery_def retry_or_fail_def
      split: option.splits send_outcome.splits if_splits)

lemma attempt_frame:
  "attempt cfg ht send now (d\<lparr>deliveries := rows\<rparr>) x = attempt cfg ht send now d x"
  unfolding attempt_def Let_def by (simp cong: option.case_cong if_cong)

lemma fold_deliver_step:
  "snd (fold (deliver_step cfg ht send now) xs (out, d)) =
     d\<lparr>deliveries := fold (\<lambda>x. update_where (\<lambda>y. nd_id y = nd_id x) (\<lambda>_. attempt cfg ht send now d x)) xs (deliveries d)\<rparr>"
proof (induction xs arbitrary: out d)
  case (Cons x xs)
  then show ?case by (simp add: deliver_step_def Let_def attempt_frame)
qed simp

lemma deliver_pending_rows:
  assumes "distinct (map nd_id (deliveries d))"
  shows "snd (deliver_pending cfg ht send now d) =
    d\<lparr>deliveries := map (\<lambda>x. if x \<in> set (due_deliveries cfg now d) then attempt cfg ht send now d x else x) (deliveries d)\<rparr>"
proof -
  let ?due = "filter (\<lambda>x. nd_status x = PENDING \<and> nd_next_attempt_at x \<le> now) (deliveries d)"
  have "mset (map nd_id (sort_key nd_next_attempt_at ?due)) = mset (map nd_id ?due)" by simp
  moreover have "distinct (map nd_id ?due)" using assms by (rule distinct_map_filter)
  ultimately have "distinct (map nd_id (sort_key nd_next_attempt_at ?due))" using mset_eq_imp_distinct_iff by blast
  then have "distinct (map nd_id (due_deliveries cfg now d))" by (simp add: due_deliveries_def take_map [symmetric])
  moreover have "set (due_deliveries cfg now d) \<subseteq> set (deliveries d)"
    unfolding due_deliveries_def using set_take_subset [of _ "sort_key nd_next_attempt_at ?due"] by fastforce
  ultimately show ?thesis
    using fold_update_rows [OF assms, of "due_deliveries cfg now d" "attempt cfg ht send now d"]
    by (simp add: deliver_pending_def fold_deliver_step)
qed

text \<open>
  A pending row always has an attempt left.  \<open>deliver_rounds\<close> runs one delivery round per instant, and
  \<open>all_due\<close> says that every round finds every pending row due and has room for it.
\<close>

definition outbox_ok :: "delivery_settings \<Rightarrow> db \<Rightarrow> bool" where
  "outbox_ok cfg d \<longleftrightarrow>
     distinct (map nd_id (deliveries d)) \<and>
     list_all (\<lambda>x. nd_attempts x \<le> notification_max_attempts cfg \<and>
                   (nd_status x = PENDING \<longrightarrow> nd_attempts x < notification_max_attempts cfg)) (deliveries d)"

fun deliver_rounds ::
  "delivery_settings \<Rightarrow> (notification_channel_type \<Rightarrow> bool) \<Rightarrow> sender \<Rightarrow> int list \<Rightarrow> db \<Rightarrow> db" where
  "deliver_rounds cfg ht send [] d = d"
| "deliver_rounds cfg ht send (t # ts) d = deliver_rounds cfg ht send ts (snd (deliver_pending cfg ht send t d))"

definition pending_rows :: "db \<Rightarrow> notification_delivery list" where
  "pending_rows d = filter (\<lambda>x. nd_status x = PENDING) (deliveries d)"

fun all_due ::
  "delivery_settings \<Rightarrow> (notification_channel_type \<Rightarrow> bool) \<Rightarrow> sender \<Rightarrow> int list \<Rightarrow> db \<Rightarrow> bool" where
  "all_due cfg ht send [] d = True"
| "all_due cfg ht send (t # ts) d =
     (list_all (\<lambda>x. nd_next_attempt_at x \<le> t) (pending_rows d) \<and>
      length (pending_rows d) \<le> notification_batch_size cfg \<and>
      all_due cfg ht send ts (snd (deliver_pending cfg ht send t d)))"

lemma deliver_pending_outbox_ok:
  assumes "outbox_ok cfg d"
  shows "outbox_ok cfg (snd (deliver_pending cfg ht send now d))"
proof -
  have d: "distinct (map nd_id (deliveries d))" using assms by (simp add: outbox_ok_def)
  have "x \<in> set (due_deliveries cfg now d) \<Longrightarrow> x \<in> set (deliveries d) \<and> nd_status x = PENDING" for x
    unfolding due_deliveries_def by (drule in_set_takeD) simp
  then have due: "nd_status x = PENDING \<and> nd_attempts x + 1 \<le> notification_max_attempts cfg"
    if "x \<in> set (due_deliveries cfg now d)" for x
    using assms that by (fastforce simp: outbox_ok_def list_all_iff)
  have "map nd_id (map (\<lambda>x. if x \<in> set (due_deliveries cfg now d) then attempt cfg ht send now d x else x) (deliveries d)) =
      map nd_id (deliveries d)" by simp
  then show ?thesis
    using assms due attempt_pending
    unfolding outbox_ok_def deliver_pending_rows [OF d] list_all_iff by (auto simp del: map_map)
qed

lemma due_round:
  assumes "list_all (\<lambda>x. nd_next_attempt_at x \<le> t) (pending_rows d)"
    and "length (pending_rows d) \<le> notification_batch_size cfg"
  shows "set (due_deliveries cfg t d) = set (pending_rows d)"
proof -
  have "filter (\<lambda>x. nd_status x = PENDING \<and> nd_next_attempt_at x \<le> t) (deliveries d) = pending_rows d"
    using assms(1) unfolding pending_rows_def list_all_iff by (intro filter_cong) auto
  then show ?thesis using assms(2) by (simp add: due_deliveries_def)
qed

lemma rounds_raise_attempts:
  assumes "outbox_ok cfg d" and "all_due cfg ht send ts d" and "\<forall>x \<in> set (pending_rows d). k \<le> nd_attempts x"
  shows "outbox_ok cfg (deliver_rounds cfg ht send ts d) \<and>
    (\<forall>x \<in> set (pending_rows (deliver_rounds cfg ht send ts d)). k + length ts \<le> nd_attempts x)"
  using assms
proof (induction ts arbitrary: d k)
  case (Cons t ts)
  let ?d = "snd (deliver_pending cfg ht send t d)"
  have ok: "outbox_ok cfg ?d" by (rule deliver_pending_outbox_ok [OF Cons.prems(1)])
  have due: "set (due_deliveries cfg t d) = set (pending_rows d)" using Cons.prems(2) by (intro due_round) auto
  have "distinct (map nd_id (deliveries d))" using Cons.prems(1) by (simp add: outbox_ok_def)
  then have "\<forall>y \<in> set (pending_rows ?d). k + 1 \<le> nd_attempts y"
    using Cons.prems(3) by (auto simp: pending_rows_def deliver_pending_rows due)
  from Cons.IH [OF ok _ this] Cons.prems(2) show ?case by simp
qed simp

text \<open>
  C23.  No announcement is retried forever and none is dropped without a verdict.  Whatever the
  receivers answer, after as many rounds as the configured number of attempts, each of which finds
  the pending rows due and fits them into its batch, every row is delivered or failed, and no row
  was attempted more often than configured.
\<close>

theorem pending_deliveries_settle:
  assumes "outbox_ok cfg d" and "length ts = notification_max_attempts cfg" and "all_due cfg ht send ts d"
  shows "pending_rows (deliver_rounds cfg ht send ts d) = [] \<and>
    list_all (\<lambda>x. nd_attempts x \<le> notification_max_attempts cfg) (deliveries (deliver_rounds cfg ht send ts d))"
proof -
  let ?d = "deliver_rounds cfg ht send ts d"
  have r: "outbox_ok cfg ?d" "\<forall>x \<in> set (pending_rows ?d). length ts \<le> nd_attempts x"
    using rounds_raise_attempts [OF assms(1,3), of 0] by simp_all
  have "x \<notin> set (pending_rows ?d)" for x
  proof
    assume x: "x \<in> set (pending_rows ?d)"
    then have "nd_attempts x < notification_max_attempts cfg"
      using r(1) by (auto simp: pending_rows_def outbox_ok_def list_all_iff)
    then show False using r(2) x assms(2) by fastforce
  qed
  then have "pending_rows ?d = []" by (cases "pending_rows ?d") auto
  then show ?thesis using r(1) by (auto simp: outbox_ok_def list_all_iff)
qed

section \<open>Announcing a scan\<close>

definition announced :: "scan \<Rightarrow> db \<Rightarrow> finding \<times> notification_channel \<Rightarrow> bool" where
  "announced s d p \<longleftrightarrow>
     list_ex (\<lambda>x. nd_channel_id x = ch_id (snd p) \<and> nd_finding_id x = f_id (fst p) \<and> nd_scan_id x = Some (s_id s))
       (deliveries d)"

lemma enqueue_one_effect:
  obtains n' rows k where "enqueue_one s now p (n, d) = Inr (n', d\<lparr>deliveries := deliveries d @ rows, drawn := k\<rparr>)"
    "channel_wants (snd p) (fst p) \<longrightarrow> announced s (d\<lparr>deliveries := deliveries d @ rows, drawn := k\<rparr>) p"
proof (cases "channel_wants (snd p) (fst p) \<and> \<not> announced s d p")
  case True
  let ?nd = "opened_delivery (ch_id (snd p)) (f_id (fst p)) (s_id s) now (uuid4 d (drawn d))"
  have "\<not> list_ex (\<lambda>x. same_announcement ?nd x \<or> same_escalation ?nd x) (deliveries d)"
    using True by (auto simp: announced_def list_ex_iff same_announcement_def same_escalation_def opened_delivery_def)
  then have "enqueue_one s now p (n, d) = Inr (n + 1, d\<lparr>deliveries := deliveries d @ [?nd], drawn := drawn d + 1\<rparr>)"
    using True by (cases p) (simp add: enqueue_one_def announced_def add_delivery_def new_id_def)
  then show ?thesis using that by (simp add: announced_def opened_delivery_def)
next
  case False
  then have "enqueue_one s now p (n, d) = Inr (n, d\<lparr>deliveries := deliveries d @ [], drawn := drawn d\<rparr>)"
    by (cases p) (auto simp: enqueue_one_def announced_def)
  then show ?thesis using False by (intro that [where n' = n and rows = "[]" and k = "drawn d"]) auto
qed

lemma enqueue_all_effect:
  obtains n' rows k where "enqueue_all s now ps (n, d) = Inr (n', d\<lparr>deliveries := deliveries d @ rows, drawn := k\<rparr>)"
    "\<forall>p \<in> set ps. channel_wants (snd p) (fst p) \<longrightarrow> announced s (d\<lparr>deliveries := deliveries d @ rows, drawn := k\<rparr>) p"
proof (induction ps arbitrary: n d thesis)
  case Nil
  show ?case by (rule Nil [where n' = n and rows = "[]" and k = "drawn d"]) simp_all
next
  case (Cons p ps)
  obtain n1 r1 k1 where 1: "enqueue_one s now p (n, d) = Inr (n1, d\<lparr>deliveries := deliveries d @ r1, drawn := k1\<rparr>)"
    "channel_wants (snd p) (fst p) \<longrightarrow> announced s (d\<lparr>deliveries := deliveries d @ r1, drawn := k1\<rparr>) p"
    by (rule enqueue_one_effect)
  let ?d = "d\<lparr>deliveries := deliveries d @ r1, drawn := k1\<rparr>"
  obtain n2 r2 k2 where 2: "enqueue_all s now ps (n1, ?d) = Inr (n2, ?d\<lparr>deliveries := deliveries ?d @ r2, drawn := k2\<rparr>)"
    "\<forall>p \<in> set ps. channel_wants (snd p) (fst p) \<longrightarrow> announced s (?d\<lparr>deliveries := deliveries ?d @ r2, drawn := k2\<rparr>) p"
    by (rule Cons.IH)
  show ?case
    by (rule Cons.prems [where n' = n2 and rows = "r1 @ r2" and k = k2]) (use 1 2 in \<open>auto simp: announced_def\<close>)
qed

lemma enqueue_all_silent:
  "\<forall>p \<in> set ps. channel_wants (snd p) (fst p) \<longrightarrow> announced s d p \<Longrightarrow> enqueue_all s now ps (n, d) = Inr (n, d)"
  by (induction ps) (auto simp: enqueue_one_def announced_def)

text \<open>
  C24.  Announcing a finished scan never fails on the outbox's unique constraint, announces every
  finding the scan opened on every enabled channel that wants it, and doing it again for the same
  scan, as the sweep over stalled scans may, writes nothing.
\<close>

theorem announcing_a_scan_is_idempotent:
  "\<exists>n d'. enqueue_for_scan s now d = Inr (n, d') \<and>
     list_all (\<lambda>f. list_all (\<lambda>ch. announced s d' (f, ch)) (filter (\<lambda>ch. ch_enabled ch \<and> channel_wants ch f) (channels d)))
       (newly_opened_findings d s) \<and>
     enqueue_for_scan s later d' = Inr (0, d')"
proof (cases "filter ch_enabled (channels d) = [] \<or> newly_opened_findings d s = []")
  case True
  then have "enqueue_for_scan s now' d = Inr (0, d)" for now' by (auto simp: enqueue_for_scan_def Let_def)
  moreover have "list_all (\<lambda>f. list_all (\<lambda>ch. announced s d (f, ch)) (filter (\<lambda>ch. ch_enabled ch \<and> channel_wants ch f) (channels d)))
       (newly_opened_findings d s)"
    using True by (auto simp: list_all_iff filter_empty_conv)
  ultimately show ?thesis by blast
next
  case False
  let ?ps = "concat (map (\<lambda>f. map (Pair f) (filter ch_enabled (channels d))) (newly_opened_findings d s))"
  obtain n rows k where e: "enqueue_all s now ?ps (0, d) = Inr (n, d\<lparr>deliveries := deliveries d @ rows, drawn := k\<rparr>)"
    "\<forall>p \<in> set ?ps. channel_wants (snd p) (fst p) \<longrightarrow> announced s (d\<lparr>deliveries := deliveries d @ rows, drawn := k\<rparr>) p"
    by (rule enqueue_all_effect)
  let ?d = "d\<lparr>deliveries := deliveries d @ rows, drawn := k\<rparr>"
  have n: "newly_opened_findings ?d s = newly_opened_findings d s" by (simp add: newly_opened_findings_def)
  have "enqueue_for_scan s now d = Inr (n, ?d)"
    using False e(1) by (simp add: enqueue_for_scan_def Let_def)
  moreover have "enqueue_for_scan s later ?d = Inr (0, ?d)"
    using False enqueue_all_silent [OF e(2)] by (simp add: enqueue_for_scan_def Let_def n)
  moreover have "list_all (\<lambda>f. list_all (\<lambda>ch. announced s ?d (f, ch)) (filter (\<lambda>ch. ch_enabled ch \<and> channel_wants ch f) (channels d)))
       (newly_opened_findings d s)"
    using e(2) by (auto simp: list_all_iff)
  ultimately show ?thesis by blast
qed

section \<open>Concrete runs\<close>

definition demo_channel :: notification_channel where
  "demo_channel = \<lparr>ch_id = 3, ch_type = WEBHOOK, ch_event_filter = \<lparr>ef_min_severity = Some HIGH, ef_source_ids = []\<rparr>,
     ch_enabled = True\<rparr>"

definition demo_late :: db where
  "demo_late = empty_db\<lparr>
     findings := [demo_finding\<lparr>f_due_at := Some 5\<rparr>, demo_finding\<lparr>f_id := 2, f_due_at := Some 4, f_owner_group_id := Some 6\<rparr>],
     channels := [demo_channel], owner_groups := [\<lparr>og_id = 6, og_notification_channel_id = Some 3, og_disabled = False\<rparr>]\<rparr>"

lemma demo_late_rows: "rows_ok demo_late"
  by (simp add: rows_ok_def demo_late_def demo_finding_def)

lemma demo_late_backlog: "length (escalation_backlog 9 demo_late) = 2"
  by code_simp

theorem escalation_query_agrees_with_targets_witness:
  "has_escalation_target [demo_channel] (owner_groups demo_late) demo_finding"
proof -
  have "escalation_targets demo_finding (group_of (owner_groups demo_late) demo_finding) [demo_channel] \<noteq> []"
    by code_simp
  then show ?thesis
    using escalation_query_agrees_with_targets [of "owner_groups demo_late" demo_finding "[demo_channel]"]
    by (simp add: demo_late_def demo_finding_def)
qed

theorem overdue_backlog_drains_witness:
  "\<exists>d'. escalate_times 2 9 1 demo_late = Inr d' \<and> escalation_backlog 9 d' = []"
  using overdue_backlog_drains [OF demo_late_rows, of 9 2 1] demo_late_backlog by auto

text \<open>A receiver that answers \<open>503\<close> every time is given up on after the second attempt.\<close>

definition demo_outbox :: db where
  "demo_outbox = empty_db\<lparr>sources := [\<lparr>src_id = 5, src_name = [], src_type = CONFLUENCE, src_connection = [],
       src_credential_ref = None, src_tags = [], src_enabled = True, src_full_scan_interval_days = 7, src_updated_at = 0\<rparr>],
     scans := [demo_scan], findings := [demo_finding], channels := [demo_channel],
     deliveries := [opened_delivery 3 1 9 0 4]\<rparr>"

definition demo_settings :: delivery_settings where
  "demo_settings = \<lparr>notification_max_attempts = 2, notification_retry_backoff_seconds = 60, notification_batch_size = 50\<rparr>"

definition demo_503 :: sender where
  "demo_503 nd now = SendRefused False (cps ''503'')"

theorem pending_deliveries_settle_witness:
  "pending_rows (deliver_rounds demo_settings (\<lambda>_. True) demo_503 [1, 70000000] demo_outbox) = []"
proof -
  have "all_due demo_settings (\<lambda>_. True) demo_503 [1, 70000000] demo_outbox" by code_simp
  moreover have "outbox_ok demo_settings demo_outbox"
    by (simp add: outbox_ok_def demo_outbox_def demo_settings_def opened_delivery_def)
  ultimately show ?thesis
    using pending_deliveries_settle [of demo_settings demo_outbox "[1, 70000000]"] by (simp add: demo_settings_def)
qed

end
