(* ===== verification/Scan_Service.thy ===== *)
theory Scan_Service
  imports Reconcile Cursors Manifest Notifications
begin

text \<open>
  The life of a scan and of its tasks, \<^verbatim>\<open>apps/api/src/iceberg_api/scans/service.py\<close>.  Every function takes
  the database and returns it as it is after the function's transaction, or as it is handed back to
  the caller's transaction where the function does not commit.  A conditional \<open>UPDATE\<close> is
  \<open>update_where\<close> guarded by \<open>rowcount\<close>; where the code rolls back, the database is returned as it was.

  Handing a task id to the broker may fail and is then only logged: \<open>accepts\<close> says for which ids
  it succeeds.  An \<open>UPDATE\<close> of a task or a scan also stamps \<open>updated_at\<close>.
\<close>

section \<open>Statuses\<close>

definition DEFAULT_LEASE_SECONDS :: nat where "DEFAULT_LEASE_SECONDS = 300"

definition LEASED_STATUSES :: "scan_task_status list" where
  "LEASED_STATUSES = [TASK_LEASED, TASK_RUNNING]"

definition TERMINAL_TASK_STATUSES :: "scan_task_status list" where
  "TERMINAL_TASK_STATUSES = [TASK_COMPLETED, TASK_FAILED, TASK_CANCELLED]"

definition broker_enqueue :: "(nat \<Rightarrow> bool) \<Rightarrow> nat \<Rightarrow> db \<Rightarrow> db" where
  "broker_enqueue accepts i d = (if accepts i then d\<lparr>broker := broker d @ [i]\<rparr> else d)"

definition tasks_of :: "nat \<Rightarrow> db \<Rightarrow> scan_task list" where
  "tasks_of scan_id d = ordered_tasks (filter (\<lambda>t. t_scan_id t = scan_id) (tasks d))"

definition set_scan :: "scan \<Rightarrow> db \<Rightarrow> db" where
  "set_scan s d = d\<lparr>scans := update_where (\<lambda>x. s_id x = s_id s) (\<lambda>_. s) (scans d)\<rparr>"

section \<open>Launching\<close>

datatype launch_outcome = Launched nat | ScanConflict | NoResultFound

definition new_task :: "nat \<Rightarrow> nat \<Rightarrow> scan_task_kind \<Rightarrow> jdict \<Rightarrow> int \<Rightarrow> scan_task" where
  "new_task i scan_id kind spec now =
     \<lparr>t_id = i, t_created_at = now, t_updated_at = now, t_scan_id = scan_id, t_kind = kind, t_spec = spec,
      t_status = TASK_QUEUED, t_engine_id = None, t_lease_expires_at = None, t_heartbeat_at = None,
      t_attempts = 0, t_result_key = None, t_coverage = NoCoverage, t_checkpoint = [],
      t_checkpoint_sequence = 0, t_cursor_proposal = [], t_checkpoint_context = [],
      t_started_at = None, t_finished_at = None, t_error = None\<rparr>"

definition active_scan :: "scan \<Rightarrow> bool" where
  "active_scan s \<longleftrightarrow> s_status s \<in> set ACTIVE_SCAN_STATUSES"

definition new_scan ::
  "nat \<Rightarrow> source \<Rightarrow> scan_trigger \<Rightarrow> scan_mode \<Rightarrow>
   scan_mode \<times> cursor_invalidation_reason option \<times> int option \<Rightarrow> int \<Rightarrow> scan" where
  "new_scan i src trigger mode planned now =
     (case planned of (resolved, reason, baseline) \<Rightarrow>
        \<lparr>s_id = i, s_created_at = now, s_updated_at = now, s_source_id = src_id src,
         s_trigger = trigger, s_status = SCAN_QUEUED, s_mode = resolved,
         s_promoted_from = (if resolved \<noteq> mode then Some mode else None),
         s_promotion_reason = reason, s_incremental_baseline_at = baseline,
         s_rulepack_version = None, s_counts = [],
         s_source_configuration_version = Some (src_updated_at src),
         s_coverage_manifest = NoManifest, s_started_at = Some now,
         s_finished_at = None, s_error = None\<rparr>)"

definition launch_scan ::
  "(nat \<Rightarrow> bool) \<Rightarrow> nat \<Rightarrow> scan_trigger \<Rightarrow> scan_mode \<Rightarrow> pystr option \<Rightarrow> bool \<Rightarrow> int \<Rightarrow> db \<Rightarrow> launch_outcome \<times> db" where
  "launch_scan accepts source_id trigger mode version rotating now d =
     (case get_row src_id source_id (sources d) of
        None \<Rightarrow> (NoResultFound, d)
      | Some src \<Rightarrow>
          let (planned, d1) = plan_mode src mode version rotating now d;
              (i, d2) = new_id d1;
              s = new_scan i src trigger mode planned now
          in if list_ex (\<lambda>x. s_source_id x = src_id src \<and> active_scan x) (scans d2) then (ScanConflict, d2)
             else
               let (j, d3) = new_id (d2\<lparr>scans := scans d2 @ [s]\<rparr>)
               in (Launched i,
                   broker_enqueue accepts j (d3\<lparr>tasks := tasks d3 @ [new_task j i DISCOVERY [] now]\<rparr>)))"

fun insert_fetch_tasks :: "nat \<Rightarrow> int \<Rightarrow> jdict list \<Rightarrow> db \<Rightarrow> nat list \<times> db" where
  "insert_fetch_tasks scan_id now [] d = ([], d)"
| "insert_fetch_tasks scan_id now (spec # specs) d =
     (let (i, d1) = new_id d;
          (ids, d2) = insert_fetch_tasks scan_id now specs (d1\<lparr>tasks := tasks d1 @ [new_task i scan_id FETCH spec now]\<rparr>)
      in (i # ids, d2))"

definition create_fetch_tasks :: "nat \<Rightarrow> jdict list \<Rightarrow> int \<Rightarrow> db \<Rightarrow> nat list \<times> db" where
  "create_fetch_tasks scan_id specs now d =
     (if specs = [] then ([], d)
      else
        let P = (\<lambda>x. s_id x = scan_id \<and> active_scan x) in
        if rowcount P (scans d) \<noteq> 1 then ([], d)
        else insert_fetch_tasks scan_id now specs
               (d\<lparr>scans := update_where P (\<lambda>x. x\<lparr>s_status := SCAN_RUNNING, s_updated_at := now\<rparr>) (scans d)\<rparr>))"

section \<open>Leases\<close>

definition leased_row :: "nat \<Rightarrow> int \<Rightarrow> int \<Rightarrow> scan_task \<Rightarrow> scan_task" where
  "leased_row engine_id now expires t =
     t\<lparr>t_status := TASK_LEASED, t_engine_id := Some engine_id, t_lease_expires_at := Some expires,
       t_heartbeat_at := Some now, t_started_at := Some now, t_attempts := t_attempts t + 1, t_updated_at := now\<rparr>"

text \<open>A queued scan starts with the lease of its first task.\<close>

definition begin_scan :: "scan_task \<Rightarrow> int \<Rightarrow> db \<Rightarrow> db" where
  "begin_scan t now d =
     (case get_row s_id (t_scan_id t) (scans d) of
        None \<Rightarrow> d
      | Some s \<Rightarrow>
          if s_status s = SCAN_QUEUED
          then set_scan (s\<lparr>s_status := (if t_kind t = DISCOVERY then SCAN_DISCOVERING else SCAN_RUNNING),
                           s_updated_at := now\<rparr>) d
          else d)"

definition claim_task :: "nat \<Rightarrow> nat \<Rightarrow> int \<Rightarrow> nat \<Rightarrow> db \<Rightarrow> (scan_task \<times> int) option \<times> db" where
  "claim_task task_id engine_id now lease_seconds d =
     (let expires = now + SECOND * int lease_seconds;
          P = (\<lambda>t. t_id t = task_id \<and> t_status t = TASK_QUEUED)
      in if rowcount P (tasks d) \<noteq> 1 then (None, d)
         else
           let d1 = d\<lparr>tasks := update_where P (leased_row engine_id now expires) (tasks d)\<rparr>
           in case get_row t_id task_id (tasks d1) of
                None \<Rightarrow> (None, d)
              | Some t \<Rightarrow> (Some (t, expires), begin_scan t now d1))"

text \<open>The predicate shared by the transitions that need this task's lease to be live.\<close>

definition held_by :: "scan_task \<Rightarrow> scan_task \<Rightarrow> bool" where
  "held_by t x \<longleftrightarrow> t_id x = t_id t \<and> t_engine_id x = t_engine_id t \<and> t_status x \<in> set LEASED_STATUSES"

definition renew_lease :: "scan_task \<Rightarrow> int \<Rightarrow> nat \<Rightarrow> db \<Rightarrow> int option \<times> db" where
  "renew_lease t now lease_seconds d =
     (let expires = now + SECOND * int lease_seconds in
      if rowcount (held_by t) (tasks d) \<noteq> 1 then (None, d)
      else (Some expires,
            d\<lparr>tasks := update_where (held_by t) (\<lambda>x. x\<lparr>t_heartbeat_at := Some now, t_lease_expires_at := Some expires,
                t_status := TASK_RUNNING, t_updated_at := now\<rparr>) (tasks d)\<rparr>))"

definition claim_result :: "scan_task \<Rightarrow> pystr \<Rightarrow> int \<Rightarrow> db \<Rightarrow> bool \<times> db" where
  "claim_result t key now d =
     (let P = (\<lambda>x. held_by t x \<and> t_result_key x = None) in
      if rowcount P (tasks d) \<noteq> 1 then (False, d)
      else (True, d\<lparr>tasks := update_where P (\<lambda>x. x\<lparr>t_result_key := Some key, t_updated_at := now\<rparr>) (tasks d)\<rparr>))"

definition advance_checkpoint :: "scan_task \<Rightarrow> nat \<Rightarrow> jdict \<Rightarrow> jdict \<Rightarrow> int \<Rightarrow> db \<Rightarrow> bool \<times> db" where
  "advance_checkpoint t sequence checkpoint context now d =
     (let P = (\<lambda>x. held_by t x \<and> t_result_key x = None \<and> t_checkpoint_sequence x + 1 = sequence) in
      if rowcount P (tasks d) \<noteq> 1 then (False, d)
      else (True, d\<lparr>tasks := update_where P (\<lambda>x. x\<lparr>t_checkpoint := checkpoint, t_checkpoint_sequence := sequence,
              t_checkpoint_context := context, t_updated_at := now\<rparr>) (tasks d)\<rparr>))"

definition discard_checkpoint :: "nat \<Rightarrow> int \<Rightarrow> db \<Rightarrow> db" where
  "discard_checkpoint task_id now d =
     d\<lparr>tasks := update_where (\<lambda>x. t_id x = task_id)
         (\<lambda>x. x\<lparr>t_checkpoint := [], t_checkpoint_context := [], t_updated_at := now\<rparr>) (tasks d)\<rparr>"

definition complete_task ::
  "nat \<Rightarrow> scan_task_status \<Rightarrow> pystr option \<Rightarrow> task_coverage_report option \<Rightarrow> int \<Rightarrow> db \<Rightarrow> db" where
  "complete_task task_id status error coverage now d =
     d\<lparr>tasks := update_where (\<lambda>x. t_id x = task_id)
         (\<lambda>x. x\<lparr>t_status := status, t_error := error,
                t_coverage := (case coverage of None \<Rightarrow> t_coverage x | Some r \<Rightarrow> Stored r),
                t_finished_at := Some now, t_lease_expires_at := None, t_updated_at := now\<rparr>) (tasks d)\<rparr>"

section \<open>Finishing\<close>

definition final_status :: "scan_task_status list \<Rightarrow> scan_status" where
  "final_status sts =
     (if list_ex (\<lambda>st. st = TASK_CANCELLED) sts then SCAN_CANCELLED
      else
        let completed = length (filter (\<lambda>st. st = TASK_COMPLETED) sts) in
        if completed = length sts then SCAN_COMPLETED
        else if completed \<noteq> 0 then SCAN_PARTIAL else SCAN_FAILED)"

definition first_error :: "(scan_task_status \<times> pystr option) list \<Rightarrow> pystr option" where
  "first_error ts =
     (case List.find (\<lambda>(st, e). st = TASK_FAILED \<and> (case e of None \<Rightarrow> False | Some m \<Rightarrow> m \<noteq> [])) ts of
        None \<Rightarrow> None | Some (st, e) \<Rightarrow> e)"

definition finalize_scan_if_done :: "nat \<Rightarrow> int \<Rightarrow> db \<Rightarrow> scan_status option \<times> db" where
  "finalize_scan_if_done scan_id now d =
     (let ts = map (\<lambda>t. (t_status t, t_error t)) (tasks_of scan_id d);
          sts = map fst ts
      in if sts = [] \<or> list_ex (\<lambda>st. st \<notin> set TERMINAL_TASK_STATUSES) sts then (None, d)
         else
           let P = (\<lambda>x. s_id x = scan_id \<and> active_scan x);
               final = final_status sts
           in if rowcount P (scans d) \<noteq> 1 then (None, d)
              else (Some final,
                    d\<lparr>scans := update_where P (\<lambda>x. x\<lparr>s_status := final, s_finished_at := Some now,
                        s_error := first_error ts, s_updated_at := now\<rparr>) (scans d)\<rparr>))"

text \<open>The part of \<open>finalize_and_reconcile\<close> that only complete coverage authorises.\<close>

definition settle_covered :: "(json \<Rightarrow> pystr) \<Rightarrow> scan \<Rightarrow> scan_task list \<Rightarrow> int \<Rightarrow> db \<Rightarrow> py_error + db" where
  "settle_covered py_str s ts now d =
     bindE (if s_mode s = FULL
            then bindE (reconcile_scan s now d) (\<lambda>(_, _, d'). Inr d') else Inr d) (\<lambda>d1.
     bindE (enqueue_for_scan s now (snd (commit_proposals py_str s ts now d1))) (\<lambda>(_, d2). Inr d2))"

definition finalize_and_reconcile ::
  "(json \<Rightarrow> pystr) \<Rightarrow> nat \<Rightarrow> int \<Rightarrow> db \<Rightarrow> py_error + scan_status option \<times> db" where
  "finalize_and_reconcile py_str scan_id now d =
     (case finalize_scan_if_done scan_id now d of
        (None, _) \<Rightarrow> Inr (None, d)
      | (Some final, d1) \<Rightarrow>
          (case get_row s_id scan_id (scans d1) of
             None \<Rightarrow> Inr (Some final, d1)
           | Some s \<Rightarrow>
               let ts = tasks_of scan_id d1 in
               bindE (build_manifest s ts) (\<lambda>m.
                 let s' = s\<lparr>s_coverage_manifest := StoredManifest m\<rparr>;
                     d2 = set_scan s' d1
                 in bindE (if final = SCAN_COMPLETED \<and> m_coverage_state m = COV_COMPLETE
                           then settle_covered py_str s' ts now d2 else Inr d2) (\<lambda>d3.
                    Inr (Some final, d3)))))"

fun finalize_each :: "(json \<Rightarrow> pystr) \<Rightarrow> int \<Rightarrow> nat list \<Rightarrow> nat list \<times> db \<Rightarrow> py_error + nat list \<times> db" where
  "finalize_each py_str now [] nd = Inr nd"
| "finalize_each py_str now (i # is) nd =
     bindE (finalize_and_reconcile py_str i now (snd nd)) (\<lambda>(final, d').
       finalize_each py_str now is (if final \<noteq> None then fst nd @ [i] else fst nd, d'))"

definition finalize_stalled_scans :: "(json \<Rightarrow> pystr) \<Rightarrow> int \<Rightarrow> db \<Rightarrow> py_error + nat list \<times> db" where
  "finalize_stalled_scans py_str now d =
     finalize_each py_str now (map s_id (filter active_scan (scans d))) ([], d)"

section \<open>Sweeps\<close>

definition redispatch_stale_tasks :: "(nat \<Rightarrow> bool) \<Rightarrow> int \<Rightarrow> nat \<Rightarrow> db \<Rightarrow> nat list \<times> db" where
  "redispatch_stale_tasks accepts now stale_after d =
     (let cutoff = now - SECOND * int stale_after;
          stale = map t_id (filter (\<lambda>t. t_status t = TASK_QUEUED \<and> t_updated_at t < cutoff) (tasks d))
      in if stale = [] then ([], d)
         else
           let d1 = fold (\<lambda>i e. e\<lparr>tasks := update_where (\<lambda>t. t_id t = i) (\<lambda>t. t\<lparr>t_updated_at := now\<rparr>) (tasks e)\<rparr>) stale d
           in (stale, fold (broker_enqueue accepts) stale d1))"

definition lease_expired :: "int \<Rightarrow> scan_task \<Rightarrow> bool" where
  "lease_expired now t \<longleftrightarrow>
     t_status t \<in> set LEASED_STATUSES \<and> (case t_lease_expires_at t of None \<Rightarrow> False | Some e \<Rightarrow> e < now)"

definition reclaim_one :: "int \<Rightarrow> nat \<Rightarrow> nat list \<times> db \<Rightarrow> nat list \<times> db" where
  "reclaim_one now i nd =
     (case nd of (ids, d) \<Rightarrow>
        let P = (\<lambda>t. t_id t = i \<and> lease_expired now t) in
        if rowcount P (tasks d) = 1
        then (ids @ [i], d\<lparr>tasks := update_where P (\<lambda>t. t\<lparr>t_status := TASK_QUEUED, t_engine_id := None,
               t_lease_expires_at := None, t_updated_at := now\<rparr>) (tasks d)\<rparr>)
        else (ids, d))"

definition reclaim_expired_leases :: "(nat \<Rightarrow> bool) \<Rightarrow> int \<Rightarrow> db \<Rightarrow> nat list \<times> db" where
  "reclaim_expired_leases accepts now d =
     (let expired = map t_id (filter (lease_expired now) (tasks d));
          (reclaimed, d1) = fold (reclaim_one now) expired ([], d)
      in (reclaimed, fold (broker_enqueue accepts) reclaimed d1))"

section \<open>Cancelling\<close>

definition unfinished :: "scan_task \<Rightarrow> bool" where
  "unfinished t \<longleftrightarrow> t_status t \<notin> set TERMINAL_TASK_STATUSES"

definition cancel_one :: "int \<Rightarrow> scan_task \<Rightarrow> db \<Rightarrow> py_error + db" where
  "cancel_one now t d =
     bindE (cancelled_report (t_kind t) (t_coverage t)) (\<lambda>r.
       Inr (d\<lparr>tasks := update_where (\<lambda>x. t_id x = t_id t \<and> unfinished x)
               (\<lambda>x. x\<lparr>t_status := TASK_CANCELLED, t_finished_at := Some now, t_lease_expires_at := None,
                      t_coverage := Stored r, t_updated_at := now\<rparr>) (tasks d)\<rparr>))"

fun cancel_each :: "int \<Rightarrow> scan_task list \<Rightarrow> db \<Rightarrow> py_error + db" where
  "cancel_each now [] d = Inr d"
| "cancel_each now (t # ts) d = bindE (cancel_one now t d) (cancel_each now ts)"

definition cancel_scan :: "nat \<Rightarrow> int \<Rightarrow> db \<Rightarrow> py_error + db" where
  "cancel_scan scan_id now d =
     bindE (cancel_each now (filter (\<lambda>t. t_scan_id t = scan_id \<and> unfinished t) (tasks d)) d) (\<lambda>d1.
       let d2 = d1\<lparr>scans := update_where (\<lambda>x. s_id x = scan_id \<and> active_scan x)
                  (\<lambda>x. x\<lparr>s_status := SCAN_CANCELLED, s_finished_at := Some now, s_updated_at := now\<rparr>) (scans d1)\<rparr>
       in case get_row s_id scan_id (scans d2) of
            None \<Rightarrow> Inr d2
          | Some s \<Rightarrow>
              bindE (build_manifest s (tasks_of scan_id d2)) (\<lambda>m.
                Inr (set_scan (s\<lparr>s_coverage_manifest := StoredManifest m\<rparr>) d2)))"

definition active_scan_for :: "nat \<Rightarrow> db \<Rightarrow> scan option" where
  "active_scan_for source_id d = List.find (\<lambda>s. s_source_id s = source_id \<and> active_scan s) (scans d)"

end
