(* ===== verification/Lease_Protocol.thy ===== *)
theory Lease_Protocol
  imports Scan_Service
begin

text \<open>
  The protocol a scan task follows, as an automaton that knows nothing of rows, clocks and
  transactions, and its interface: a system \<^emph>\<open>follows\<close> the protocol if every step moves the lease
  of every task along the automaton.  What the automaton guarantees then holds of every run.
\<close>

section \<open>The automaton\<close>

datatype lease_phase = Waiting | Held "nat option" | Over scan_task_status

text \<open>Where the task is, the key its results were claimed under, the batches accepted and the leases given.\<close>

record lease =
  l_phase :: lease_phase
  l_claim :: "pystr option"
  l_batches :: nat
  l_attempts :: nat

definition lease_start :: lease where
  "lease_start = \<lparr>l_phase = Waiting, l_claim = None, l_batches = 0, l_attempts = 0\<rparr>"

text \<open>
  A lease is given in one transaction and, when the secrets it needs turn out to be unreadable, failed
  in a later one that does not ask what became of the task meanwhile: \<open>fail_late\<close> leads out of
  every phase of a task that was ever leased.
\<close>

inductive lease_step :: "lease \<Rightarrow> lease \<Rightarrow> bool" where
  take: "lease_step \<lparr>l_phase = Waiting, l_claim = k, l_batches = n, l_attempts = a\<rparr>
    \<lparr>l_phase = Held (Some e), l_claim = k, l_batches = n, l_attempts = a + 1\<rparr>"
| batch: "lease_step \<lparr>l_phase = Held e, l_claim = None, l_batches = n, l_attempts = a\<rparr>
    \<lparr>l_phase = Held e, l_claim = None, l_batches = n + 1, l_attempts = a\<rparr>"
| claim: "lease_step \<lparr>l_phase = Held e, l_claim = None, l_batches = n, l_attempts = a\<rparr>
    \<lparr>l_phase = Held e, l_claim = Some k, l_batches = n, l_attempts = a\<rparr>"
| give_back: "lease_step \<lparr>l_phase = Held e, l_claim = k, l_batches = n, l_attempts = a\<rparr>
    \<lparr>l_phase = Waiting, l_claim = k, l_batches = n, l_attempts = a\<rparr>"
| finish: "st \<in> {TASK_COMPLETED, TASK_FAILED} \<Longrightarrow>
    lease_step \<lparr>l_phase = Held e, l_claim = k, l_batches = n, l_attempts = a\<rparr>
      \<lparr>l_phase = Over st, l_claim = k, l_batches = n, l_attempts = a\<rparr>"
| cancel: "p = Waiting \<or> (\<exists>e. p = Held e) \<Longrightarrow>
    lease_step \<lparr>l_phase = p, l_claim = k, l_batches = n, l_attempts = a\<rparr>
      \<lparr>l_phase = Over TASK_CANCELLED, l_claim = k, l_batches = n, l_attempts = a\<rparr>"
| fail_late: "0 < a \<Longrightarrow>
    lease_step \<lparr>l_phase = p, l_claim = k, l_batches = n, l_attempts = a\<rparr>
      \<lparr>l_phase = Over TASK_FAILED, l_claim = k, l_batches = n, l_attempts = a\<rparr>"

inductive_cases lease_stepE: "lease_step l l'"

lemma Over_is_final:
  "lease_step l l' \<Longrightarrow> l_phase l = Over st \<Longrightarrow> 0 < l_attempts l \<and> l' = l\<lparr>l_phase := Over TASK_FAILED\<rparr>"
  by (auto elim: lease_stepE)

lemma claim_is_final: "lease_step l l' \<Longrightarrow> l_claim l = Some k \<Longrightarrow> l_claim l' = Some k"
  by (auto elim: lease_stepE)

lemma batches_count: "lease_step l l' \<Longrightarrow> l_batches l \<le> l_batches l' \<and> l_attempts l \<le> l_attempts l'"
  by (auto elim: lease_stepE)

lemma claimed_batches: "lease_step l l' \<Longrightarrow> l_claim l \<noteq> None \<Longrightarrow> l_batches l' = l_batches l"
  by (auto elim: lease_stepE)

text \<open>Only a lease that fails late can still change how a task ended, and only into a failure.\<close>

lemma run_from_Over:
  assumes "lease_step\<^sup>*\<^sup>* l l'" and "l_phase l = Over st"
  shows "l' = l \<or> (0 < l_attempts l \<and> l' = l\<lparr>l_phase := Over TASK_FAILED\<rparr>)"
  using assms
proof (induction rule: rtranclp_induct)
  case (step m n)
  then obtain st' where "l_phase m = Over st'" by fastforce
  then show ?case using step Over_is_final [OF step(2)] by auto
qed simp

lemma lease_run:
  assumes "lease_step\<^sup>*\<^sup>* l l'"
  shows "(l_claim l = Some k \<longrightarrow> l_claim l' = Some k \<and> l_batches l' = l_batches l) \<and>
    l_batches l \<le> l_batches l' \<and> l_attempts l \<le> l_attempts l'"
  using assms
proof (induction rule: rtranclp_induct)
  case (step m n)
  then show ?case
    using claim_is_final [OF step(2)] batches_count [OF step(2)] claimed_batches [OF step(2)] by auto
qed simp

section \<open>Systems that follow it\<close>

locale follows_lease_protocol =
  fixes step :: "'s \<Rightarrow> 's \<Rightarrow> bool"
    and ok :: "'s \<Rightarrow> bool"
    and lease_at :: "'s \<Rightarrow> nat \<Rightarrow> lease option"
  assumes ok_step: "step s s' \<Longrightarrow> ok s \<Longrightarrow> ok s'"
    and known_step: "step s s' \<Longrightarrow> ok s \<Longrightarrow> lease_at s i = Some l \<Longrightarrow>
      \<exists>l'. lease_at s' i = Some l' \<and> lease_step\<^sup>*\<^sup>* l l'"
    and fresh_step: "step s s' \<Longrightarrow> ok s \<Longrightarrow> lease_at s i = None \<Longrightarrow> lease_at s' i = Some l' \<Longrightarrow>
      lease_step\<^sup>*\<^sup>* lease_start l'"
begin

lemma run_ok: "step\<^sup>*\<^sup>* s s' \<Longrightarrow> ok s \<Longrightarrow> ok s'"
  by (induction rule: rtranclp_induct) (auto intro: ok_step)

lemma run_known:
  assumes "step\<^sup>*\<^sup>* s s'" and "ok s" and "lease_at s i = Some l"
  shows "\<exists>l'. lease_at s' i = Some l' \<and> lease_step\<^sup>*\<^sup>* l l'"
  using assms
proof (induction rule: rtranclp_induct)
  case (step m n)
  then obtain l1 where "lease_at m i = Some l1" "lease_step\<^sup>*\<^sup>* l l1" by blast
  with known_step [OF step(2) run_ok [OF step(1) step(4)]] show ?case by (meson rtranclp_trans)
qed auto

lemma run_fresh:
  assumes "step\<^sup>*\<^sup>* s s'" and "ok s" and "lease_at s i = None" and "lease_at s' i = Some l'"
  shows "lease_step\<^sup>*\<^sup>* lease_start l'"
  using assms
proof (induction arbitrary: l' rule: rtranclp_induct)
  case (step m n)
  note okm = run_ok [OF step(1) step(4)]
  show ?case
  proof (cases "lease_at m i")
    case None
    then show ?thesis using fresh_step [OF step(2) okm None step(6)] by blast
  next
    case (Some l1)
    then have "lease_step\<^sup>*\<^sup>* lease_start l1" using step(3) [OF step(4,5)] by blast
    moreover obtain l2 where "lease_at n i = Some l2" "lease_step\<^sup>*\<^sup>* l1 l2" using known_step [OF step(2) okm Some] by blast
    ultimately show ?thesis using step(6) by (metis option.inject rtranclp_trans)
  qed
qed simp

text \<open>A task that is over stays over, and results claimed once are never claimed again.\<close>

lemma run_over:
  assumes "step\<^sup>*\<^sup>* s s'" and "ok s" and "lease_at s i = Some l" and "l_phase l = Over st"
  shows "\<exists>l'. lease_at s' i = Some l' \<and> (l' = l \<or> (0 < l_attempts l \<and> l' = l\<lparr>l_phase := Over TASK_FAILED\<rparr>))"
  using run_known [OF assms(1-3)] run_from_Over [OF _ assms(4)] by blast

lemma run_claimed:
  assumes "step\<^sup>*\<^sup>* s s'" and "ok s" and "lease_at s i = Some l" and "l_claim l = Some k"
  shows "\<exists>l'. lease_at s' i = Some l' \<and> l_claim l' = Some k \<and> l_batches l' = l_batches l"
  using run_known [OF assms(1-3)] lease_run assms(4) by metis

lemma run_batches:
  assumes "step\<^sup>*\<^sup>* s s'" and "ok s" and "lease_at s i = Some l"
  shows "\<exists>l'. lease_at s' i = Some l' \<and> l_batches l \<le> l_batches l' \<and> l_attempts l \<le> l_attempts l'"
  using run_known [OF assms] lease_run by metis

end

section \<open>A task's lease\<close>

fun phase_of :: "scan_task_status \<Rightarrow> nat option \<Rightarrow> lease_phase" where
  "phase_of TASK_QUEUED e = Waiting"
| "phase_of TASK_LEASED e = Held e"
| "phase_of TASK_RUNNING e = Held e"
| "phase_of st e = Over st"

definition lease_of :: "scan_task \<Rightarrow> lease" where
  "lease_of t =
     \<lparr>l_phase = phase_of (t_status t) (t_engine_id t), l_claim = t_result_key t, l_batches = t_checkpoint_sequence t,
      l_attempts = t_attempts t\<rparr>"

definition lease_at :: "db \<Rightarrow> nat \<Rightarrow> lease option" where
  "lease_at d i = map_option lease_of (get_row t_id i (tasks d))"

lemma lease_of_simps [simp]:
  "l_phase (lease_of t) = phase_of (t_status t) (t_engine_id t)" "l_claim (lease_of t) = t_result_key t"
  "l_batches (lease_of t) = t_checkpoint_sequence t" "l_attempts (lease_of t) = t_attempts t"
  by (simp_all add: lease_of_def)

lemma phase_leased [simp]: "st \<in> set LEASED_STATUSES \<Longrightarrow> phase_of st e = Held e"
  by (auto simp: LEASED_STATUSES_def)

lemma phase_terminal [simp]: "st \<in> set TERMINAL_TASK_STATUSES \<Longrightarrow> phase_of st e = Over st"
  by (auto simp: TERMINAL_TASK_STATUSES_def)

lemma phase_unfinished:
  "unfinished t \<Longrightarrow> phase_of (t_status t) e = Waiting \<or> (\<exists>e'. phase_of (t_status t) e = Held e')"
  by (cases "t_status t") (auto simp: unfinished_def TERMINAL_TASK_STATUSES_def)

end
