(* ===== verification/Plane.thy ===== *)
theory Plane
  imports Lease_Protocol
begin

text \<open>
  What every operation on scans and tasks has to keep, and the lemmas that let an operation be
  checked one statement at a time.  Tables only grow and rows are only rewritten in place; a task
  moves along the lease protocol, so its results are claimed once and its batch counter never goes
  back; a scan that has ended does not start again, and a source has one active scan.
\<close>

section \<open>Tables that grow\<close>

text \<open>Rows are related by \<open>R\<close> to what they were, and new rows are as \<open>I\<close> says.\<close>

definition grows :: "('r \<Rightarrow> 'r \<Rightarrow> bool) \<Rightarrow> ('r \<Rightarrow> bool) \<Rightarrow> 'r list \<Rightarrow> 'r list \<Rightarrow> bool" where
  "grows R I xs ys \<longleftrightarrow> (\<exists>zs new. ys = zs @ new \<and> list_all2 R xs zs \<and> list_all I new)"

lemma grows_refl: "(\<And>x. R x x) \<Longrightarrow> grows R I xs xs"
  unfolding grows_def by (intro exI [of _ xs] exI [of _ "[]"]) (simp add: list_all2_refl)

lemma grows_append: "(\<And>x. R x x) \<Longrightarrow> list_all I new \<Longrightarrow> grows R I xs (xs @ new)"
  unfolding grows_def by (intro exI [of _ xs] exI [of _ new]) (simp add: list_all2_refl)

lemma grows_update_where:
  "(\<And>x. R x x) \<Longrightarrow> (\<And>x. x \<in> set xs \<Longrightarrow> P x \<Longrightarrow> R x (f x)) \<Longrightarrow> grows R I xs (update_where P f xs)"
  unfolding grows_def
  by (intro exI [of _ "update_where P f xs"] exI [of _ "[]"]) (simp add: update_where_def list_all2_conv_all_nth)

lemma list_all_list_all2: "list_all I xs \<Longrightarrow> list_all2 R xs ys \<Longrightarrow> (\<And>x y. I x \<Longrightarrow> R x y \<Longrightarrow> I y) \<Longrightarrow> list_all I ys"
  by (induction xs arbitrary: ys) (auto simp: list_all2_Cons1)

lemma grows_trans:
  assumes "\<And>x y z. R x y \<Longrightarrow> R y z \<Longrightarrow> R x z" and "\<And>x y. I x \<Longrightarrow> R x y \<Longrightarrow> I y"
    and "grows R I xs ys" and "grows R I ys zs"
  shows "grows R I xs zs"
proof -
  obtain ys1 ys2 where ys: "ys = ys1 @ ys2" "list_all2 R xs ys1" "list_all I ys2" using assms(3) by (auto simp: grows_def)
  obtain zs1 zs2 where zs: "zs = zs1 @ zs2" "list_all2 R (ys1 @ ys2) zs1" "list_all I zs2"
    using assms(4) ys(1) by (auto simp: grows_def)
  obtain u v where uv: "zs1 = u @ v" "list_all2 R ys1 u" "list_all2 R ys2 v" using zs(2) by (auto simp: list_all2_append1)
  have "list_all2 R xs u" by (rule list_all2_trans [OF assms(1) ys(2) uv(2)])
  moreover have "list_all I v" by (rule list_all_list_all2 [OF ys(3) uv(3) assms(2)])
  ultimately show ?thesis
    unfolding grows_def by (intro exI [of _ u] exI [of _ "v @ zs2"]) (simp add: zs(1,3) uv(1))
qed

lemma grows_get_row:
  assumes "grows R I xs ys" and "x \<in> set xs"
  shows "\<exists>y \<in> set ys. R x y"
proof -
  obtain zs new where ys: "ys = zs @ new" "list_all2 R xs zs" using assms(1) by (auto simp: grows_def)
  from ys(2) assms(2) have "\<exists>y \<in> set zs. R x y" by (induction rule: list_all2_induct) auto
  then show ?thesis by (auto simp: ys(1))
qed

lemma grows_old_or_new:
  assumes "grows R I xs ys" and "y \<in> set ys"
  shows "I y \<or> (\<exists>x \<in> set xs. R x y)"
proof -
  obtain zs new where ys: "ys = zs @ new" "list_all2 R xs zs" "list_all I new" using assms(1) by (auto simp: grows_def)
  from ys(2) have "\<exists>x \<in> set xs. R x y" if "y \<in> set zs" using that by (induction rule: list_all2_induct) auto
  then show ?thesis using assms(2) ys(1,3) by (auto simp: list_all_iff)
qed

section \<open>Rows that evolve\<close>

text \<open>
  A report that says something was missed, and a task that cannot be completed any more: it is over, or
  it has flushed batches and the report accumulated from them says so.
\<close>

definition missed :: "task_coverage_report \<Rightarrow> bool" where
  "missed r \<longleftrightarrow> cc_failed (tc_counts r) \<noteq> 0 \<or> cs_gaps (tc_scope r) \<noteq> 0"

definition flawed :: "scan_task \<Rightarrow> bool" where
  "flawed t \<longleftrightarrow> t_status t \<in> set TERMINAL_TASK_STATUSES \<or>
     (t_checkpoint_sequence t \<noteq> 0 \<and>
      (case stored_task_report (t_kind t) (t_coverage t) of None \<Rightarrow> False | Some q \<Rightarrow> missed q))"

lemma flawed_over: "t_status t \<in> set TERMINAL_TASK_STATUSES \<Longrightarrow> flawed t"
  by (simp add: flawed_def)

lemma flawed_kept:
  "flawed t \<Longrightarrow> t_kind u = t_kind t \<Longrightarrow> t_coverage u = t_coverage t \<Longrightarrow> t_checkpoint_sequence t \<le> t_checkpoint_sequence u \<Longrightarrow>
   (t_status t \<in> set TERMINAL_TASK_STATUSES \<Longrightarrow> t_status u \<in> set TERMINAL_TASK_STATUSES) \<Longrightarrow> flawed u"
  by (auto simp: flawed_def)

text \<open>A task stays itself, its lease moves along the protocol, and what it has missed stays missed.\<close>

definition task_evolves :: "scan_task \<Rightarrow> scan_task \<Rightarrow> bool" where
  "task_evolves t u \<longleftrightarrow>
     t_id u = t_id t \<and> t_scan_id u = t_scan_id t \<and> t_kind u = t_kind t \<and> lease_step\<^sup>*\<^sup>* (lease_of t) (lease_of u) \<and>
     (flawed t \<longrightarrow> flawed u)"

definition task_starts :: "scan_task \<Rightarrow> bool" where
  "task_starts t \<longleftrightarrow> lease_step\<^sup>*\<^sup>* lease_start (lease_of t)"

definition scan_evolves :: "scan \<Rightarrow> scan \<Rightarrow> bool" where
  "scan_evolves s u \<longleftrightarrow>
     s_id u = s_id s \<and> s_source_id u = s_source_id s \<and> s_mode u = s_mode s \<and>
     (\<not> active_scan s \<longrightarrow> s_status u = s_status s)"

lemma task_evolves_refl [simp]: "task_evolves t t"
  by (simp add: task_evolves_def)

lemma task_evolves_trans: "task_evolves t u \<Longrightarrow> task_evolves u v \<Longrightarrow> task_evolves t v"
  by (auto simp: task_evolves_def)

lemma task_starts_evolves: "task_starts t \<Longrightarrow> task_evolves t u \<Longrightarrow> task_starts u"
  by (auto simp: task_starts_def task_evolves_def)

lemma new_task_id [simp]: "t_id (new_task i s k spec now) = i"
  by (simp add: new_task_def)

lemma task_starts_new [simp]: "task_starts (new_task i s k spec now)"
  by (simp add: task_starts_def lease_of_def new_task_def lease_start_def)

text \<open>An update that leaves the lease alone, and one that takes a step of the protocol.\<close>

lemma phase_over_iff: "(\<exists>st'. phase_of st e = Over st') \<longleftrightarrow> st \<in> set TERMINAL_TASK_STATUSES"
  by (cases st) (auto simp: TERMINAL_TASK_STATUSES_def)

lemma task_evolves_same:
  assumes "t_id u = t_id t" and "t_scan_id u = t_scan_id t" and "t_kind u = t_kind t" and "lease_of u = lease_of t"
    and "t_coverage u = t_coverage t"
  shows "task_evolves t u"
proof -
  have "phase_of (t_status u) (t_engine_id u) = phase_of (t_status t) (t_engine_id t)"
      "t_checkpoint_sequence u = t_checkpoint_sequence t"
    using assms(4) by (simp_all add: lease_of_def)
  then have "flawed t \<longrightarrow> flawed u"
    using assms(3,5) phase_over_iff [of "t_status u" "t_engine_id u"] phase_over_iff [of "t_status t" "t_engine_id t"]
      flawed_kept [of t u] by auto
  then show ?thesis using assms by (simp add: task_evolves_def)
qed

lemma task_evolves_step:
  "t_id u = t_id t \<Longrightarrow> t_scan_id u = t_scan_id t \<Longrightarrow> t_kind u = t_kind t \<Longrightarrow> lease_step (lease_of t) (lease_of u) \<Longrightarrow>
   (flawed t \<Longrightarrow> flawed u) \<Longrightarrow> task_evolves t u"
  by (auto simp: task_evolves_def)

lemma scan_evolves_refl [simp]: "scan_evolves s s"
  by (simp add: scan_evolves_def)

lemma scan_evolves_trans: "scan_evolves s u \<Longrightarrow> scan_evolves u v \<Longrightarrow> scan_evolves s v"
  by (auto simp: scan_evolves_def active_scan_def)

definition evolves :: "db \<Rightarrow> db \<Rightarrow> bool" where
  "evolves d e \<longleftrightarrow>
     grows task_evolves task_starts (tasks d) (tasks e) \<and> grows scan_evolves (\<lambda>_. True) (scans d) (scans e)"

lemma evolves_refl [simp]: "evolves d d"
  by (simp add: evolves_def grows_refl)

lemma evolves_trans: "evolves d e \<Longrightarrow> evolves e f \<Longrightarrow> evolves d f"
proof -
  assume a: "evolves d e" "evolves e f"
  have "grows task_evolves task_starts (tasks d) (tasks f)"
    by (rule grows_trans [of task_evolves _ _ "tasks e"])
       (use a task_evolves_trans task_starts_evolves in \<open>auto simp: evolves_def\<close>)
  moreover have "grows scan_evolves (\<lambda>_. True) (scans d) (scans f)"
    by (rule grows_trans [of scan_evolves _ _ "scans e"]) (use a scan_evolves_trans in \<open>auto simp: evolves_def\<close>)
  ultimately show ?thesis by (simp add: evolves_def)
qed

section \<open>The invariant\<close>

definition one_active :: "scan list \<Rightarrow> bool" where
  "one_active rows \<longleftrightarrow> distinct (map s_source_id (filter active_scan rows))"

definition plane_ok :: "db \<Rightarrow> bool" where
  "plane_ok d \<longleftrightarrow>
     inj (uuid4 d) \<and> one_active (scans d) \<and>
     distinct (map s_id (scans d)) \<and> s_id ` set (scans d) \<subseteq> ids_drawn d \<and>
     distinct (map t_id (tasks d)) \<and> t_id ` set (tasks d) \<subseteq> ids_drawn d"

definition keeps :: "db \<Rightarrow> db \<Rightarrow> bool" where
  "keeps d e \<longleftrightarrow> (plane_ok d \<longrightarrow> evolves d e \<and> plane_ok e)"

lemma keeps_refl [simp]: "keeps d d"
  by (simp add: keeps_def)

lemma keeps_trans: "keeps d e \<Longrightarrow> keeps e f \<Longrightarrow> keeps d f"
  unfolding keeps_def using evolves_trans by blast

text \<open>Every row of the other tables may change freely, as long as ids are only ever drawn.\<close>

definition draws :: "db \<Rightarrow> db \<Rightarrow> bool" where
  "draws d e \<longleftrightarrow> uuid4 e = uuid4 d \<and> drawn d \<le> drawn e"

lemma draws_simps [simp]: "draws d d" "draws d e \<Longrightarrow> draws e f \<Longrightarrow> draws d f"
  by (auto simp: draws_def)

lemma draws_ids: "draws d e \<Longrightarrow> ids_drawn d \<subseteq> ids_drawn e"
  by (auto simp: draws_def ids_drawn_def)

lemma keeps_frame: "tasks e = tasks d \<Longrightarrow> scans e = scans d \<Longrightarrow> draws d e \<Longrightarrow> keeps d e"
  using draws_ids [of d e] by (auto simp: keeps_def plane_ok_def evolves_def grows_refl draws_def)

lemma keeps_tasks:
  assumes "\<And>t. t \<in> set (tasks d) \<Longrightarrow> P t \<Longrightarrow> task_evolves t (f t)"
  shows "keeps d (d\<lparr>tasks := update_where P f (tasks d)\<rparr>)"
proof -
  have "map t_id (update_where P f (tasks d)) = map t_id (tasks d)"
    using assms by (auto simp: update_where_def task_evolves_def)
  moreover from this have "t_id ` set (update_where P f (tasks d)) = t_id ` set (tasks d)"
    by (metis set_map)
  moreover have "grows task_evolves task_starts (tasks d) (update_where P f (tasks d))"
    using assms by (intro grows_update_where) auto
  ultimately show ?thesis by (simp add: keeps_def plane_ok_def evolves_def grows_refl ids_drawn_def)
qed

lemma one_active_update:
  assumes "\<And>s. s \<in> set rows \<Longrightarrow> P s \<Longrightarrow> scan_evolves s (f s)" and "one_active rows"
  shows "one_active (update_where P f rows)"
proof -
  have "set (map s_source_id (filter active_scan (update_where P f rows))) \<subseteq> set (map s_source_id (filter active_scan rows)) \<and>
      one_active (update_where P f rows)"
    using assms
  proof (induction rows)
    case (Cons s rows)
    have "scan_evolves s (if P s then f s else s)" using Cons.prems(1) by simp
    then have "s_source_id (if P s then f s else s) = s_source_id s"
        "active_scan (if P s then f s else s) \<Longrightarrow> active_scan s"
      by (auto simp: scan_evolves_def active_scan_def)
    moreover have "set (map s_source_id (filter active_scan (update_where P f rows))) \<subseteq> set (map s_source_id (filter active_scan rows)) \<and>
        one_active (update_where P f rows)"
      using Cons.prems by (intro Cons.IH) (auto simp: one_active_def split: if_splits)
    ultimately show ?case using Cons.prems(2) unfolding update_where_Cons one_active_def by (auto split: if_splits)
  qed (simp add: one_active_def)
  then show ?thesis by blast
qed

lemma keeps_scans:
  assumes "\<And>s. s \<in> set (scans d) \<Longrightarrow> P s \<Longrightarrow> scan_evolves s (f s)"
  shows "keeps d (d\<lparr>scans := update_where P f (scans d)\<rparr>)"
proof -
  have "map s_id (update_where P f (scans d)) = map s_id (scans d)"
    using assms by (auto simp: update_where_def scan_evolves_def)
  moreover from this have "s_id ` set (update_where P f (scans d)) = s_id ` set (scans d)"
    by (metis set_map)
  moreover have "grows scan_evolves (\<lambda>_. True) (scans d) (update_where P f (scans d))"
    using assms by (intro grows_update_where) auto
  ultimately show ?thesis
    using one_active_update [of "scans d" P f] assms
    by (simp add: keeps_def plane_ok_def evolves_def grows_refl ids_drawn_def)
qed

lemma keeps_new_task:
  assumes "t_id t = fst (new_id d)" and "task_starts t"
  shows "keeps d ((snd (new_id d))\<lparr>tasks := tasks d @ [t]\<rparr>)"
proof -
  have "fst (new_id d) \<notin> ids_drawn d" if "inj (uuid4 d)" using new_id_fresh that .
  then show ?thesis
    using ids_drawn_new_id [of d] assms
    by (auto simp: keeps_def plane_ok_def evolves_def grows_refl grows_append new_id_def ids_drawn_def)
qed

section \<open>The operations of the service\<close>

lemma keeps_set_scan:
  assumes "s \<in> set (scans d)" and "scan_evolves s s'"
  shows "keeps d (set_scan s' d)"
proof (cases "plane_ok d")
  case True
  then have "x = s" if "x \<in> set (scans d)" "s_id x = s_id s" for x
    using distinct_key_unique [of s_id "scans d" x s] assms(1) that by (simp add: plane_ok_def)
  then show ?thesis
    unfolding set_scan_def using assms(2) by (intro keeps_scans) (auto simp: scan_evolves_def)
qed (simp add: keeps_def)

lemma keeps_broker [simp]: "keeps d (broker_enqueue accepts i d)"
  by (rule keeps_frame) (simp_all add: broker_enqueue_def draws_def)

lemma keeps_brokers [simp]: "keeps d (fold (broker_enqueue accepts) is d)"
proof (induction "is" arbitrary: d)
  case (Cons i "is")
  then show ?case using keeps_trans [OF keeps_broker, of accepts i d] by simp
qed simp

lemma keeps_new_id: "keeps d (snd (new_id d))"
  by (rule keeps_frame) (simp_all add: new_id_def draws_def)

lemma plan_mode_frame:
  "snd (plan_mode src m v rot now d) = d\<lparr>cursors := cursors (snd (plan_mode src m v rot now d))\<rparr>"
  by (simp add: plan_mode_def invalidate_cursors_def Let_def split: option.split)

lemma keeps_plan_mode: "keeps d (snd (plan_mode src m v rot now d))"
proof (rule keeps_frame)
  show "tasks (snd (plan_mode src m v rot now d)) = tasks d" by (subst plan_mode_frame) simp
  show "scans (snd (plan_mode src m v rot now d)) = scans d" by (subst plan_mode_frame) simp
  show "draws d (snd (plan_mode src m v rot now d))" by (subst plan_mode_frame) (simp add: draws_def)
qed

lemma keeps_new_scan:
  assumes "s_id s = fst (new_id d)" and "\<not> list_ex (\<lambda>x. s_source_id x = s_source_id s \<and> active_scan x) (scans d)"
  shows "keeps d ((snd (new_id d))\<lparr>scans := scans d @ [s]\<rparr>)"
proof -
  have "fst (new_id d) \<notin> ids_drawn d" if "inj (uuid4 d)" using new_id_fresh that .
  moreover have "one_active (scans d @ [s])" if "one_active (scans d)"
    using that assms(2) by (auto simp: one_active_def list_ex_iff)
  ultimately show ?thesis
    using ids_drawn_new_id [of d] assms(1)
    by (auto simp: keeps_def plane_ok_def evolves_def grows_refl grows_append new_id_def ids_drawn_def)
qed

lemma keeps_launch_scan: "keeps d (snd (launch_scan acc sid tr m v rot now d))"
proof (cases "get_row src_id sid (sources d)")
  case None
  then show ?thesis by (simp add: launch_scan_def)
next
  case (Some src)
  obtain pl d1 where p: "plan_mode src m v rot now d = (pl, d1)" by fastforce
  have k1: "keeps d d1" using keeps_plan_mode [of d src m v rot now] p by simp
  let ?d2 = "snd (new_id d1)" and ?s = "new_scan (fst (new_id d1)) src tr m pl now"
  let ?e = "?d2\<lparr>scans := scans ?d2 @ [?s]\<rparr>"
  let ?t = "new_task (fst (new_id ?e)) (fst (new_id d1)) DISCOVERY [] now"
  have s: "s_id ?s = fst (new_id d1)" "s_source_id ?s = src_id src" by (simp_all add: new_scan_def split_beta)
  have l: "snd (launch_scan acc sid tr m v rot now d) =
      (if list_ex (\<lambda>x. s_source_id x = src_id src \<and> active_scan x) (scans ?d2) then ?d2
       else broker_enqueue acc (fst (new_id ?e)) ((snd (new_id ?e))\<lparr>tasks := tasks (snd (new_id ?e)) @ [?t]\<rparr>))"
    using Some p by (simp add: launch_scan_def Let_def split_beta)
  show ?thesis
  proof (cases "list_ex (\<lambda>x. s_source_id x = src_id src \<and> active_scan x) (scans ?d2)")
    case True
    then show ?thesis using keeps_trans [OF k1 keeps_new_id] by (simp add: l)
  next
    case False
    have "keeps d1 ?e" using keeps_new_scan [of ?s d1] s False by (simp add: new_id_def)
    moreover have "keeps ?e ((snd (new_id ?e))\<lparr>tasks := tasks (snd (new_id ?e)) @ [?t]\<rparr>)"
      using keeps_new_task [of ?t ?e] by (simp add: new_id_def)
    ultimately show ?thesis
      unfolding l if_not_P [OF False] using k1 keeps_trans keeps_broker by blast
  qed
qed

lemma keeps_insert_fetch_tasks: "keeps d (snd (insert_fetch_tasks i now specs d))"
proof (induction specs arbitrary: d)
  case (Cons spec specs)
  let ?e = "(snd (new_id d))\<lparr>tasks := tasks (snd (new_id d)) @ [new_task (fst (new_id d)) i FETCH spec now]\<rparr>"
  have "keeps d ?e"
    using keeps_new_task [of "new_task (fst (new_id d)) i FETCH spec now" d] by (simp add: new_id_def)
  from keeps_trans [OF this Cons.IH] show ?case by (simp add: split_beta)
qed simp

lemma active_running [simp]: "active_scan (s\<lparr>s_status := SCAN_RUNNING, s_updated_at := n\<rparr>)"
  by (simp add: active_scan_def ACTIVE_SCAN_STATUSES_def)

lemma keeps_create_fetch_tasks: "keeps d (snd (create_fetch_tasks i specs now d))"
proof -
  let ?P = "\<lambda>x. s_id x = i \<and> active_scan x"
  let ?e = "d\<lparr>scans := update_where ?P (\<lambda>x. x\<lparr>s_status := SCAN_RUNNING, s_updated_at := now\<rparr>) (scans d)\<rparr>"
  have "keeps d ?e" by (rule keeps_scans) (simp add: scan_evolves_def)
  then show ?thesis
    using keeps_trans keeps_insert_fetch_tasks by (simp add: create_fetch_tasks_def Let_def)
qed

lemma leased_not_terminal [simp]:
  "t_status t \<in> set LEASED_STATUSES \<Longrightarrow> t_status t \<notin> set TERMINAL_TASK_STATUSES"
  by (auto simp: LEASED_STATUSES_def TERMINAL_TASK_STATUSES_def)

lemma keeps_begin_scan: "keeps d (begin_scan t now d)"
proof (cases "get_row s_id (t_scan_id t) (scans d)")
  case (Some s)
  have "keeps d (set_scan (s\<lparr>s_status := st, s_updated_at := now\<rparr>) d)" if "s_status s = SCAN_QUEUED" for st
    using get_row_Some [OF Some] that
    by (intro keeps_set_scan [of s]) (auto simp: scan_evolves_def active_scan_def ACTIVE_SCAN_STATUSES_def)
  then show ?thesis by (simp add: begin_scan_def Some)
qed (simp add: begin_scan_def)

lemma keeps_claim_task: "keeps d (snd (claim_task i e now ls d))"
proof -
  have "keeps d (d\<lparr>tasks := update_where (\<lambda>t. t_id t = i \<and> t_status t = TASK_QUEUED) (leased_row e now x) (tasks d)\<rparr>)" for x
    by (rule keeps_tasks, rule task_evolves_step) (auto simp: leased_row_def lease_of_def flawed_def TERMINAL_TASK_STATUSES_def
        intro: lease_step.take [unfolded Suc_eq_plus1 [symmetric]])
  from keeps_trans [OF this keeps_begin_scan] show ?thesis by (simp add: claim_task_def Let_def split: option.split)
qed

lemma keeps_renew_lease: "keeps d (snd (renew_lease t now ls d))"
  by (auto simp: renew_lease_def Let_def held_by_def lease_of_def intro!: keeps_tasks task_evolves_same)

lemma keeps_claim_result: "keeps d (snd (claim_result t key now d))"
  by (auto simp: claim_result_def Let_def held_by_def lease_of_def flawed_def
      intro!: keeps_tasks task_evolves_step lease_step.claim)

lemma keeps_advance_checkpoint: "keeps d (snd (advance_checkpoint t n c ctx now d))"
  by (auto simp: advance_checkpoint_def Let_def held_by_def lease_of_def flawed_def
      intro!: keeps_tasks task_evolves_step lease_step.batch [unfolded Suc_eq_plus1 [symmetric]])

lemma keeps_discard_checkpoint: "keeps d (discard_checkpoint i now d)"
  unfolding discard_checkpoint_def by (rule keeps_tasks, rule task_evolves_same) (simp_all add: lease_of_def)

lemma keeps_complete_task:
  assumes "\<forall>t \<in> set (tasks d). t_id t = i \<longrightarrow> t_status t \<in> set LEASED_STATUSES" and "st \<in> {TASK_COMPLETED, TASK_FAILED}"
  shows "keeps d (complete_task i st e cov now d)"
  unfolding complete_task_def
proof (rule keeps_tasks, rule task_evolves_step)
  fix t assume "t \<in> set (tasks d)" and "t_id t = i"
  then have "phase_of (t_status t) (t_engine_id t) = Held (t_engine_id t)" using assms(1) by simp
  moreover have "phase_of st e = Over st" for e using assms(2) by auto
  ultimately show "lease_step (lease_of t) (lease_of (t\<lparr>t_status := st, t_error := e,
      t_coverage := (case cov of None \<Rightarrow> t_coverage t | Some r \<Rightarrow> Stored r), t_finished_at := Some now,
      t_lease_expires_at := None, t_updated_at := now\<rparr>))"
    unfolding lease_of_def using lease_step.finish [OF assms(2)] by simp
qed (use assms(2) in \<open>auto simp: TERMINAL_TASK_STATUSES_def intro: flawed_over\<close>)

text \<open>A task that was ever leased may be failed whatever became of it.\<close>

lemma keeps_fail_late:
  assumes "\<forall>t \<in> set (tasks d). t_id t = i \<longrightarrow> 0 < t_attempts t"
  shows "keeps d (complete_task i TASK_FAILED e cov now d)"
  unfolding complete_task_def
proof (rule keeps_tasks, rule task_evolves_step)
  fix t assume "t \<in> set (tasks d)" and "t_id t = i"
  then have "0 < t_attempts t" using assms by simp
  then show "lease_step (lease_of t) (lease_of (t\<lparr>t_status := TASK_FAILED, t_error := e,
      t_coverage := (case cov of None \<Rightarrow> t_coverage t | Some r \<Rightarrow> Stored r), t_finished_at := Some now,
      t_lease_expires_at := None, t_updated_at := now\<rparr>))"
    unfolding lease_of_def by (simp add: lease_step.fail_late)
qed (simp_all add: TERMINAL_TASK_STATUSES_def flawed_over)

section \<open>Finishing, sweeping, cancelling\<close>

text \<open>Operations that touch neither scans nor tasks.\<close>

definition outside :: "db \<Rightarrow> db \<Rightarrow> bool" where
  "outside d e \<longleftrightarrow> tasks e = tasks d \<and> scans e = scans d \<and> draws d e"

lemma outside_refl [simp]: "outside d d"
  by (simp add: outside_def)

lemma outside_trans: "outside d e \<Longrightarrow> outside e f \<Longrightarrow> outside d f"
  by (auto simp: outside_def)

lemma outside_keeps: "outside d e \<Longrightarrow> keeps d e"
  by (simp add: outside_def keeps_frame)

lemma outside_auto_resolve: "auto_resolve s fs nd = Inr nd' \<Longrightarrow> outside (snd nd) (snd nd')"
proof (induction fs arbitrary: nd)
  case (Cons f fs)
  obtain md where md: "auto_resolve_one s f nd = Inr md" "auto_resolve s fs md = Inr nd'"
    using Cons.prems by (auto simp: bindE_eq_Inr)
  have "outside (snd nd) (snd md)"
    using md(1) by (auto simp: auto_resolve_one_def Let_def outside_def draws_def bindE_eq_Inr split: prod.splits if_splits)
  then show ?case using Cons.IH [OF md(2)] outside_trans by blast
qed simp

lemma keeps_reconcile_scan:
  assumes "reconcile_scan s now d = Inr (r, s', d')" and "s \<in> set (scans d)"
  shows "keeps d d'"
proof (cases "s_status s = SCAN_COMPLETED")
  case False
  then show ?thesis using assms(1) by (simp add: reconcile_scan_def)
next
  case True
  obtain fs n d1 where a: "auto_resolve s fs (0, d) = Inr (n, d1)"
    and d': "d' = set_scan s' d1" and s': "scan_evolves s s'" "s_id s' = s_id s"
    using assms(1) True
    by (auto simp: reconcile_scan_def Let_def bindE_eq_Inr scan_evolves_def set_scan_def)
  have o: "outside d d1" using outside_auto_resolve [OF a] by simp
  then have "s \<in> set (scans d1)" using assms(2) by (simp add: outside_def)
  from keeps_set_scan [OF this s'(1)] outside_keeps [OF o] show ?thesis unfolding d' using keeps_trans by blast
qed

lemma outside_add_deliveries: "add_deliveries mks d = Inr d' \<Longrightarrow> outside d d'"
proof (induction mks arbitrary: d)
  case (Cons mk mks)
  obtain e where e: "add_delivery (mk (fst (new_id d))) (snd (new_id d)) = Inr e" "add_deliveries mks e = Inr d'"
    using Cons.prems by (auto simp: split_beta bindE_eq_Inr)
  have "outside d e"
    using e(1) by (auto simp: add_delivery_def outside_def draws_def new_id_def split: if_splits)
  then show ?case using Cons.IH [OF e(2)] outside_trans by blast
qed simp

lemma outside_enqueue_one: "enqueue_one s now p (n, d) = Inr (n', d') \<Longrightarrow> outside d d'"
  by (cases p) (auto simp: enqueue_one_def bindE_eq_Inr split: if_splits simp del: add_deliveries.simps
      dest: outside_add_deliveries)

lemma outside_enqueue_all: "enqueue_all s now ps nd = Inr nd' \<Longrightarrow> outside (snd nd) (snd nd')"
proof (induction ps arbitrary: nd)
  case (Cons p ps)
  obtain md where md: "enqueue_one s now p nd = Inr md" "enqueue_all s now ps md = Inr nd'"
    using Cons.prems by (auto simp: bindE_eq_Inr)
  have "outside (snd nd) (snd md)" using md(1) outside_enqueue_one by (cases nd; cases md) auto
  then show ?case using Cons.IH [OF md(2)] outside_trans by blast
qed simp

lemma outside_enqueue_for_scan: "enqueue_for_scan s now d = Inr (n, d') \<Longrightarrow> outside d d'"
  using outside_enqueue_all [of s now _ "(0, d)" "(n, d')"]
  by (auto simp: enqueue_for_scan_def Let_def split: if_splits)

lemma outside_commit_proposals: "outside d (snd (commit_proposals ps s ts now d))"
  by (simp add: commit_proposals_def Let_def outside_def draws_def)

lemma keeps_settle_covered:
  assumes "settle_covered ps s ts now d = Inr d'" and "s \<in> set (scans d)"
  shows "keeps d d'"
proof -
  obtain d1 n where d1: "(if s_mode s = FULL then bindE (reconcile_scan s now d) (\<lambda>(_, _, d'). Inr d') else Inr d) = Inr d1"
      "enqueue_for_scan s now (snd (commit_proposals ps s ts now d1)) = Inr (n, d')"
    using assms(1) by (auto simp: settle_covered_def bindE_eq_Inr)
  have "keeps d d1"
    using d1(1) keeps_reconcile_scan [OF _ assms(2)] by (auto simp: bindE_eq_Inr split: if_splits)
  then show ?thesis
    using outside_keeps [OF outside_commit_proposals] outside_keeps [OF outside_enqueue_for_scan [OF d1(2)]] keeps_trans
    by blast
qed

lemma keeps_finalize_if_done: "keeps d (snd (finalize_scan_if_done i now d))"
  by (auto simp: finalize_scan_if_done_def Let_def scan_evolves_def intro!: keeps_scans)

lemma set_scan_in:
  assumes "s \<in> set (scans d)" and "s_id s' = s_id s"
  shows "s' \<in> set (scans (set_scan s' d))"
  using assms by (auto simp: set_scan_def set_update_where image_iff)

lemma keeps_finalize_and_reconcile:
  assumes "finalize_and_reconcile ps i now d = Inr (f, d')"
  shows "keeps d d'"
proof (cases "finalize_scan_if_done i now d")
  case (Pair final d1)
  have k1: "keeps d d1" using keeps_finalize_if_done [of d i now] Pair by simp
  show ?thesis
  proof (cases "final = None \<or> get_row s_id i (scans d1) = None")
    case True
    then show ?thesis using assms Pair k1 by (cases final) (auto simp: finalize_and_reconcile_def)
  next
    case False
    then obtain st s where st: "final = Some st" "get_row s_id i (scans d1) = Some s" by auto
    let ?s = "s\<lparr>s_coverage_manifest := StoredManifest (manifest_of s (tasks_of i d1))\<rparr>"
    have s: "s \<in> set (scans d1)" using get_row_Some [OF st(2)] by simp
    have k2: "keeps d1 (set_scan ?s d1)" using s by (rule keeps_set_scan) (simp add: scan_evolves_def)
    have "?s \<in> set (scans (set_scan ?s d1))" by (rule set_scan_in [OF s]) simp
    then have "keeps (set_scan ?s d1) d'"
      using assms Pair st keeps_settle_covered
      by (auto simp: finalize_and_reconcile_def Let_def build_manifest_Inr bindE_eq_Inr split: if_splits)
    then show ?thesis using k1 k2 keeps_trans by blast
  qed
qed

lemma keeps_finalize_each:
  "finalize_each ps now is nd = Inr nd' \<Longrightarrow> keeps (snd nd) (snd nd')"
proof (induction "is" arbitrary: nd)
  case (Cons i "is")
  then show ?case using keeps_finalize_and_reconcile keeps_trans by (fastforce simp: bindE_eq_Inr)
qed simp

lemma keeps_redispatch: "keeps d (snd (redispatch_stale_tasks acc now n d))"
proof -
  let ?f = "\<lambda>i e. e\<lparr>tasks := update_where (\<lambda>t. t_id t = i) (\<lambda>t. t\<lparr>t_updated_at := now\<rparr>) (tasks e)\<rparr>"
  have "keeps e (?f i e)" for i e by (rule keeps_tasks, rule task_evolves_same) (simp_all add: lease_of_def)
  then have "keeps d (fold ?f is d)" for "is"
  proof (induction "is" arbitrary: d)
    case (Cons i "is")
    then show ?case using keeps_trans [of d "?f i d"] by simp
  qed simp
  then show ?thesis using keeps_trans [OF _ keeps_brokers] by (simp add: redispatch_stale_tasks_def Let_def)
qed

lemma keeps_reclaim_one: "keeps (snd nd) (snd (reclaim_one now i nd))"
  by (cases nd) (auto simp: reclaim_one_def Let_def lease_expired_def lease_of_def flawed_def
      intro!: keeps_tasks task_evolves_step lease_step.give_back)

lemma keeps_reclaim: "keeps d (snd (reclaim_expired_leases acc now d))"
proof -
  have "keeps (snd nd) (snd (fold (reclaim_one now) is nd))" for "is" nd
  proof (induction "is" arbitrary: nd)
    case (Cons i "is")
    then show ?case using keeps_trans [OF keeps_reclaim_one, of now i nd] by simp
  qed simp
  from keeps_trans [OF this [of "([], d)"] keeps_brokers] show ?thesis
    by (simp add: reclaim_expired_leases_def Let_def split_beta)
qed

lemma keeps_cancel_each: "cancel_each now ts d = Inr d' \<Longrightarrow> keeps d d'"
proof (induction ts arbitrary: d)
  case (Cons t ts)
  obtain e where e: "cancel_one now t d = Inr e" "cancel_each now ts e = Inr d'"
    using Cons.prems by (auto simp: bindE_eq_Inr)
  have "keeps d e"
    using e(1) by (auto simp: cancel_one_def bindE_eq_Inr lease_of_def flawed_def TERMINAL_TASK_STATUSES_def
        intro!: keeps_tasks task_evolves_step lease_step.cancel phase_unfinished)
  then show ?case using Cons.IH [OF e(2)] keeps_trans by blast
qed simp

lemma keeps_cancel_scan:
  assumes "cancel_scan i now d = Inr d'"
  shows "keeps d d'"
proof -
  obtain d1 where d1: "cancel_each now (filter (\<lambda>t. t_scan_id t = i \<and> unfinished t) (tasks d)) d = Inr d1"
    using assms by (auto simp: cancel_scan_def bindE_eq_Inr)
  let ?d2 = "d1\<lparr>scans := update_where (\<lambda>x. s_id x = i \<and> active_scan x)
      (\<lambda>x. x\<lparr>s_status := SCAN_CANCELLED, s_finished_at := Some now, s_updated_at := now\<rparr>) (scans d1)\<rparr>"
  have "keeps d1 ?d2" by (rule keeps_scans) (simp add: scan_evolves_def)
  then have k: "keeps d ?d2" using keeps_cancel_each [OF d1] keeps_trans by blast
  show ?thesis
  proof (cases "get_row s_id i (scans ?d2)")
    case None
    then show ?thesis using assms k d1 by (simp add: cancel_scan_def)
  next
    case (Some s)
    let ?s = "s\<lparr>s_coverage_manifest := StoredManifest (manifest_of s (tasks_of i ?d2))\<rparr>"
    have d': "d' = set_scan ?s ?d2"
      using assms d1 Some by (simp add: cancel_scan_def Let_def build_manifest_Inr)
    have "keeps ?d2 (set_scan ?s ?d2)"
      using get_row_Some [OF Some] by (intro keeps_set_scan [of s]) (simp_all add: scan_evolves_def)
    with k show ?thesis unfolding d' by (rule keeps_trans)
  qed
qed

end
