(* ===== verification/Settlement.thy ===== *)
theory Settlement
  imports Plane
begin

text \<open>
  What finishing a scan does: when it happens, what evidence it takes for findings to be resolved
  on absence, and that the sweep over stalled scans always gets every scan off its source.
\<close>

section \<open>When a scan is finished\<close>

lemma length_filter_all: "length (filter P xs) = length xs \<longleftrightarrow> (\<forall>x \<in> set xs. P x)"
proof (induction xs)
  case (Cons x xs)
  have "length (filter P xs) \<noteq> Suc (length xs)" using length_filter_le [of P xs] by linarith
  then show ?case using Cons by simp
qed simp

lemma final_status_completed: "final_status sts = SCAN_COMPLETED \<longleftrightarrow> (\<forall>st \<in> set sts. st = TASK_COMPLETED)"
  by (auto simp: final_status_def Let_def length_filter_all list_ex_iff)

lemma final_status_inactive: "final_status sts \<notin> set ACTIVE_SCAN_STATUSES"
  by (simp add: final_status_def Let_def ACTIVE_SCAN_STATUSES_def)

lemma set_tasks_of: "set (tasks_of i d) = {t \<in> set (tasks d). t_scan_id t = i}"
  by (auto simp: tasks_of_def ordered_tasks_def)

definition all_finished :: "nat \<Rightarrow> db \<Rightarrow> bool" where
  "all_finished i d \<longleftrightarrow> tasks_of i d \<noteq> [] \<and> list_all (\<lambda>t. t_status t \<in> set TERMINAL_TASK_STATUSES) (tasks_of i d)"

definition finished_row :: "nat \<Rightarrow> int \<Rightarrow> db \<Rightarrow> scan \<Rightarrow> scan" where
  "finished_row i now d s =
     s\<lparr>s_status := final_status (map t_status (tasks_of i d)), s_finished_at := Some now,
       s_error := first_error (map (\<lambda>t. (t_status t, t_error t)) (tasks_of i d)), s_updated_at := now\<rparr>"

lemma finished_row_simps [simp]:
  "s_id (finished_row i now d s) = s_id s" "s_mode (finished_row i now d s) = s_mode s"
  "s_source_id (finished_row i now d s) = s_source_id s" "s_counts (finished_row i now d s) = s_counts s"
  "s_status (finished_row i now d s) = final_status (map t_status (tasks_of i d))"
  by (simp_all add: finished_row_def)

lemma finalize_scan_if_done_cases:
  assumes "distinct (map s_id (scans d))"
  obtains (idle) "finalize_scan_if_done i now d = (None, d)"
      "\<not> (all_finished i d \<and> (\<exists>s \<in> set (scans d). s_id s = i \<and> active_scan s))"
  | (finished) s where "s \<in> set (scans d)" "s_id s = i" "active_scan s" "all_finished i d"
      "finalize_scan_if_done i now d = (Some (final_status (map t_status (tasks_of i d))), set_scan (finished_row i now d s) d)"
proof -
  let ?P = "\<lambda>x. s_id x = i \<and> active_scan x"
  have fin: "all_finished i d \<longleftrightarrow>
      \<not> (map t_status (tasks_of i d) = [] \<or> list_ex (\<lambda>st. st \<notin> set TERMINAL_TASK_STATUSES) (map t_status (tasks_of i d)))"
    by (auto simp: all_finished_def list_ex_iff list_all_iff)
  have one: "rowcount ?P (scans d) = 1 \<longleftrightarrow> (\<exists>s \<in> set (scans d). s_id s = i \<and> active_scan s)"
  proof
    assume "rowcount ?P (scans d) = 1"
    then obtain r where "get_row s_id i (scans d) = Some r" "s_id r = i \<and> active_scan r"
      using rowcount_1_get_row [OF assms, of ?P i] by blast
    then show "\<exists>s \<in> set (scans d). s_id s = i \<and> active_scan s" using get_row_Some by fast
  next
    assume "\<exists>s \<in> set (scans d). s_id s = i \<and> active_scan s"
    then obtain s where "s \<in> set (scans d)" "s_id s = i" "active_scan s" by blast
    then show "rowcount ?P (scans d) = 1"
      using rowcount_1_get_row [OF assms, of ?P i] get_row_in [OF assms, of s] by blast
  qed
  show ?thesis
  proof (cases "all_finished i d \<and> (\<exists>s \<in> set (scans d). s_id s = i \<and> active_scan s)")
    case False
    then have "finalize_scan_if_done i now d = (None, d)"
      using fin one by (auto simp: finalize_scan_if_done_def Let_def comp_def)
    then show ?thesis using idle False by blast
  next
    case True
    then obtain s where s: "s \<in> set (scans d)" "s_id s = i" "active_scan s" by blast
    have u: "x = s" if "x \<in> set (scans d)" "s_id x = i" for x
      using distinct_key_unique [OF assms that(1) s(1)] that(2) s(2) by simp
    have eq: "update_where ?P (finished_row i now d) (scans d) =
        update_where (\<lambda>x. s_id x = s_id (finished_row i now d s)) (\<lambda>_. finished_row i now d s) (scans d)"
      unfolding update_where_def
    proof (rule map_cong [OF refl])
      fix x assume "x \<in> set (scans d)"
      then show "(if s_id x = i \<and> active_scan x then finished_row i now d x else x) =
          (if s_id x = s_id (finished_row i now d s) then finished_row i now d s else x)"
        using u [of x] s(2,3) by (cases "s_id x = i") simp_all
    qed
    have "finalize_scan_if_done i now d =
        (Some (final_status (map t_status (tasks_of i d))), d\<lparr>scans := update_where ?P (finished_row i now d) (scans d)\<rparr>)"
      using True fin one by (simp add: finalize_scan_if_done_def Let_def comp_def finished_row_def [abs_def])
    then have "finalize_scan_if_done i now d = (Some (final_status (map t_status (tasks_of i d))), set_scan (finished_row i now d s) d)"
      unfolding eq set_scan_def .
    then show ?thesis using finished s True by blast
  qed
qed

section \<open>What settling leaves\<close>

lemma commit_proposals_frame [simp]:
  "findings (snd (commit_proposals ps s ts now d)) = findings d" "events (snd (commit_proposals ps s ts now d)) = events d"
  "tasks (snd (commit_proposals ps s ts now d)) = tasks d" "scans (snd (commit_proposals ps s ts now d)) = scans d"
  by (simp_all add: commit_proposals_def Let_def)

lemma enqueue_for_scan_frame:
  "\<exists>n d'. enqueue_for_scan s now d = Inr (n, d') \<and>
     findings d' = findings d \<and> events d' = events d \<and> tasks d' = tasks d \<and> scans d' = scans d"
proof (cases "filter ch_enabled (channels d) = [] \<or> newly_opened_findings d s = []")
  case True
  then show ?thesis by (auto simp: enqueue_for_scan_def Let_def)
next
  case False
  obtain n rows k where "enqueue_all s now (concat (map (\<lambda>f. map (Pair f) (filter ch_enabled (channels d)))
      (newly_opened_findings d s))) (0, d) = Inr (n, d\<lparr>deliveries := deliveries d @ rows, drawn := k\<rparr>)"
    by (rule enqueue_all_effect)
  then show ?thesis using False by (simp add: enqueue_for_scan_def Let_def)
qed

text \<open>
  The findings and events after settling a covered scan, and the scan's row: an incremental scan
  changes none of them.
\<close>

lemma settle_covered_Inr:
  assumes "distinct (map f_id (findings d))" and "settle_covered ps s ts now d = Inr d'"
  obtains (kept) "findings d' = findings d" "events d' = events d" "tasks d' = tasks d" "scans d' = scans d"
      "s_mode s = FULL \<longrightarrow> s_status s \<noteq> SCAN_COMPLETED"
  | (reconciled) s' where "s_mode s = FULL" "s_status s = SCAN_COMPLETED"
      "findings d' = map (\<lambda>f. if saw_any_content s d \<and> unseen s f then auto_resolved f else f) (findings d)"
      "events d' = events d @ (if saw_any_content s d then map (auto_resolved_event s) (filter (unseen s) (findings d)) else [])"
      "tasks d' = tasks d" "scans d' = scans (set_scan s' d)"
      "s' = s\<lparr>s_counts := s_counts s', s_finished_at := s_finished_at s'\<rparr>"
proof -
  obtain d1 n where d1: "(if s_mode s = FULL then bindE (reconcile_scan s now d) (\<lambda>(_, _, d'). Inr d') else Inr d) = Inr d1"
      "enqueue_for_scan s now (snd (commit_proposals ps s ts now d1)) = Inr (n, d')"
    using assms(2) by (auto simp: settle_covered_def bindE_eq_Inr)
  have e: "findings d' = findings d1" "events d' = events d1" "tasks d' = tasks d1" "scans d' = scans d1"
    using enqueue_for_scan_frame [of s now "snd (commit_proposals ps s ts now d1)"] d1(2) by auto
  show ?thesis
  proof (cases "s_mode s = FULL")
    case False
    then show ?thesis using d1(1) e by (intro kept) simp_all
  next
    case True
    then obtain r s' where r: "reconcile_scan s now d = Inr (r, s', d1)" using d1(1) by (auto simp: bindE_eq_Inr)
    from assms(1) r show ?thesis
    proof (cases rule: reconcile_scan_Inr)
      case refused
      then show ?thesis using e by (intro kept) simp_all
    next
      case ran
      show ?thesis
      proof (rule reconciled [OF True ran(1)])
        have "s_id s' = s_id s" using arg_cong [OF ran(8), of s_id] by simp
        then show "scans d' = scans (set_scan s' d)" by (simp add: e(4) ran(7) set_scan_def)
        show "tasks d' = tasks d" using arg_cong [OF ran(6), of tasks] e(3) by simp
        show "findings d' = map (\<lambda>f. if saw_any_content s d \<and> unseen s f then auto_resolved f else f) (findings d)"
          by (simp only: e(1) ran(4))
        show "events d' = events d @ (if saw_any_content s d then map (auto_resolved_event s) (filter (unseen s) (findings d)) else [])"
          by (simp only: e(2) ran(5))
      qed (rule ran(8))
    qed
  qed
qed

section \<open>Finishing as a whole\<close>

lemma set_scan_frame [simp]:
  "findings (set_scan s d) = findings d" "events (set_scan s d) = events d" "tasks (set_scan s d) = tasks d"
  "uuid4 (set_scan s d) = uuid4 d" "drawn (set_scan s d) = drawn d"
  by (simp_all add: set_scan_def)

lemma set_scan_again: "s_id s' = s_id s \<Longrightarrow> set_scan s' (set_scan s d) = set_scan s' d"
  by (simp add: set_scan_def update_where_def comp_def)

lemma tasks_of_set_scan [simp]: "tasks_of i (set_scan s d) = tasks_of i d"
  by (simp add: tasks_of_def)

lemma get_row_set_scan:
  assumes "distinct (map s_id (scans d))" and "s \<in> set (scans d)" and "s_id s' = s_id s"
  shows "get_row s_id (s_id s) (scans (set_scan s' d)) = Some s'"
proof -
  have "get_row s_id (s_id s) (scans d) = Some s" by (rule get_row_in [OF assms(1,2)])
  moreover have "get_row s_id (s_id s) (scans (set_scan s' d)) =
      map_option (\<lambda>r. if s_id r = s_id s' then s' else r) (get_row s_id (s_id s) (scans d))"
    using get_row_update_where [of "\<lambda>x. s_id x = s_id s'" s_id "\<lambda>_. s'" "s_id s" "scans d"]
    by (simp add: set_scan_def)
  ultimately show ?thesis using assms(3) by simp
qed

text \<open>The evidence that lets the absence of a finding from a scan speak.\<close>

definition absence_is_evidence :: "scan \<Rightarrow> db \<Rightarrow> bool" where
  "absence_is_evidence s d \<longleftrightarrow>
     s_mode s = FULL \<and>
     list_all (\<lambda>t. t_status t = TASK_COMPLETED \<and> fully_covered t) (tasks_of (s_id s) d) \<and>
     saw_any_content s d"

lemma unseen_cong: "s_id s' = s_id s \<Longrightarrow> s_source_id s' = s_source_id s \<Longrightarrow> unseen s' f \<longleftrightarrow> unseen s f"
  by (simp add: unseen_def)

lemma finalize_and_reconcile_cases:
  assumes "distinct (map f_id (findings d))" and "distinct (map s_id (scans d))"
    and "finalize_and_reconcile ps i now d = Inr (f, d')"
  obtains (idle) "f = None" "d' = d" "\<not> (all_finished i d \<and> (\<exists>s \<in> set (scans d). s_id s = i \<and> active_scan s))"
  | (finished) s s' where "s \<in> set (scans d)" "s_id s = i" "active_scan s" "all_finished i d"
      "f = Some (s_status s')" "tasks d' = tasks d" "scans d' = scans (set_scan s' d)"
      "s_id s' = i" "\<not> active_scan s'"
      "findings d' = map (\<lambda>g. if absence_is_evidence s d \<and> unseen s g then auto_resolved g else g) (findings d)"
      "\<exists>es. events d' = events d @ es \<and> (\<forall>e \<in> set es. ev_scan_id e = Some i)"
  using assms(2)
proof (cases rule: finalize_scan_if_done_cases [of d i now])
  case idle
  then show ?thesis using assms(3) by (intro that(1)) (simp_all add: finalize_and_reconcile_def)
next
  case (finished s)
  let ?r = "finished_row i now d s" and ?st = "final_status (map t_status (tasks_of i d))"
  let ?m = "manifest_of ?r (tasks_of i d)"
  let ?s = "?r\<lparr>s_coverage_manifest := StoredManifest ?m\<rparr>"
  have g: "get_row s_id i (scans (set_scan ?r d)) = Some ?r"
    using get_row_set_scan [OF assms(2) finished(1), of ?r] finished(2) by simp
  have again: "set_scan ?s (set_scan ?r d) = set_scan ?s d" by (rule set_scan_again) simp
  have f: "f = Some ?st" and c: "(if ?st = SCAN_COMPLETED \<and> m_coverage_state ?m = COV_COMPLETE
      then settle_covered ps ?s (tasks_of i d) now (set_scan ?s d) else Inr (set_scan ?s d)) = Inr d'"
    using assms(3) unfolding finalize_and_reconcile_def finished(5)
    by (auto simp: g Let_def build_manifest_Inr again bindE_eq_Inr)
  have inact: "\<not> active_scan x" if "s_status x = ?st" for x
    using that final_status_inactive by (simp add: active_scan_def)
  have all: "?st = SCAN_COMPLETED \<longleftrightarrow> (\<forall>t \<in> set (tasks_of i d). t_status t = TASK_COMPLETED)"
    by (simp add: final_status_completed)
  have cov: "?st = SCAN_COMPLETED \<and> m_coverage_state ?m = COV_COMPLETE \<longleftrightarrow>
      list_all (\<lambda>t. t_status t = TASK_COMPLETED \<and> fully_covered t) (tasks_of i d)"
    using all by (cases "?st = SCAN_COMPLETED") (auto simp: manifest_complete_iff list_all_iff)
  have saw: "saw_any_content ?s (set_scan ?s d) = saw_any_content s d" by (simp add: saw_any_content_def)
  have uns: "unseen ?s = unseen s" by (rule ext, rule unseen_cong) simp_all
  show ?thesis
  proof (cases "?st = SCAN_COMPLETED \<and> m_coverage_state ?m = COV_COMPLETE")
    case False
    then have "d' = set_scan ?s d" using c [unfolded if_not_P [OF False]] by simp
    moreover have "\<not> absence_is_evidence s d" using False cov finished(2) by (simp add: absence_is_evidence_def)
    ultimately show ?thesis
      using f inact finished(1-4) by (intro that(2) [of s ?s]) simp_all
  next
    case True
    have ids: "distinct (map f_id (findings (set_scan ?s d)))" using assms(1) by simp
    have "settle_covered ps ?s (tasks_of i d) now (set_scan ?s d) = Inr d'" using c [unfolded if_P [OF True]] .
    with ids show ?thesis
    proof (cases rule: settle_covered_Inr)
      case kept
      then have "\<not> absence_is_evidence s d" using True by (auto simp: absence_is_evidence_def)
      then show ?thesis
        using f inact finished(1-4) kept by (intro that(2) [of s ?s]) simp_all
    next
      case (reconciled s')
      have s': "s_id s' = i" "s_status s' = ?st"
        using arg_cong [OF reconciled(7), of s_id] arg_cong [OF reconciled(7), of s_status] finished(2) by simp_all
      have ev: "absence_is_evidence s d \<longleftrightarrow> saw_any_content s d"
        using reconciled(1) True cov finished(2) by (simp add: absence_is_evidence_def)
      show ?thesis
      proof (rule that(2) [of s s'])
        show "scans d' = scans (set_scan s' d)"
          unfolding reconciled(6) using s'(1) finished(2) by (subst set_scan_again) simp_all
        show "findings d' = map (\<lambda>g. if absence_is_evidence s d \<and> unseen s g then auto_resolved g else g) (findings d)"
          unfolding reconciled(3) by (simp add: saw uns ev)
        show "\<exists>es. events d' = events d @ es \<and> (\<forall>e \<in> set es. ev_scan_id e = Some i)"
          unfolding reconciled(4) using finished(2) by (auto simp: auto_resolved_event_def)
      qed (use f s' inact finished(1-4) reconciled(5) in simp_all)
    qed
  qed
qed

section \<open>Finishing never fails\<close>

definition ready :: "db \<Rightarrow> bool" where
  "ready d \<longleftrightarrow> distinct (map f_id (findings d)) \<and> distinct (map s_id (scans d)) \<and>
     list_all (\<lambda>s. unresolved_by (s_id s) (events d) \<and> counts_readable s) (filter active_scan (scans d))"

lemma settle_covered_total:
  assumes "distinct (map f_id (findings d))" and "unresolved_by (s_id s) (events d)" and "counts_readable s"
  shows "\<exists>d'. settle_covered ps s ts now d = Inr d'"
proof -
  obtain d1 where d1: "(if s_mode s = FULL then bindE (reconcile_scan s now d) (\<lambda>(_, _, d'). Inr d') else Inr d) = Inr d1"
  proof (cases "s_mode s = FULL")
    case True
    obtain r where "reconcile_scan s now d = Inr r" using reconcile_scan_total [OF assms] by blast
    with True show thesis by (cases r) (auto intro: that)
  qed (auto intro: that)
  obtain n d2 where "enqueue_for_scan s now (snd (commit_proposals ps s ts now d1)) = Inr (n, d2)"
    using enqueue_for_scan_frame by blast
  then show ?thesis by (simp add: settle_covered_def d1)
qed

lemma finalize_and_reconcile_total:
  assumes "ready d"
  shows "\<exists>f d'. finalize_and_reconcile ps i now d = Inr (f, d')"
proof -
  have d: "distinct (map f_id (findings d))" "distinct (map s_id (scans d))" using assms by (simp_all add: ready_def)
  from d(2) show ?thesis
  proof (cases rule: finalize_scan_if_done_cases [of d i now])
    case idle
    then show ?thesis by (simp add: finalize_and_reconcile_def)
  next
    case (finished s)
    let ?r = "finished_row i now d s"
    let ?s = "?r\<lparr>s_coverage_manifest := StoredManifest (manifest_of ?r (tasks_of i d))\<rparr>"
    have "unresolved_by (s_id s) (events d) \<and> counts_readable s"
      using assms finished(1,3) by (simp add: ready_def list_all_iff)
    then have "\<exists>d'. settle_covered ps ?s (tasks_of i d) now (set_scan ?s d) = Inr d'"
      using d(1) by (intro settle_covered_total) (simp_all add: counts_readable_def)
    moreover have "get_row s_id i (scans (set_scan ?r d)) = Some ?r"
      using get_row_set_scan [OF d(2) finished(1), of ?r] finished(2) by simp
    moreover have "set_scan ?s (set_scan ?r d) = set_scan ?s d" by (rule set_scan_again) simp
    ultimately show ?thesis
      unfolding finalize_and_reconcile_def finished(5) by (auto simp: Let_def build_manifest_Inr)
  qed
qed

definition stalled :: "nat \<Rightarrow> db \<Rightarrow> bool" where
  "stalled i d \<longleftrightarrow> all_finished i d \<and> list_ex (\<lambda>s. s_id s = i \<and> active_scan s) (scans d)"

lemma in_set_scan: "x \<in> set (scans (set_scan s' d)) \<Longrightarrow> x = s' \<or> x \<in> set (scans d) \<and> s_id x \<noteq> s_id s'"
  by (auto simp: set_scan_def set_update_where split: if_splits)

lemma finalize_and_reconcile_ready:
  assumes "ready d" and "finalize_and_reconcile ps i now d = Inr (f, d')"
  shows "ready d' \<and> \<not> stalled i d' \<and> (\<forall>j. stalled j d' \<longrightarrow> stalled j d) \<and> tasks d' = tasks d"
proof -
  have d: "distinct (map f_id (findings d))" "distinct (map s_id (scans d))" using assms(1) by (simp_all add: ready_def)
  from d assms(2) show ?thesis
  proof (cases rule: finalize_and_reconcile_cases)
    case idle
    then show ?thesis using assms(1) by (auto simp: stalled_def list_ex_iff)
  next
    case (finished s s')
    obtain es where es: "events d' = events d @ es" "\<forall>e \<in> set es. ev_scan_id e = Some i" using finished(11) by blast
    have rows: "x \<in> set (scans d) \<and> s_id x \<noteq> i" if "x \<in> set (scans d')" "active_scan x" for x
      using in_set_scan [OF that(1) [unfolded finished(7)]] that(2) finished(8,9) by auto
    have unr: "unresolved_by j (events d')" if "unresolved_by j (events d)" "j \<noteq> i" for j
      using that es(2) unfolding es(1) unresolved_by_def list_ex_append by (auto simp: list_ex_iff)
    have fin: "all_finished j d' \<longleftrightarrow> all_finished j d" for j
      by (simp add: all_finished_def tasks_of_def finished(6))
    have ids: "map s_id (scans d') = map s_id (scans d)"
      using finished(8) by (simp add: finished(7) set_scan_def update_where_def)
    have "ready d'"
      unfolding ready_def
    proof (intro conjI)
      have "map f_id (findings d') = map f_id (findings d)" unfolding finished(10) by simp
      then show "distinct (map f_id (findings d'))" using d(1) by (simp only:)
      show "distinct (map s_id (scans d'))" using d(2) by (simp only: ids)
      show "list_all (\<lambda>s. unresolved_by (s_id s) (events d') \<and> counts_readable s) (filter active_scan (scans d'))"
        using rows unr assms(1) unfolding ready_def list_all_iff set_filter by blast
    qed
    moreover have "\<not> stalled i d'" using rows by (auto simp: stalled_def list_ex_iff)
    moreover have "stalled j d" if "stalled j d'" for j
      using that rows by (auto simp: stalled_def list_ex_iff fin)
    ultimately show ?thesis using finished(6) by blast
  qed
qed

lemma finalize_each_effect:
  assumes "ready d"
  shows "\<exists>ids d'. finalize_each ps now is (acc, d) = Inr (ids, d') \<and> ready d' \<and> tasks d' = tasks d \<and>
    (\<forall>j. stalled j d' \<longrightarrow> stalled j d \<and> j \<notin> set is)"
  using assms
proof (induction "is" arbitrary: acc d)
  case (Cons i "is")
  obtain f d1 where f: "finalize_and_reconcile ps i now d = Inr (f, d1)"
    using finalize_and_reconcile_total [OF Cons.prems] by blast
  note r = finalize_and_reconcile_ready [OF Cons.prems f]
  let ?acc = "if f \<noteq> None then acc @ [i] else acc"
  obtain ids d' where "finalize_each ps now is (?acc, d1) = Inr (ids, d')" "ready d'" "tasks d' = tasks d1"
      "\<forall>j. stalled j d' \<longrightarrow> stalled j d1 \<and> j \<notin> set is"
    using Cons.IH [of d1 ?acc] r by blast
  moreover have "finalize_each ps now (i # is) (acc, d) = finalize_each ps now is (?acc, d1)" by (simp add: f)
  ultimately show ?case using r by (intro exI [of _ ids] exI [of _ d']) auto
qed simp

lemma in_map_cond: "g \<in> set xs \<Longrightarrow> (if P g then h g else g) \<in> set (map (\<lambda>g. if P g then h g else g) xs)"
  unfolding set_map by (rule imageI)

section \<open>Properties\<close>

text \<open>
  C26.  Finishing a scan changes a finding only by resolving it automatically, and only if the scan
  is a full one of the finding's source, every task of it completed with a report that names
  nothing skipped, failed or out of reach, at least one of them fetched content, and the finding
  was open, not suppressed and not seen by the scan.
\<close>

theorem findings_resolve_only_on_complete_evidence:
  assumes "distinct (map f_id (findings d))" and "distinct (map s_id (scans d))"
    and "finalize_and_reconcile ps i now d = Inr (final, d')" and "g \<in> set (findings d)" and "g \<notin> set (findings d')"
  shows "g\<lparr>f_state := RESOLVED, f_resolution := Some RES_AUTO\<rparr> \<in> set (findings d') \<and>
    f_state g = OPEN \<and> f_suppressed_at g = None \<and> f_last_seen_scan_id g \<noteq> i \<and>
    (\<exists>s \<in> set (scans d). s_id s = i \<and> active_scan s \<and> s_mode s = FULL \<and> s_source_id s = f_source_id g) \<and>
    list_all (\<lambda>t. t_status t = TASK_COMPLETED \<and> fully_covered t) (tasks_of i d) \<and>
    list_ex (\<lambda>t. t_scan_id t = i \<and> t_kind t = FETCH) (tasks d)"
  using assms(1-3)
proof (cases rule: finalize_and_reconcile_cases)
  case idle
  then show ?thesis using assms(4,5) by simp
next
  case (finished s s')
  have m: "(if absence_is_evidence s d \<and> unseen s g then auto_resolved g else g) \<in> set (findings d')"
    unfolding finished(10) by (rule in_map_cond [OF assms(4)])
  then have e: "absence_is_evidence s d \<and> unseen s g" using assms(5) by (simp split: if_splits)
  with m have "auto_resolved g \<in> set (findings d')" by simp
  then show ?thesis
    using e finished(1-3)
    by (auto simp: auto_resolved_def absence_is_evidence_def unseen_def saw_any_content_def rowcount_def
        list_ex_iff filter_empty_conv)
qed

text \<open>
  C27.  The sweep over stalled scans always goes through and leaves none behind: afterwards no
  active scan has all its tasks finished, so no source stays blocked by a scan that nobody would
  ever finish.  The hypothesis is what the tables keep: ids are unique, and no active scan has
  recorded a resolution.
\<close>

theorem stalled_scans_settle:
  assumes "ready d"
  shows "\<exists>ids d'. finalize_stalled_scans ps now d = Inr (ids, d') \<and> ready d' \<and>
    (\<forall>i. \<not> stalled i d')"
proof -
  obtain ids d' where e: "finalize_each ps now (map s_id (filter active_scan (scans d))) ([], d) = Inr (ids, d')"
    "ready d'" "\<forall>j. stalled j d' \<longrightarrow> stalled j d \<and> j \<notin> set (map s_id (filter active_scan (scans d)))"
    using finalize_each_effect [OF assms] by blast
  have "\<not> stalled i d'" for i
  proof
    assume "stalled i d'"
    then have "stalled i d" "i \<notin> set (map s_id (filter active_scan (scans d)))" using e(3) by blast+
    then show False by (auto simp: stalled_def list_ex_iff)
  qed
  then show ?thesis using e by (auto simp: finalize_stalled_scans_def)
qed

section \<open>Concrete runs\<close>

text \<open>
  A full scan whose two tasks finished and covered everything, with one open finding it saw and
  one it did not, and that nobody has finished yet.
\<close>

definition demo_report :: "scan_task_kind \<Rightarrow> nat \<Rightarrow> task_coverage_report" where
  "demo_report k n = \<lparr>tc_version = ''1'', tc_phase = k,
     tc_counts = \<lparr>cc_requested = n, cc_discovered = n, cc_scanned = n, cc_skipped = 0, cc_failed = 0\<rparr>,
     tc_scope = \<lparr>cs_requested = Some 1, cs_discovered = 1, cs_gaps = 0\<rparr>, tc_reasons = [], tc_gaps = [], tc_gaps_omitted = 0\<rparr>"

definition demo_stalled :: db where
  "demo_stalled = empty_db\<lparr>scans := [demo_scan],
     tasks := [demo_task\<lparr>t_id := 10, t_kind := DISCOVERY, t_coverage := Stored (demo_report DISCOVERY 0)\<rparr>,
               demo_task\<lparr>t_coverage := Stored (demo_report FETCH 1)\<rparr>],
     findings := [demo_finding\<lparr>f_last_seen_scan_id := 8\<rparr>, demo_finding\<lparr>f_id := 2\<rparr>]\<rparr>"

lemma demo_stalled_ready: "ready demo_stalled"
  by (simp add: ready_def demo_stalled_def demo_scan_def demo_finding_def unresolved_by_def counts_readable_def)

lemma demo_stalled_finishes:
  "\<exists>final d'. finalize_and_reconcile (\<lambda>_. []) 9 50 demo_stalled = Inr (final, d') \<and>
     demo_finding\<lparr>f_last_seen_scan_id := 8\<rparr> \<notin> set (findings d')"
proof -
  have "(case finalize_and_reconcile (\<lambda>_. []) 9 50 demo_stalled of Inl _ \<Rightarrow> [] | Inr (_, d') \<Rightarrow> map f_state (findings d')) =
      [RESOLVED, OPEN]" by code_simp
  moreover have "(case finalize_and_reconcile (\<lambda>_. []) 9 50 demo_stalled of Inl _ \<Rightarrow> [] | Inr (_, d') \<Rightarrow> map f_id (findings d')) =
      [1, 2]" by code_simp
  moreover obtain final d' where f: "finalize_and_reconcile (\<lambda>_. []) 9 50 demo_stalled = Inr (final, d')"
    using finalize_and_reconcile_total [OF demo_stalled_ready] by blast
  ultimately have "map f_state (findings d') = [RESOLVED, OPEN]" "map f_id (findings d') = [1, 2]" by simp_all
  then have "demo_finding\<lparr>f_last_seen_scan_id := 8\<rparr> \<notin> set (findings d')"
    by (auto simp: map_eq_Cons_conv demo_finding_def)
  then show ?thesis using f by blast
qed

theorem findings_resolve_only_on_complete_evidence_witness:
  "\<exists>final d'. finalize_and_reconcile (\<lambda>_. []) 9 50 demo_stalled = Inr (final, d') \<and>
     demo_finding\<lparr>f_last_seen_scan_id := 8, f_state := RESOLVED, f_resolution := Some RES_AUTO\<rparr> \<in> set (findings d')"
proof -
  obtain final d' where f: "finalize_and_reconcile (\<lambda>_. []) 9 50 demo_stalled = Inr (final, d')"
    "demo_finding\<lparr>f_last_seen_scan_id := 8\<rparr> \<notin> set (findings d')"
    using demo_stalled_finishes by blast
  have d: "distinct (map f_id (findings demo_stalled))" "distinct (map s_id (scans demo_stalled))"
    "demo_finding\<lparr>f_last_seen_scan_id := 8\<rparr> \<in> set (findings demo_stalled)"
    by (simp_all add: demo_stalled_def demo_finding_def)
  from findings_resolve_only_on_complete_evidence [OF d(1,2) f(1) d(3) f(2)] f(1) show ?thesis by auto
qed

theorem stalled_scans_settle_witness:
  "stalled 9 demo_stalled \<and>
   (\<exists>ids d'. finalize_stalled_scans (\<lambda>_. []) 50 demo_stalled = Inr (ids, d') \<and> \<not> stalled 9 d')"
proof -
  have "stalled 9 demo_stalled" by code_simp
  then show ?thesis using stalled_scans_settle [OF demo_stalled_ready] by blast
qed

end
