(* ===== verification/Validation.thy ===== *)
theory Validation
  imports Ingest
begin

text \<open>
  Opt-in validation of credentials: the reviewed pairs of \<^verbatim>\<open>packages/core/src/iceberg_core/validation.py\<close>
  and the policies and the authorization of reported results in
  \<^verbatim>\<open>apps/api/src/iceberg_api/validation/service.py\<close>.  Sending a field as \<open>null\<close> in an update is not the
  same as leaving it out, so an update has options of options; the columns are not nullable.
\<close>

section \<open>Reviewed contracts\<close>

definition VALIDATOR_RULES :: "(pystr \<times> pystr list) list" where
  "VALIDATOR_RULES = [(cps ''github-token-v1'', [cps ''github-token'', cps ''github-fine-grained-pat''])]"

definition VALIDATOR_CONTRACTS :: "(pystr \<times> (pystr \<times> pystr)) list" where
  "VALIDATOR_CONTRACTS = [(cps ''github-token-v1'', (cps ''github'', cps ''1''))]"

definition validator_supports_rule :: "pystr \<Rightarrow> pystr \<Rightarrow> bool" where
  "validator_supports_rule validator rule =
     (rule \<in> set (case map_of VALIDATOR_RULES validator of None \<Rightarrow> [] | Some rs \<Rightarrow> rs))"

definition validator_contract :: "pystr \<Rightarrow> (pystr \<times> pystr) option" where
  "validator_contract validator = map_of VALIDATOR_CONTRACTS validator"

definition valid_contract :: "pystr \<Rightarrow> pystr \<Rightarrow> pystr \<Rightarrow> pystr \<Rightarrow> bool" where
  "valid_contract validator rule provider version \<longleftrightarrow>
     validator_supports_rule validator rule \<and> validator_contract validator = Some (provider, version)"

section \<open>Policies\<close>

datatype policy_error = InvalidPolicy | PolicyConflict | NotNullViolation

record policy_create =
  pc_rule_id :: pystr
  pc_provider :: pystr
  pc_validator_id :: pystr
  pc_contract_version :: pystr
  pc_enabled :: bool
  pc_rationale :: pystr
  pc_timeout_seconds :: rat
  pc_requests_per_minute :: nat
  pc_max_attempts_per_task :: nat

record policy_update =
  pu_validator_id :: "pystr option option"
  pu_contract_version :: "pystr option option"
  pu_enabled :: "bool option option"
  pu_timeout_seconds :: "rat option option"
  pu_requests_per_minute :: "nat option option"
  pu_max_attempts_per_task :: "nat option option"
  pu_rationale :: "pystr option option"

definition create_policy :: "policy_create \<Rightarrow> db \<Rightarrow> policy_error + nat \<times> db" where
  "create_policy body d =
     (if \<not> valid_contract (pc_validator_id body) (pc_rule_id body) (pc_provider body) (pc_contract_version body)
      then Inl InvalidPolicy
      else if list_ex (\<lambda>p. vp_rule_id p = pc_rule_id body \<and> vp_provider p = pc_provider body) (policies d)
      then Inl PolicyConflict
      else
        let (i, d') = new_id d;
            p = \<lparr>vp_id = i, vp_rule_id = pc_rule_id body, vp_provider = pc_provider body,
                 vp_validator_id = pc_validator_id body, vp_contract_version = pc_contract_version body,
                 vp_enabled = pc_enabled body, vp_rationale = pc_rationale body,
                 vp_timeout_seconds = pc_timeout_seconds body,
                 vp_requests_per_minute = pc_requests_per_minute body,
                 vp_max_attempts_per_task = pc_max_attempts_per_task body\<rparr>
        in Inr (i, d'\<lparr>policies := policies d' @ [p]\<rparr>))"

text \<open>\<open>changes.field or old\<close>: an omitted or null value, like an empty string, keeps the old one.\<close>

definition or_old :: "pystr option option \<Rightarrow> pystr \<Rightarrow> pystr" where
  "or_old change old = (case change of Some (Some v) \<Rightarrow> if v = [] then old else v | _ \<Rightarrow> old)"

text \<open>Assigning a supplied field; a null reaches the column and is refused by the database.\<close>

definition set_field :: "'a option option \<Rightarrow> 'a \<Rightarrow> policy_error + 'a" where
  "set_field change old = (case change of None \<Rightarrow> Inr old | Some (Some v) \<Rightarrow> Inr v | Some None \<Rightarrow> Inl NotNullViolation)"

definition updated_policy :: "policy_update \<Rightarrow> validation_policy \<Rightarrow> policy_error + validation_policy" where
  "updated_policy c p =
     bindE (set_field (pu_validator_id c) (vp_validator_id p)) (\<lambda>validator.
     bindE (set_field (pu_contract_version c) (vp_contract_version p)) (\<lambda>version.
     bindE (set_field (pu_enabled c) (vp_enabled p)) (\<lambda>enabled.
     bindE (set_field (pu_timeout_seconds c) (vp_timeout_seconds p)) (\<lambda>timeout.
     bindE (set_field (pu_requests_per_minute c) (vp_requests_per_minute p)) (\<lambda>rpm.
     bindE (set_field (pu_max_attempts_per_task c) (vp_max_attempts_per_task p)) (\<lambda>attempts.
     bindE (set_field (pu_rationale c) (vp_rationale p)) (\<lambda>rationale.
       Inr (p\<lparr>vp_validator_id := validator, vp_contract_version := version, vp_enabled := enabled,
              vp_timeout_seconds := timeout, vp_requests_per_minute := rpm,
              vp_max_attempts_per_task := attempts, vp_rationale := rationale\<rparr>))))))))"

definition update_policy :: "validation_policy \<Rightarrow> policy_update \<Rightarrow> db \<Rightarrow> policy_error + db" where
  "update_policy p c d =
     (if \<not> valid_contract (or_old (pu_validator_id c) (vp_validator_id p)) (vp_rule_id p) (vp_provider p)
           (or_old (pu_contract_version c) (vp_contract_version p))
      then Inl InvalidPolicy
      else bindE (updated_policy c p) (\<lambda>p'.
        Inr (d\<lparr>policies := update_where (\<lambda>x. vp_id x = vp_id p) (\<lambda>_. p') (policies d)\<rparr>)))"

section \<open>What engines are given, and what they may report\<close>

record lease_policy =
  lp_policy_id :: nat
  lp_rule_id :: pystr
  lp_validator_id :: pystr
  lp_timeout_seconds :: rat
  lp_requests_per_minute :: nat
  lp_max_attempts_per_task :: nat

fun str_le :: "pystr \<Rightarrow> pystr \<Rightarrow> bool" where
  "str_le [] t = True"
| "str_le (a # s) [] = False"
| "str_le (a # s) (b # t) = (a < b \<or> (a = b \<and> str_le s t))"

fun insert_policy :: "validation_policy \<Rightarrow> validation_policy list \<Rightarrow> validation_policy list" where
  "insert_policy p [] = [p]"
| "insert_policy p (q # qs) =
     (if (if vp_rule_id p = vp_rule_id q then str_le (vp_provider p) (vp_provider q) else str_le (vp_rule_id p) (vp_rule_id q))
      then p # q # qs else q # insert_policy p qs)"

definition enabled_lease_snapshot :: "bool \<Rightarrow> db \<Rightarrow> lease_policy list" where
  "enabled_lease_snapshot deployment_enabled d =
     (if \<not> deployment_enabled then []
      else map (\<lambda>p. \<lparr>lp_policy_id = vp_id p, lp_rule_id = vp_rule_id p, lp_validator_id = vp_validator_id p,
                     lp_timeout_seconds = vp_timeout_seconds p, lp_requests_per_minute = vp_requests_per_minute p,
                     lp_max_attempts_per_task = vp_max_attempts_per_task p\<rparr>)
             (foldr insert_policy (filter vp_enabled (policies d)) []))"

type_synonym contract_key = "pystr \<times> pystr \<times> pystr \<times> pystr"

definition authorized_contracts :: "db \<Rightarrow> contract_key list" where
  "authorized_contracts d =
     map (\<lambda>p. (vp_rule_id p, vp_provider p, vp_validator_id p, vp_contract_version p)) (filter vp_enabled (policies d))"

definition reported_contract :: "finding_payload \<Rightarrow> contract_key option" where
  "reported_contract p =
     map_option (\<lambda>r. (fp_rule_id p, vr_provider r, vr_validator_id r, vr_contract_version r)) (fp_validation p)"

definition require_authorized_results :: "bool \<Rightarrow> finding_payload list \<Rightarrow> db \<Rightarrow> string + unit" where
  "require_authorized_results deployment_enabled payloads d =
     (let reported = List.map_filter reported_contract payloads in
      if reported = [] then Inr ()
      else if \<not> deployment_enabled then Inl ''credential validation is disabled by deployment policy''
      else if list_ex (\<lambda>k. k \<notin> set (authorized_contracts d)) reported
      then Inl ''validation result is not covered by an enabled policy''
      else Inr ())"

section \<open>Only reviewed contracts\<close>

definition policies_reviewed :: "db \<Rightarrow> bool" where
  "policies_reviewed d \<longleftrightarrow>
     list_all (\<lambda>p. valid_contract (vp_validator_id p) (vp_rule_id p) (vp_provider p) (vp_contract_version p)) (policies d)"

lemma create_policy_reviewed:
  "policies_reviewed d \<Longrightarrow> create_policy body d = Inr (i, d') \<Longrightarrow> policies_reviewed d'"
  by (auto simp: create_policy_def policies_reviewed_def new_id_def Let_def split: if_splits)

lemma set_field_Inr: "set_field c old = Inr v \<Longrightarrow> v = (case c of Some (Some x) \<Rightarrow> x | _ \<Rightarrow> old)"
  by (auto simp: set_field_def split: option.splits)

text \<open>
  An update is checked on the identifiers it will have, because the request model refuses empty
  strings and the database refuses nulls.
\<close>

definition update_trimmed :: "policy_update \<Rightarrow> bool" where
  "update_trimmed c \<longleftrightarrow> pu_validator_id c \<noteq> Some (Some []) \<and> pu_contract_version c \<noteq> Some (Some [])"

lemma updated_policy_contract:
  assumes "updated_policy c p = Inr p'" and "update_trimmed c"
  shows "vp_rule_id p' = vp_rule_id p" and "vp_provider p' = vp_provider p"
    and "vp_validator_id p' = or_old (pu_validator_id c) (vp_validator_id p)"
    and "vp_contract_version p' = or_old (pu_contract_version c) (vp_contract_version p)"
  using assms
  by (auto simp: updated_policy_def bindE_eq_Inr update_trimmed_def or_old_def dest!: set_field_Inr split: option.splits)

lemma update_policy_reviewed:
  assumes "policies_reviewed d" and "update_policy p c d = Inr d'" and "update_trimmed c"
  shows "policies_reviewed d'"
proof -
  obtain p' where p': "valid_contract (or_old (pu_validator_id c) (vp_validator_id p)) (vp_rule_id p) (vp_provider p)
      (or_old (pu_contract_version c) (vp_contract_version p))"
      "updated_policy c p = Inr p'" "policies d' = update_where (\<lambda>x. vp_id x = vp_id p) (\<lambda>_. p') (policies d)"
    using assms(2) by (auto simp: update_policy_def bindE_eq_Inr split: if_splits)
  have "valid_contract (vp_validator_id p') (vp_rule_id p') (vp_provider p') (vp_contract_version p')"
    using p'(1) updated_policy_contract [OF p'(2) assms(3)] by simp
  then show ?thesis
    using assms(1) unfolding policies_reviewed_def p'(3) list_all_iff set_update_where by auto
qed

lemma accepted_contracts:
  assumes "require_authorized_results b ps d = Inr ()" and "p \<in> set ps" and "reported_contract p = Some k"
  shows "b \<and> k \<in> set (authorized_contracts d)"
proof -
  have "k \<in> set (List.map_filter reported_contract ps)"
    using assms(2,3) by (induction ps) (auto simp: map_filter_simps split: option.splits)
  then show ?thesis
    using assms(1) by (auto simp: require_authorized_results_def Let_def list_ex_iff split: if_splits)
qed

text \<open>The administrator's requests in the order they are served; a refused one changes nothing.\<close>

datatype policy_request = CreatePolicy policy_create | UpdatePolicy nat policy_update

fun serve_policy :: "policy_request \<Rightarrow> db \<Rightarrow> db" where
  "serve_policy (CreatePolicy body) d = (case create_policy body d of Inl _ \<Rightarrow> d | Inr (_, d') \<Rightarrow> d')"
| "serve_policy (UpdatePolicy i c) d =
     (case List.find (\<lambda>p. vp_id p = i) (policies d) of
        None \<Rightarrow> d
      | Some p \<Rightarrow> (case update_policy p c d of Inl _ \<Rightarrow> d | Inr d' \<Rightarrow> d'))"

fun request_trimmed :: "policy_request \<Rightarrow> bool" where
  "request_trimmed (CreatePolicy body) = True"
| "request_trimmed (UpdatePolicy i c) = update_trimmed c"

lemma serve_policy_reviewed:
  "policies_reviewed d \<Longrightarrow> request_trimmed r \<Longrightarrow> policies_reviewed (serve_policy r d)"
  by (cases r)
     (auto split: sum.splits option.splits intro: create_policy_reviewed update_policy_reviewed)

lemma serve_policies_reviewed:
  "policies_reviewed d \<Longrightarrow> list_all request_trimmed rs \<Longrightarrow> policies_reviewed (fold serve_policy rs d)"
  by (induction rs arbitrary: d) (auto intro: serve_policy_reviewed)

lemma authorized_is_reviewed:
  assumes "policies_reviewed d" and "(rule, provider, validator, version) \<in> set (authorized_contracts d)"
  shows "valid_contract validator rule provider version"
  using assms by (auto simp: policies_reviewed_def authorized_contracts_def list_all_iff)

text \<open>
  C28.  Whatever create and update requests administrators have made, starting from no policies,
  and whatever an engine reports: a batch that \<^const>\<open>require_authorized_results\<close> lets through has
  validation results only when the deployment enables validation, and each of them names a
  detector, validator, provider and contract version that was reviewed in
  \<^const>\<open>VALIDATOR_RULES\<close> and \<^const>\<open>VALIDATOR_CONTRACTS\<close>.
\<close>

theorem accepted_validation_was_reviewed:
  assumes "policies d = []" and "list_all request_trimmed rs"
    and "require_authorized_results enabled ps (fold serve_policy rs d) = Inr ()"
  shows "list_all (\<lambda>p. case fp_validation p of
           None \<Rightarrow> True
         | Some r \<Rightarrow> enabled \<and> valid_contract (vr_validator_id r) (fp_rule_id p) (vr_provider r) (vr_contract_version r)) ps"
proof -
  have reviewed: "policies_reviewed (fold serve_policy rs d)"
    using assms(1,2) by (intro serve_policies_reviewed) (simp_all add: policies_reviewed_def)
  show ?thesis
    unfolding list_all_iff
    using accepted_contracts [OF assms(3)] authorized_is_reviewed [OF reviewed]
    by (fastforce simp: reported_contract_def split: option.splits)
qed

definition demo_policy :: policy_create where
  "demo_policy =
     \<lparr>pc_rule_id = cps ''github-token'', pc_provider = cps ''github'', pc_validator_id = cps ''github-token-v1'',
      pc_contract_version = cps ''1'', pc_enabled = True, pc_rationale = cps ''r'', pc_timeout_seconds = 5,
      pc_requests_per_minute = 30, pc_max_attempts_per_task = 1\<rparr>"

definition demo_validated :: finding_payload where
  "demo_validated =
     \<lparr>fp_fingerprint = cps ''fp'', fp_rule_id = cps ''github-token'', fp_rulepack_version = cps ''2'',
      fp_resource_locator = [], fp_redacted_snippet = cps ''y'', fp_secret_hash = cps ''h'',
      fp_entropy = None, fp_confidence = None, fp_severity = HIGH,
      fp_validation = Some \<lparr>vr_provider = cps ''github'', vr_validator_id = cps ''github-token-v1'',
                            vr_contract_version = cps ''1'', vr_status = VAL_LIVE, vr_reason = CREDENTIAL_ACCEPTED\<rparr>,
      fp_previous_fingerprint = None, fp_previous_secret_hash = None\<rparr>"

theorem accepted_validation_was_reviewed_witness:
  "require_authorized_results True [demo_validated] (fold serve_policy [CreatePolicy demo_policy] empty_db) = Inr () \<and>
   valid_contract (cps ''github-token-v1'') (cps ''github-token'') (cps ''github'') (cps ''1'')"
proof -
  have accepted: "require_authorized_results True [demo_validated] (fold serve_policy [CreatePolicy demo_policy] empty_db) = Inr ()"
    by code_simp
  have "list_all request_trimmed [CreatePolicy demo_policy]" by simp
  from accepted_validation_was_reviewed [OF _ this accepted] accepted show ?thesis
    by (simp add: demo_validated_def)
qed

text \<open>
  A field that is sent as \<open>null\<close> passes the request model and the contract check, and fails only
  when the row is written.
\<close>

lemma null_passes_the_contract_check:
  assumes "valid_contract (vp_validator_id p) (vp_rule_id p) (vp_provider p) (vp_contract_version p)"
    and "pu_validator_id c = Some None" and "pu_contract_version c = None"
  shows "update_policy p c d = Inl NotNullViolation"
  using assms by (simp add: update_policy_def updated_policy_def or_old_def set_field_def)

end
