(* ===== verification/Fleet.thy ===== *)
theory Fleet
  imports Iceberg_Models
begin

text \<open>
  Engines as the control plane knows them: registration and tokens
  (\<^verbatim>\<open>apps/api/src/iceberg_api/engines/auth.py\<close>, \<^verbatim>\<open>register_engine\<close> of \<^verbatim>\<open>engines/routes.py\<close>), heartbeats and
  the silence sweep (\<^verbatim>\<open>engines/fleet.py\<close>), and the administrative audit trail (\<^verbatim>\<open>audit.py\<close>).
  SHA-256 and the random token are parameters.
\<close>

section \<open>Audit trail\<close>

definition audit_record ::
  "nat option \<Rightarrow> string \<Rightarrow> string \<Rightarrow> nat option \<Rightarrow> (string \<times> pystr) list \<Rightarrow> int \<Rightarrow> db \<Rightarrow> db" where
  "audit_record actor action target_type target detail now d =
     d\<lparr>audits := audits d @
         [\<lparr>au_actor_id = actor, au_action = action, au_target_type = target_type, au_target_id = target,
           au_from_value = None, au_to_value = None, au_detail = detail, au_created_at = now\<rparr>]\<rparr>"

definition events_for :: "string \<Rightarrow> nat \<Rightarrow> db \<Rightarrow> audit_event list" where
  "events_for target_type target d =
     sort_key au_created_at (filter (\<lambda>a. au_target_type a = target_type \<and> au_target_id a = Some target) (audits d))"

section \<open>Tokens\<close>

definition BEARER_PREFIX :: pystr where "BEARER_PREFIX = cps ''Bearer ''"

definition presented_token :: "pystr option \<Rightarrow> pystr option" where
  "presented_token header =
     (let h = (case header of None \<Rightarrow> [] | Some v \<Rightarrow> v) in
      if prefix BEARER_PREFIX h
      then (let token = py_strip (drop (length BEARER_PREFIX) h) in if token = [] then None else Some token)
      else None)"

definition engine_for_token :: "(pystr \<Rightarrow> pystr) \<Rightarrow> pystr \<Rightarrow> db \<Rightarrow> engine option" where
  "engine_for_token hash_token token d = List.find (\<lambda>e. eng_token_hash e = hash_token token) (engines d)"

section \<open>Registration\<close>

record engine_register =
  er_name :: pystr
  er_version :: "pystr option"
  er_rulepack :: "jdict option"

text \<open>The unique indexes on \<open>name\<close> and \<open>token_hash\<close>.\<close>

definition engines_unique :: "engine list \<Rightarrow> bool" where
  "engines_unique rows \<longleftrightarrow> distinct (map eng_name rows) \<and> distinct (map eng_token_hash rows)"

definition truthy_text :: "pystr option \<Rightarrow> bool" where
  "truthy_text v \<longleftrightarrow> (case v of None \<Rightarrow> False | Some t \<Rightarrow> t \<noteq> [])"

definition reported :: "engine_register \<Rightarrow> engine \<Rightarrow> engine" where
  "reported body e =
     (let e1 = (if truthy_text (er_version body) then e\<lparr>eng_version := er_version body\<rparr> else e)
      in case er_rulepack body of None \<Rightarrow> e1 | Some r \<Rightarrow> e1\<lparr>eng_rulepack := r\<rparr>)"

definition mint_token :: "(pystr \<Rightarrow> pystr) \<Rightarrow> pystr \<Rightarrow> engine \<Rightarrow> engine" where
  "mint_token hash_token token e = e\<lparr>eng_token_hash := hash_token token\<rparr>"

definition new_engine :: "nat \<Rightarrow> engine_register \<Rightarrow> engine" where
  "new_engine i body =
     \<lparr>eng_id = i, eng_name = er_name body, eng_token_hash = [], eng_version = er_version body,
      eng_status = ENGINE_ACTIVE, eng_last_heartbeat_at = None,
      eng_rulepack = (case er_rulepack body of None \<Rightarrow> [] | Some r \<Rightarrow> r)\<rparr>"

text \<open>The engine's id and the token that is shown once, or the conflict of the unique indexes.\<close>

definition register_engine ::
  "(pystr \<Rightarrow> pystr) \<Rightarrow> pystr \<Rightarrow> nat \<Rightarrow> engine_register \<Rightarrow> int \<Rightarrow> db \<Rightarrow> (nat \<times> pystr) option \<times> db" where
  "register_engine hash_token token admin body now d =
     (case List.find (\<lambda>e. eng_name e = er_name body) (engines d) of
        Some e \<Rightarrow>
          let e' = mint_token hash_token token (reported body e);
              d1 = d\<lparr>engines := update_where (\<lambda>x. eng_id x = eng_id e) (\<lambda>_. e') (engines d)\<rparr>
          in if engines_unique (engines d1)
             then (Some (eng_id e, token),
                   audit_record (Some admin) ''engine.token_rotated'' ''engine'' (Some (eng_id e))
                     [(''name'', eng_name e)] now d1)
             else (None, d)
      | None \<Rightarrow>
          let (i, d1) = new_id d;
              e' = mint_token hash_token token (new_engine i body);
              d2 = d1\<lparr>engines := engines d1 @ [e']\<rparr>
          in if engines_unique (engines d2)
             then (Some (i, token),
                   audit_record (Some admin) ''engine.registered'' ''engine'' (Some i)
                     [(''name'', er_name body)] now d2)
             else (None, d1))"

section \<open>Heartbeats and silence\<close>

definition beat :: "pystr option \<Rightarrow> jdict option \<Rightarrow> int \<Rightarrow> engine \<Rightarrow> engine" where
  "beat version rulepack now e =
     (let e1 = e\<lparr>eng_last_heartbeat_at := Some now\<rparr>;
          e2 = (if truthy_text version then e1\<lparr>eng_version := version\<rparr> else e1);
          e3 = (case rulepack of None \<Rightarrow> e2 | Some r \<Rightarrow> e2\<lparr>eng_rulepack := r\<rparr>)
      in if eng_status e3 = ENGINE_OFFLINE then e3\<lparr>eng_status := ENGINE_ACTIVE\<rparr> else e3)"

definition record_heartbeat :: "nat \<Rightarrow> pystr option \<Rightarrow> jdict option \<Rightarrow> int \<Rightarrow> db \<Rightarrow> db" where
  "record_heartbeat engine_id version rulepack now d =
     d\<lparr>engines := update_where (\<lambda>e. eng_id e = engine_id) (beat version rulepack now) (engines d)\<rparr>"

definition gone_quiet :: "int \<Rightarrow> engine \<Rightarrow> bool" where
  "gone_quiet cutoff e \<longleftrightarrow>
     eng_status e \<noteq> ENGINE_OFFLINE \<and> (case eng_last_heartbeat_at e of None \<Rightarrow> False | Some t \<Rightarrow> t < cutoff)"

definition mark_one :: "int \<Rightarrow> nat \<Rightarrow> nat list \<times> db \<Rightarrow> nat list \<times> db" where
  "mark_one cutoff i nd =
     (case nd of (ids, d) \<Rightarrow>
        let P = (\<lambda>e. eng_id e = i \<and> gone_quiet cutoff e) in
        if rowcount P (engines d) = 1
        then (ids @ [i], d\<lparr>engines := update_where P (\<lambda>e. e\<lparr>eng_status := ENGINE_OFFLINE\<rparr>) (engines d)\<rparr>)
        else (ids, d\<lparr>engines := update_where P (\<lambda>e. e\<lparr>eng_status := ENGINE_OFFLINE\<rparr>) (engines d)\<rparr>))"

definition mark_stale_engines_offline :: "int \<Rightarrow> int \<Rightarrow> db \<Rightarrow> nat list \<times> db" where
  "mark_stale_engines_offline stale_after now d =
     (let cutoff = now - 1000000 * stale_after;
          stale = map eng_id (filter (gone_quiet cutoff) (engines d))
      in if stale = [] then ([], d) else fold (mark_one cutoff) stale ([], d))"

section \<open>What the sweep and a heartbeat do together\<close>

lemma mark_one_engines:
  "engines (snd (mark_one cutoff i nd)) =
     update_where (\<lambda>e. eng_id e = i \<and> gone_quiet cutoff e) (\<lambda>e. e\<lparr>eng_status := ENGINE_OFFLINE\<rparr>) (engines (snd nd))"
  by (simp add: mark_one_def Let_def split: prod.split)

lemma mark_all_engines:
  "engines (snd (fold (mark_one cutoff) is nd)) =
     update_where (\<lambda>e. eng_id e \<in> set is \<and> gone_quiet cutoff e) (\<lambda>e. e\<lparr>eng_status := ENGINE_OFFLINE\<rparr>) (engines (snd nd))"
proof (induction "is" arbitrary: nd)
  case (Cons i "is")
  have "update_where (\<lambda>e. eng_id e \<in> set is \<and> gone_quiet cutoff e) (\<lambda>e. e\<lparr>eng_status := ENGINE_OFFLINE\<rparr>)
      (update_where (\<lambda>e. eng_id e = i \<and> gone_quiet cutoff e) (\<lambda>e. e\<lparr>eng_status := ENGINE_OFFLINE\<rparr>) rows) =
    update_where (\<lambda>e. eng_id e \<in> set (i # is) \<and> gone_quiet cutoff e) (\<lambda>e. e\<lparr>eng_status := ENGINE_OFFLINE\<rparr>) rows" for rows
    by (induction rows) (auto simp: gone_quiet_def)
  then show ?case by (simp add: Cons.IH mark_one_engines)
qed (simp add: update_where_def)

lemma mark_stale_engines:
  "engines (snd (mark_stale_engines_offline n now d)) =
     update_where (gone_quiet (now - 1000000 * n)) (\<lambda>e. e\<lparr>eng_status := ENGINE_OFFLINE\<rparr>) (engines d)"
proof -
  let ?c = "now - 1000000 * n"
  have "update_where (\<lambda>e. eng_id e \<in> eng_id ` set (filter (gone_quiet ?c) rows0) \<and> gone_quiet ?c e) f rows =
      update_where (gone_quiet ?c) f rows" if "set rows \<subseteq> set rows0" for rows0 rows and f :: "engine \<Rightarrow> engine"
    using that by (induction rows) auto
  moreover have "update_where (gone_quiet ?c) f rows = rows" if "filter (gone_quiet ?c) rows = []"
    for rows and f :: "engine \<Rightarrow> engine"
    using that by (induction rows) (auto split: if_splits)
  ultimately show ?thesis by (simp add: mark_stale_engines_offline_def Let_def mark_all_engines)
qed

end
