(* ===== verification/Engine_Routes.thy ===== *)
theory Engine_Routes
  imports Settlement Validation Fleet
begin

text \<open>
  The engine-facing handlers of \<^verbatim>\<open>apps/api/src/iceberg_api/engines/routes.py\<close>: heartbeat, lease, progress
  batches and results.  A handler returns its answer or the error it raises, and the database as it
  is committed at that point; where it rolls back, that is the database it started from.  A handler that
  commits more than once is composed of its transactions, which the control plane also interleaves.  One clock
  reading stands for the calls of \<open>now\<close> within a request.  The secret store is a record of what its
  calls return, with \<open>None\<close> for \<open>SecretStoreError\<close>.
\<close>

section \<open>Requests and answers\<close>

datatype http_error = HTTPException nat string | Uncaught py_error

type_synonym 'a reply = "(http_error + 'a) \<times> db"

record secret_store =
  ss_pepper :: "nat list option"
  ss_previous_pepper :: "nat list option option"
  ss_open :: "pystr \<Rightarrow> pystr option"
  ss_correlate :: "correlate option"

record engine_settings =
  es_secret_validation_enabled :: bool
  es_confidence_threshold :: rat

record cursor_proposal =
  cp_scope :: pystr
  cp_version :: pystr
  cp_position :: jdict

record results_submission =
  rs_idempotency_key :: pystr
  rs_status :: scan_task_status
  rs_error :: "pystr option"
  rs_findings :: "finding_payload list"
  rs_task_specs :: "jdict list"
  rs_rulepack_version :: "pystr option"
  rs_counts :: totals
  rs_coverage :: "task_coverage_report option"
  rs_checkpoint_sequence :: nat
  rs_cursor :: "cursor_proposal option"

record progress_submission =
  ps_sequence :: nat
  ps_checkpoint :: jdict
  ps_findings :: "finding_payload list"
  ps_counts :: totals
  ps_coverage :: "task_coverage_report option"
  ps_rulepack_version :: "pystr option"

record progress_accepted =
  pa_task_id :: nat
  pa_sequence :: nat
  pa_replay :: bool
  pa_outcome :: ingest_outcome

record results_accepted =
  ra_task_id :: nat
  ra_replay :: bool
  ra_outcome :: ingest_outcome
  ra_fetch_tasks_created :: nat
  ra_scan_status :: "scan_status option"

definition correlation_of :: "secret_store \<Rightarrow> correlate" where
  "correlation_of store = (case ss_correlate store of None \<Rightarrow> None | Some c \<Rightarrow> c)"

section \<open>The task's outcome\<close>

definition REPORTABLE_STATUSES :: "scan_task_status list" where
  "REPORTABLE_STATUSES = [TASK_COMPLETED, TASK_FAILED]"

definition unit_noun :: "int \<Rightarrow> string" where
  "unit_noun n = (if n = 1 then ''unit'' else ''units'')"

definition effective_outcome ::
  "results_submission \<Rightarrow> totals \<Rightarrow> task_coverage_report option \<Rightarrow> scan_task_status \<times> pystr option" where
  "effective_outcome body counts coverage =
     (let failed = total_of counts (cps ''units_failed'');
          truncated = total_of counts (cps ''units_truncated'');
          completed = (rs_status body = TASK_COMPLETED);
          missed = (case coverage of None \<Rightarrow> False
                    | Some r \<Rightarrow> cc_failed (tc_counts r) \<noteq> 0 \<or> cs_gaps (tc_scope r) \<noteq> 0)
      in if completed \<and> missed
         then (TASK_FAILED, Some (cps ''coverage report contains uninspected requested content''))
         else if completed \<and> failed > 0 \<and> truncated = 0
         then (TASK_FAILED, Some (py_digits (nat failed) @ cps '' requested content '' @ cps (unit_noun failed) @
                                  cps '' could not be read''))
         else if completed \<and> truncated > 0 \<and> failed = 0
         then (TASK_FAILED, Some (py_digits (nat truncated) @ cps '' requested content '' @ cps (unit_noun truncated) @
                                  cps (if truncated = 1 then '' was'' else '' were'') @ cps '' truncated''))
         else if completed \<and> (failed > 0 \<or> truncated > 0)
         then (TASK_FAILED, Some (py_digits (nat failed) @ cps '' requested content units could not be read and '' @
                                  py_digits (nat truncated) @ cps '' were truncated''))
         else (rs_status body, rs_error body))"

section \<open>Heartbeat\<close>

fun beat_tasks :: "nat \<Rightarrow> int \<Rightarrow> nat \<Rightarrow> nat list \<Rightarrow> db \<Rightarrow> nat list \<times> db" where
  "beat_tasks engine_id now lease_seconds [] d = ([], d)"
| "beat_tasks engine_id now lease_seconds (i # is) d =
     (case get_row t_id i (tasks d) of
        None \<Rightarrow> beat_tasks engine_id now lease_seconds is d
      | Some t \<Rightarrow>
          if t_engine_id t \<noteq> Some engine_id then beat_tasks engine_id now lease_seconds is d
          else if t_status t = TASK_CANCELLED
          then (let (cancelled, d') = beat_tasks engine_id now lease_seconds is d in (t_id t # cancelled, d'))
          else if t_status t \<in> set LEASED_STATUSES
          then beat_tasks engine_id now lease_seconds is (snd (renew_lease t now lease_seconds d))
          else beat_tasks engine_id now lease_seconds is d)"

record heartbeat_request =
  hb_version :: "pystr option"
  hb_rulepack :: "jdict option"
  hb_task_ids :: "nat list"

definition heartbeat :: "nat \<Rightarrow> nat \<Rightarrow> heartbeat_request \<Rightarrow> int \<Rightarrow> db \<Rightarrow> (nat list) reply" where
  "heartbeat path_id engine_id body now d =
     (if path_id \<noteq> engine_id then (Inl (HTTPException 403 ''token does not match this engine''), d)
      else
        let (cancelled, d') = beat_tasks engine_id now DEFAULT_LEASE_SECONDS (hb_task_ids body)
              (record_heartbeat engine_id (hb_version body) (hb_rulepack body) now d)
        in (Inr cancelled, d'))"

section \<open>Leases\<close>

text \<open>\<open>base64.b64encode\<close>.\<close>

definition b64_char :: "nat \<Rightarrow> int" where
  "b64_char n = (if n < 26 then 65 + int n else if n < 52 then 71 + int n else if n < 62 then int n - 4
                 else if n = 62 then 43 else 47)"

fun b64encode :: "nat list \<Rightarrow> pystr" where
  "b64encode [] = []"
| "b64encode [a] = [b64_char (a div 4), b64_char (a mod 4 * 16), 61, 61]"
| "b64encode [a, b] = [b64_char (a div 4), b64_char (a mod 4 * 16 + b div 16), b64_char (b mod 16 * 4), 61]"
| "b64encode (a # b # c # bs) =
     b64_char (a div 4) # b64_char (a mod 4 * 16 + b div 16) # b64_char (b mod 16 * 4 + c div 64) #
     b64_char (c mod 64) # b64encode bs"

text \<open>
  \<open>datetime.isoformat\<close> of a UTC timestamp: the civil date of the day, the time, and the
  microseconds unless there are none.
\<close>

definition padded :: "nat \<Rightarrow> int \<Rightarrow> pystr" where
  "padded w n = (let ds = py_digits (nat n) in replicate (w - length ds) 48 @ ds)"

definition civil_date :: "int \<Rightarrow> int \<times> int \<times> int" where
  "civil_date days =
     (let z = days + 719468;
          era = z div 146097;
          doe = z mod 146097;
          yoe = (doe - doe div 1460 + doe div 36524 - doe div 146096) div 365;
          doy = doe - (365 * yoe + yoe div 4 - yoe div 100);
          mp = (5 * doy + 2) div 153;
          day = doy - (153 * mp + 2) div 5 + 1;
          month = (if mp < 10 then mp + 3 else mp - 9)
      in (yoe + era * 400 + (if month \<le> 2 then 1 else 0), month, day))"

definition isoformat :: "int \<Rightarrow> pystr" where
  "isoformat us =
     (let (y, m, dd) = civil_date (us div 86400000000);
          r = us mod 86400000000;
          micro = r mod 1000000
      in padded 4 y @ cps ''-'' @ padded 2 m @ cps ''-'' @ padded 2 dd @ cps ''T'' @
         padded 2 (r div 3600000000) @ cps '':'' @ padded 2 (r div 60000000 mod 60) @ cps '':'' @
         padded 2 (r div 1000000 mod 60) @
         (if micro = 0 then [] else cps ''.'' @ padded 6 micro) @ cps ''+00:00'')"

text \<open>A JSON value for an optional text, and what a stored checkpoint context is compared with.\<close>

definition json_opt :: "pystr option \<Rightarrow> json" where
  "json_opt v = (case v of None \<Rightarrow> JNull | Some s \<Rightarrow> JStr s)"

definition checkpoint_context :: "scan \<Rightarrow> pystr option \<Rightarrow> jdict" where
  "checkpoint_context s version =
     [(cps ''source_configuration_version'', json_opt (map_option isoformat (s_source_configuration_version s))),
      (cps ''rulepack_version'', json_opt version)]"

definition json_get :: "jdict \<Rightarrow> string \<Rightarrow> json" where
  "json_get ctx k = (case map_of ctx (cps k) of None \<Rightarrow> JNull | Some v \<Rightarrow> v)"

definition checkpoint_still_valid :: "scan_task \<Rightarrow> scan \<Rightarrow> bool" where
  "checkpoint_still_valid t s \<longleftrightarrow>
     json_get (t_checkpoint_context t) ''source_configuration_version'' =
       json_opt (map_option isoformat (s_source_configuration_version s)) \<and>
     json_get (t_checkpoint_context t) ''rulepack_version'' = json_opt (s_rulepack_version s)"

record lease_response =
  lr_task_id :: nat
  lr_scan_id :: nat
  lr_source_id :: nat
  lr_source_type :: source_type
  lr_kind :: scan_task_kind
  lr_attempt :: nat
  lr_lease_expires_at :: int
  lr_spec :: jdict
  lr_connection :: jdict
  lr_checkpoint :: jdict
  lr_checkpoint_sequence :: nat
  lr_cursors :: "(pystr \<times> jdict) list"
  lr_mode :: scan_mode
  lr_credential :: "pystr option"
  lr_pepper :: pystr
  lr_previous_pepper :: "pystr option"
  lr_suppressions :: "suppression_rule list"
  lr_confidence_threshold :: rat
  lr_validation_policies :: "lease_policy list"

text \<open>A task that cannot be worked is failed in the same request, and its scan settled.\<close>

definition fail_lease ::
  "(json \<Rightarrow> pystr) \<Rightarrow> scan_task \<Rightarrow> string \<Rightarrow> coverage_reason \<Rightarrow> string \<Rightarrow> int \<Rightarrow> db \<Rightarrow> 'a reply" where
  "fail_lease py_str t error reason message now d =
     (let d1 = complete_task (t_id t) TASK_FAILED (Some (cps error)) (Some (failure_report (t_kind t) reason)) now d
      in case finalize_and_reconcile py_str (t_scan_id t) now d1 of
           Inl e \<Rightarrow> (Inl (Uncaught e), d1)
         | Inr (_, d2) \<Rightarrow> (Inl (HTTPException 500 message), d2))"

definition previous_pepper_of :: "secret_store \<Rightarrow> pystr option" where
  "previous_pepper_of store =
     (case ss_previous_pepper store of
        Some (Some p) \<Rightarrow> if p = [] then None else Some (b64encode p)
      | _ \<Rightarrow> None)"

text \<open>The credential to send: none is configured, it is read, or it cannot be read.\<close>

definition credential_of :: "secret_store \<Rightarrow> source \<Rightarrow> unit + pystr option" where
  "credential_of store src =
     (case src_credential_ref src of
        None \<Rightarrow> Inr None
      | Some r \<Rightarrow> (case ss_open store r of None \<Rightarrow> Inl () | Some c \<Rightarrow> Inr (Some c)))"

definition lease_answer ::
  "engine_settings \<Rightarrow> scan_task \<Rightarrow> scan \<Rightarrow> source \<Rightarrow> int \<Rightarrow> pystr \<Rightarrow> pystr option \<Rightarrow> pystr option \<Rightarrow> jdict \<Rightarrow> int \<Rightarrow> db \<Rightarrow>
   lease_response" where
  "lease_answer settings t s src expires pepper previous credential checkpoint now d =
     \<lparr>lr_task_id = t_id t, lr_scan_id = s_id s, lr_source_id = src_id src, lr_source_type = src_type src,
      lr_kind = t_kind t, lr_attempt = t_attempts t, lr_lease_expires_at = expires, lr_spec = t_spec t,
      lr_connection = src_connection src, lr_checkpoint = checkpoint,
      lr_checkpoint_sequence = t_checkpoint_sequence t, lr_cursors = positions_for_scan d s, lr_mode = s_mode s,
      lr_credential = credential, lr_pepper = pepper, lr_previous_pepper = previous,
      lr_suppressions = applicable_suppressions d (src_id src) now,
      lr_confidence_threshold = es_confidence_threshold settings,
      lr_validation_policies = enabled_lease_snapshot (es_secret_validation_enabled settings) d\<rparr>"

definition lease_granted ::
  "(json \<Rightarrow> pystr) \<Rightarrow> secret_store \<Rightarrow> engine_settings \<Rightarrow> scan_task \<Rightarrow> scan \<Rightarrow> source \<Rightarrow> int \<Rightarrow> int \<Rightarrow> db \<Rightarrow>
   lease_response reply" where
  "lease_granted py_str store settings t s src expires now d =
     (case ss_pepper store of
        None \<Rightarrow> fail_lease py_str t ''fingerprint pepper unavailable'' CONNECTOR_ERROR
                  ''fingerprint pepper could not be read'' now d
      | Some pepper \<Rightarrow>
          (case credential_of store src of
             Inl _ \<Rightarrow> fail_lease py_str t ''source credential unreadable'' PERMISSION_DENIED
                        ''source credential could not be decrypted'' now d
           | Inr credential \<Rightarrow>
               let stale = (t_checkpoint t \<noteq> [] \<and> \<not> checkpoint_still_valid t s);
                   checkpoint = (if stale then [] else t_checkpoint t);
                   d' = (if stale then discard_checkpoint (t_id t) now d else d)
               in (Inr (lease_answer settings t s src expires (b64encode pepper) (previous_pepper_of store)
                          credential checkpoint now d'), d')))"

text \<open>
  \<open>claim_task\<close> commits and reads the row back; the rest of the request is a transaction of its own,
  on whatever the database is by then.
\<close>

definition lease_claimed ::
  "(json \<Rightarrow> pystr) \<Rightarrow> secret_store \<Rightarrow> engine_settings \<Rightarrow> scan_task \<Rightarrow> int \<Rightarrow> int \<Rightarrow> db \<Rightarrow> lease_response reply" where
  "lease_claimed py_str store settings t expires now d =
     (case get_row s_id (t_scan_id t) (scans d) of
        None \<Rightarrow> (Inl (HTTPException 409 ''task is not available to lease''), d)
      | Some s \<Rightarrow>
          (case get_row src_id (s_source_id s) (sources d) of
             None \<Rightarrow> (Inl (HTTPException 409 ''task is not available to lease''), d)
           | Some src \<Rightarrow> lease_granted py_str store settings t s src expires now d))"

definition lease_task ::
  "(json \<Rightarrow> pystr) \<Rightarrow> secret_store \<Rightarrow> engine_settings \<Rightarrow> nat \<Rightarrow> nat \<Rightarrow> int \<Rightarrow> db \<Rightarrow> lease_response reply" where
  "lease_task py_str store settings task_id engine_id now d =
     (case claim_task task_id engine_id now DEFAULT_LEASE_SECONDS d of
        (None, d1) \<Rightarrow> (Inl (HTTPException 409 ''task is not available to lease''), d1)
      | (Some (t, expires), d1) \<Rightarrow> lease_claimed py_str store settings t expires now d1)"

section \<open>Progress batches\<close>

text \<open>Storing a batch's findings, and the tallies and rule pack on its scan.\<close>

definition store_findings ::
  "(pystr \<Rightarrow> pystr) \<Rightarrow> secret_store \<Rightarrow> engine_settings \<Rightarrow> scan \<Rightarrow> finding_payload list \<Rightarrow> int \<Rightarrow> db \<Rightarrow>
   py_error + ingest_outcome \<times> db" where
  "store_findings casefold store settings s payloads now d =
     (if payloads = [] then Inr (no_outcome, d)
      else ingest_findings casefold (correlation_of store) (es_confidence_threshold settings) s payloads now d)"

definition tally_scan :: "nat \<Rightarrow> ingest_outcome \<Rightarrow> totals \<Rightarrow> pystr option \<Rightarrow> int \<Rightarrow> db \<Rightarrow> db" where
  "tally_scan scan_id out counts version now d =
     d\<lparr>scans := update_where (\<lambda>x. s_id x = scan_id)
         (\<lambda>x. (let x1 = merge_scan_counts out counts x
               in if truthy_text version then x1\<lparr>s_rulepack_version := version\<rparr> else x1)\<lparr>s_updated_at := now\<rparr>) (scans d)\<rparr>"

definition merge_batch_coverage :: "nat \<Rightarrow> task_coverage_report option \<Rightarrow> db \<Rightarrow> py_error + db" where
  "merge_batch_coverage task_id coverage d =
     (case coverage of
        None \<Rightarrow> Inr d
      | Some delta \<Rightarrow>
          (case get_row t_id task_id (tasks d) of
             None \<Rightarrow> Inr d
           | Some t \<Rightarrow>
               bindE (merge_task_report (stored_task_report (t_kind t) (t_coverage t)) delta) (\<lambda>r.
                 Inr (d\<lparr>tasks := update_where (\<lambda>x. t_id x = task_id) (\<lambda>x. x\<lparr>t_coverage := Stored r\<rparr>) (tasks d)\<rparr>))))"

definition batch_stored ::
  "(pystr \<Rightarrow> pystr) \<Rightarrow> secret_store \<Rightarrow> engine_settings \<Rightarrow> nat \<Rightarrow> scan \<Rightarrow> progress_submission \<Rightarrow> int \<Rightarrow> db \<Rightarrow>
   py_error + ingest_outcome \<times> db" where
  "batch_stored casefold store settings task_id s body now d =
     bindE (store_findings casefold store settings s (ps_findings body) now d) (\<lambda>(out, d1).
     bindE (merge_batch_coverage task_id (ps_coverage body) d1) (\<lambda>d2.
       Inr (out, tally_scan (s_id s) out (ps_counts body) (ps_rulepack_version body) now d2)))"

definition submit_progress ::
  "(pystr \<Rightarrow> pystr) \<Rightarrow> secret_store \<Rightarrow> engine_settings \<Rightarrow> nat \<Rightarrow> progress_submission \<Rightarrow> nat \<Rightarrow> int \<Rightarrow> db \<Rightarrow>
   progress_accepted reply" where
  "submit_progress casefold store settings task_id body engine_id now d =
     (case get_row t_id task_id (tasks d) of
        None \<Rightarrow> (Inl (HTTPException 404 ''task not found''), d)
      | Some t \<Rightarrow>
          if t_engine_id t \<noteq> Some engine_id then (Inl (HTTPException 403 ''task is not leased by this engine''), d)
          else if t_kind t \<noteq> FETCH then (Inl (HTTPException 422 ''only fetch tasks batch results''), d)
          else
            (case require_authorized_results (es_secret_validation_enabled settings) (ps_findings body) d of
               Inl message \<Rightarrow> (Inl (HTTPException 422 message), d)
             | Inr _ \<Rightarrow>
                 (case get_row s_id (t_scan_id t) (scans d) of
                    None \<Rightarrow> (Inl (HTTPException 404 ''scan not found''), d)
                  | Some s \<Rightarrow>
                      let (advanced, d1) = advance_checkpoint t (ps_sequence body) (ps_checkpoint body)
                            (checkpoint_context s (ps_rulepack_version body)) now d
                      in if \<not> advanced
                         then (if t_result_key t \<noteq> None
                               then (Inl (HTTPException 409 ''task is no longer accepting batches''), d)
                               else (Inr \<lparr>pa_task_id = t_id t, pa_sequence = t_checkpoint_sequence t, pa_replay = True,
                                          pa_outcome = no_outcome\<rparr>, d))
                         else
                           (case batch_stored casefold store settings task_id s body now d1 of
                              Inl e \<Rightarrow> (Inl (Uncaught e), d)
                            | Inr (out, d2) \<Rightarrow>
                                (Inr \<lparr>pa_task_id = t_id t, pa_sequence = ps_sequence body, pa_replay = False,
                                      pa_outcome = out\<rparr>, d2)))))"

section \<open>Results\<close>

definition replay :: "(json \<Rightarrow> pystr) \<Rightarrow> scan_task \<Rightarrow> int \<Rightarrow> db \<Rightarrow> results_accepted reply" where
  "replay py_str t now d =
     (case finalize_and_reconcile py_str (t_scan_id t) now d of
        Inl e \<Rightarrow> (Inl (Uncaught e), d)
      | Inr (final, d') \<Rightarrow>
          (Inr \<lparr>ra_task_id = t_id t, ra_replay = True, ra_outcome = no_outcome, ra_fetch_tasks_created = 0,
                ra_scan_status = final\<rparr>, d'))"

text \<open>The checks of \<open>submit_results\<close> that need only the body and the task.\<close>

definition results_refusal :: "results_submission \<Rightarrow> scan_task \<Rightarrow> http_error option" where
  "results_refusal body t =
     (if rs_status body \<notin> set REPORTABLE_STATUSES
      then Some (HTTPException 422 ''an engine may report completed or failed only'')
      else if (case rs_coverage body of None \<Rightarrow> False | Some r \<Rightarrow> tc_phase r \<noteq> t_kind t)
      then Some (HTTPException 422 ''coverage phase does not match the leased task kind'')
      else if t_kind t = DISCOVERY \<and>
              (case rs_coverage body of None \<Rightarrow> False
               | Some r \<Rightarrow> cs_discovered (tc_scope r) \<noteq> length (rs_task_specs body))
      then Some (HTTPException 422 ''discovery coverage must reconcile to the reported task specs'')
      else if t_kind t = DISCOVERY \<and> rs_findings body \<noteq> []
      then Some (HTTPException 422 ''discovery tasks may report task specs but not findings'')
      else if rs_checkpoint_sequence body \<noteq> t_checkpoint_sequence t
      then Some (HTTPException 409 ''reported batch sequence does not match the recorded one'')
      else if t_kind t = FETCH \<and> rs_task_specs body \<noteq> []
      then Some (HTTPException 422 ''fetch tasks may report findings but not task specs'')
      else None)"

definition merged_coverage ::
  "results_submission \<Rightarrow> scan_task \<Rightarrow> py_error + task_coverage_report option" where
  "merged_coverage body t =
     (if rs_checkpoint_sequence body = 0 then Inr (rs_coverage body)
      else
        (case rs_coverage body of
           None \<Rightarrow> Inr (stored_task_report (t_kind t) (t_coverage t))
         | Some delta \<Rightarrow>
             bindE (merge_task_report (stored_task_report (t_kind t) (t_coverage t)) delta) (\<lambda>r. Inr (Some r))))"

text \<open>A discovery task fans out, a fetch task stores its findings.\<close>

definition results_work ::
  "(pystr \<Rightarrow> pystr) \<Rightarrow> secret_store \<Rightarrow> engine_settings \<Rightarrow> scan \<Rightarrow> scan_task \<Rightarrow> results_submission \<Rightarrow> int \<Rightarrow> db \<Rightarrow>
   py_error + nat list \<times> ingest_outcome \<times> db" where
  "results_work casefold store settings s t body now d =
     (if t_kind t = DISCOVERY
      then (let (ids, d1) = create_fetch_tasks (s_id s) (rs_task_specs body) now d in Inr (ids, no_outcome, d1))
      else bindE (store_findings casefold store settings s (rs_findings body) now d) (\<lambda>(out, d1). Inr ([], out, d1)))"

definition proposal_json :: "cursor_proposal \<Rightarrow> jdict" where
  "proposal_json c = [(cps ''scope'', JStr (cp_scope c)), (cps ''version'', JStr (cp_version c)),
     (cps ''position'', JObj (cp_position c))]"

definition hold_proposal :: "nat \<Rightarrow> cursor_proposal option \<Rightarrow> db \<Rightarrow> db" where
  "hold_proposal task_id cursor d =
     (case cursor of
        None \<Rightarrow> d
      | Some c \<Rightarrow> d\<lparr>tasks := update_where (\<lambda>x. t_id x = task_id) (\<lambda>x. x\<lparr>t_cursor_proposal := proposal_json c\<rparr>) (tasks d)\<rparr>)"

text \<open>Everything between the claim of the result and the commit.\<close>

definition record_results ::
  "(pystr \<Rightarrow> pystr) \<Rightarrow> secret_store \<Rightarrow> engine_settings \<Rightarrow> scan \<Rightarrow> scan_task \<Rightarrow> results_submission \<Rightarrow> int \<Rightarrow> db \<Rightarrow>
   py_error + nat list \<times> ingest_outcome \<times> db" where
  "record_results casefold store settings s t body now d =
     bindE (merged_coverage body t) (\<lambda>coverage.
     bindE (results_work casefold store settings s t body now d) (\<lambda>(ids, out, d1).
       let (status, error) = effective_outcome body (rs_counts body) coverage;
           d2 = tally_scan (s_id s) out (rs_counts body) (rs_rulepack_version body) now d1;
           d3 = hold_proposal (t_id t) (rs_cursor body) d2
       in Inr (ids, out, complete_task (t_id t) status error coverage now d3)))"

definition results_recorded ::
  "(nat \<Rightarrow> bool) \<Rightarrow> (pystr \<Rightarrow> pystr) \<Rightarrow> (json \<Rightarrow> pystr) \<Rightarrow> secret_store \<Rightarrow> engine_settings \<Rightarrow> scan \<Rightarrow> scan_task \<Rightarrow>
   results_submission \<Rightarrow> int \<Rightarrow> db \<Rightarrow> db \<Rightarrow> results_accepted reply" where
  "results_recorded accepts casefold py_str store settings s t body now d d1 =
     (case record_results casefold store settings s t body now d1 of
        Inl e \<Rightarrow> (Inl (Uncaught e), d)
      | Inr (ids, out, d2) \<Rightarrow>
          let d3 = fold (broker_enqueue accepts) ids d2
          in (case finalize_and_reconcile py_str (s_id s) now d3 of
                Inl e \<Rightarrow> (Inl (Uncaught e), d3)
              | Inr (final, d4) \<Rightarrow>
                  (Inr \<lparr>ra_task_id = t_id t, ra_replay = False, ra_outcome = out,
                        ra_fetch_tasks_created = length ids, ra_scan_status = final\<rparr>, d4)))"

definition submit_results ::
  "(nat \<Rightarrow> bool) \<Rightarrow> (pystr \<Rightarrow> pystr) \<Rightarrow> (json \<Rightarrow> pystr) \<Rightarrow> secret_store \<Rightarrow> engine_settings \<Rightarrow> nat \<Rightarrow> results_submission \<Rightarrow>
   nat \<Rightarrow> int \<Rightarrow> db \<Rightarrow> results_accepted reply" where
  "submit_results accepts casefold py_str store settings task_id body engine_id now d =
     (case get_row t_id task_id (tasks d) of
        None \<Rightarrow> (Inl (HTTPException 404 ''task not found''), d)
      | Some t \<Rightarrow>
          if t_engine_id t \<noteq> Some engine_id then (Inl (HTTPException 403 ''task is not leased by this engine''), d)
          else (case results_refusal body t of
             Some e \<Rightarrow> (Inl e, d)
           | None \<Rightarrow>
               (case require_authorized_results (es_secret_validation_enabled settings) (rs_findings body) d of
                  Inl message \<Rightarrow> (Inl (HTTPException 422 message), d)
                | Inr _ \<Rightarrow>
                    (case get_row s_id (t_scan_id t) (scans d) of
                       None \<Rightarrow> (Inl (HTTPException 404 ''scan not found''), d)
                     | Some s \<Rightarrow>
                         let (claimed, d1) = claim_result t (rs_idempotency_key body) now d
                         in if claimed then results_recorded accepts casefold py_str store settings s t body now d d1
                            else if t_result_key t = Some (rs_idempotency_key body) then replay py_str t now d
                            else if t_result_key t \<noteq> None
                            then (Inl (HTTPException 409 ''task results were already submitted''), d)
                            else (Inl (HTTPException 409 ''task is not leased''), d)))))"

end
