(* ===== verification/Control_Plane.thy ===== *)
theory Control_Plane
  imports Engine_Routes
begin

text \<open>
  The control plane as a transition system: engines heartbeat, lease, flush batches and report
  results, people launch and cancel scans, and the maintenance sweeps run, in any order.  A step is one
  transaction, or a request or sweep that runs undisturbed; where a handler commits more than once,
  each of its transactions is a step, so that anything may happen between them.  The plane follows the
  lease protocol, and what it keeps holds in every state it can reach.  Deleting a source, which takes
  its scans and tasks with it, is not a step.
\<close>

section \<open>The handlers keep the plane\<close>

lemma outside_ingest_one:
  "ingest_one cf pol rules c s now p st = Inr st' \<Longrightarrow> outside (is_db st) (is_db st')"
  by (auto simp: ingest_one_def Let_def bindE_eq_Inr outside_def draws_def new_id_def split: option.splits)

lemma outside_ingest_loop:
  "ingest_loop cf pol rules c s now ps st = Inr st' \<Longrightarrow> outside (is_db st) (is_db st')"
proof (induction ps arbitrary: st)
  case (Cons p ps)
  then show ?case using outside_ingest_one outside_trans by (fastforce simp: bindE_eq_Inr)
qed simp

lemma outside_store_findings:
  "store_findings cf store settings s ps now d = Inr (out, d') \<Longrightarrow> outside d d'"
  by (auto simp: store_findings_def ingest_findings_def Let_def bindE_eq_Inr split: if_splits dest: outside_ingest_loop)

lemma keeps_tally_scan: "keeps d (tally_scan i out counts v now d)"
  unfolding tally_scan_def
  by (rule keeps_scans) (simp add: scan_evolves_def merge_scan_counts_def Let_def)

lemma get_row_unique:
  "distinct (map key rows) \<Longrightarrow> get_row key k rows = Some t \<Longrightarrow> x \<in> set rows \<Longrightarrow> key x = k \<Longrightarrow> x = t"
  by (rule distinct_key_unique [of key rows]) (auto dest: get_row_Some)

lemma merge_missed:
  assumes "merge_task_report (Some q) delta = Inr r"
  shows "missed r \<longleftrightarrow> missed q \<or> missed delta"
  using assms
  by (auto simp: merge_task_report_def Let_def TaskCoverageReport_def missed_def add_counts_def add_scope_def split: if_splits)

text \<open>A merged report is of the task's phase, and a gap in one of its parts is a gap in it.\<close>

lemma merge_valid_phase:
  assumes "merge_task_report (Some q) delta = Inr r"
  shows "valid_report r" and "tc_phase r = tc_phase q" and "tc_phase delta = tc_phase q"
proof -
  have v: "valid_report r \<and> r = m" if "TaskCoverageReport m = Inr r" for m
    using that by (simp add: TaskCoverageReport_def split: if_splits)
  show p: "tc_phase delta = tc_phase q" using assms by (simp add: merge_task_report_def split: if_splits)
  then have np: "\<not> tc_phase q \<noteq> tc_phase delta" by simp
  have "\<exists>m. merge_task_report (Some q) delta = TaskCoverageReport m \<and> tc_phase m = tc_phase q"
    unfolding merge_task_report_def option.case Let_def if_not_P [OF np] by (rule exI, rule conjI, rule refl, simp)
  then obtain m where "TaskCoverageReport m = Inr r" "tc_phase m = tc_phase q" using assms by auto
  then show "valid_report r" "tc_phase r = tc_phase q" using v by auto
qed

lemma stored_report_phase:
  "valid_report r \<Longrightarrow> tc_phase r = k \<Longrightarrow> stored_task_report k (Stored r) = Some r"
  "stored_task_report k c = Some q \<Longrightarrow> tc_phase q = k"
  by (simp_all add: stored_task_report_def validated_report_Some)

lemma merge_flawed:
  assumes "merge_task_report (stored_task_report k c) delta = Inr r" and "stored_task_report k c = Some q"
    and "missed q \<or> missed delta"
  shows "stored_task_report k (Stored r) = Some r \<and> missed r"
proof -
  note m = assms(1) [unfolded assms(2)]
  have "tc_phase r = k" using merge_valid_phase(2) [OF m] stored_report_phase(2) [OF assms(2)] by simp
  then show ?thesis using stored_report_phase(1) [OF merge_valid_phase(1) [OF m]] merge_missed [OF m] assms(3) by blast
qed

lemma merged_of_phase:
  assumes "merge_task_report (stored_task_report k c) delta = Inr r" and "valid_report delta" and "tc_phase delta = k" and "missed delta"
  shows "stored_task_report k (Stored r) = Some r \<and> missed r"
proof (cases "stored_task_report k c")
  case None
  then have "r = delta" using assms(1) by (simp add: merge_task_report_def)
  then show ?thesis using stored_report_phase(1) [OF assms(2,3)] assms(4) by simp
next
  case (Some q)
  show ?thesis by (rule merge_flawed [OF assms(1) Some]) (simp add: assms(4))
qed

lemma keeps_merge_batch_coverage:
  assumes "merge_batch_coverage i cov d = Inr d'"
  shows "keeps d d'"
proof (cases "plane_ok d")
  case True
  have k: "keeps d (d\<lparr>tasks := update_where (\<lambda>x. t_id x = i) (\<lambda>x. x\<lparr>t_coverage := Stored r\<rparr>) (tasks d)\<rparr>)"
    if t: "get_row t_id i (tasks d) = Some t" and r: "merge_task_report (stored_task_report (t_kind t) (t_coverage t)) delta = Inr r"
    for t r delta
  proof (rule keeps_tasks)
    fix x assume "x \<in> set (tasks d)" and "t_id x = i"
    then have "x = t" using get_row_unique [OF _ t] True by (simp add: plane_ok_def)
    then have "flawed x \<longrightarrow> flawed (x\<lparr>t_coverage := Stored r\<rparr>)"
      using merge_flawed [OF r] by (auto simp: flawed_def split: option.splits)
    then show "task_evolves x (x\<lparr>t_coverage := Stored r\<rparr>)" by (simp add: task_evolves_def lease_of_def)
  qed
  then show ?thesis using assms by (auto simp: merge_batch_coverage_def bindE_eq_Inr split: option.splits)
qed (simp add: keeps_def)

lemma keeps_batch_stored:
  assumes "batch_stored cf store settings i s body now d = Inr (out, d')"
  shows "keeps d d'"
proof -
  obtain d1 d2 where "store_findings cf store settings s (ps_findings body) now d = Inr (out, d1)"
      and "merge_batch_coverage i (ps_coverage body) d1 = Inr d2"
      and d': "d' = tally_scan (s_id s) out (ps_counts body) (ps_rulepack_version body) now d2"
    using assms by (auto simp: batch_stored_def bindE_eq_Inr)
  then have "keeps d d2" using outside_store_findings outside_keeps keeps_merge_batch_coverage keeps_trans by blast
  then show ?thesis unfolding d' using keeps_tally_scan by (rule keeps_trans)
qed

lemma keeps_submit_progress: "keeps d (snd (submit_progress cf store settings i body e now d))"
proof -
  have "keeps d d2" if "advance_checkpoint t n ck ctx now d = (True, d1)"
      "batch_stored cf store settings i s body now d1 = Inr (out, d2)" for t n ck ctx d1 s out d2
    using keeps_advance_checkpoint [of d t n ck ctx now] that keeps_batch_stored keeps_trans by auto
  then show ?thesis
    unfolding submit_progress_def
    by (auto simp: Let_def split: option.splits sum.splits prod.splits)
qed

lemma keeps_beat_tasks: "keeps d (snd (beat_tasks e now ls is d))"
proof (induction "is" arbitrary: d)
  case (Cons i "is")
  show ?case
    using Cons keeps_trans [OF keeps_renew_lease Cons.IH]
    by (auto simp: Let_def split_beta split: option.split)
qed simp

lemma keeps_heartbeat: "keeps d (snd (heartbeat p e body now d))"
proof -
  have "keeps d (record_heartbeat e (hb_version body) (hb_rulepack body) now d)"
    by (rule keeps_frame) (simp_all add: record_heartbeat_def draws_def)
  from keeps_trans [OF this keeps_beat_tasks] show ?thesis by (simp add: heartbeat_def Let_def split_beta)
qed

lemma claim_task_granted:
  assumes "claim_task i e now ls d = (Some (t, x), d1)" and "plane_ok d"
  shows "tasks d1 = update_where (\<lambda>t. t_id t = i \<and> t_status t = TASK_QUEUED) (leased_row e now x) (tasks d)"
    and "t_id t = i" and "\<forall>u \<in> set (tasks d1). t_id u = i \<longrightarrow> t_status u \<in> set LEASED_STATUSES"
    and "get_row t_id i (tasks d1) = Some t"
proof -
  let ?P = "\<lambda>t. t_id t = i \<and> t_status t = TASK_QUEUED"
  have r: "rowcount ?P (tasks d) = 1" and t: "get_row t_id i (update_where ?P (leased_row e now x) (tasks d)) = Some t"
      and d1: "d1 = begin_scan t now (d\<lparr>tasks := update_where ?P (leased_row e now x) (tasks d)\<rparr>)"
    using assms(1) by (auto simp: claim_task_def Let_def split: if_splits option.splits)
  show tasks: "tasks d1 = update_where ?P (leased_row e now x) (tasks d)"
    unfolding d1 begin_scan_def by (simp add: set_scan_def split: option.split)
  show "t_id t = i" using get_row_Some [OF t] by simp
  show "get_row t_id i (tasks d1) = Some t" unfolding tasks by (rule t)
  obtain r where r: "get_row t_id i (tasks d) = Some r" "?P r"
    using rowcount_1_get_row [of t_id "tasks d" ?P i] r assms(2) unfolding plane_ok_def by blast
  have "u = r" if "u \<in> set (tasks d)" "t_id u = i" for u
    using get_row_unique [OF _ r(1) that] assms(2) by (simp add: plane_ok_def)
  then show "\<forall>u \<in> set (tasks d1). t_id u = i \<longrightarrow> t_status u \<in> set LEASED_STATUSES"
    using r(2) by (auto simp: tasks set_update_where leased_row_def LEASED_STATUSES_def split: if_splits)
qed

text \<open>Every row of a claimed task counts a lease; it may be failed whatever has become of it.\<close>

definition taken :: "nat \<Rightarrow> db \<Rightarrow> bool" where
  "taken i d \<longleftrightarrow> (\<forall>u \<in> set (tasks d). t_id u = i \<longrightarrow> 0 < t_attempts u)"

lemma taken_row:
  "plane_ok d \<Longrightarrow> get_row t_id i (tasks d) = Some t \<Longrightarrow> 0 < t_attempts t \<Longrightarrow> taken (t_id t) d"
  using get_row_unique [of t_id "tasks d" i t] get_row_Some [of t_id i "tasks d" t]
  by (auto simp: taken_def plane_ok_def)

lemma claim_task_taken:
  assumes "claim_task i e now ls d = (Some (t, x), d1)" and "plane_ok d"
  shows "plane_ok d1" and "get_row t_id i (tasks d1) = Some t" and "0 < t_attempts t"
proof -
  note g = claim_task_granted [OF assms]
  show "plane_ok d1" using keeps_claim_task [of d i e now ls] assms by (simp add: keeps_def)
  show r: "get_row t_id i (tasks d1) = Some t" by (rule g(4))
  have "t \<in> set (tasks d1)" "t_status t \<in> set LEASED_STATUSES" using get_row_Some [OF r] g(3) by auto
  then obtain u where "u \<in> set (tasks d)" "t = (if t_id u = i \<and> t_status u = TASK_QUEUED then leased_row e now x u else u)"
    unfolding g(1) by (auto simp: set_update_where)
  moreover have "t_id u = i \<and> t_status u = TASK_QUEUED" if "u \<in> set (tasks d)" "t_id u = i" for u
  proof -
    let ?P = "\<lambda>t. t_id t = i \<and> t_status t = TASK_QUEUED"
    have "rowcount ?P (tasks d) = 1" using assms(1) by (auto simp: claim_task_def Let_def split: if_splits option.splits)
    then obtain r where r: "get_row t_id i (tasks d) = Some r" "?P r"
      using rowcount_1_get_row [of t_id "tasks d" ?P i] assms(2) unfolding plane_ok_def by blast
    have "u = r" using get_row_unique [OF _ r(1) that] assms(2) by (simp add: plane_ok_def)
    then show ?thesis using r(2) by simp
  qed
  ultimately show "0 < t_attempts t" using g(2) by (auto simp: leased_row_def split: if_splits)
qed

lemma keeps_fail_lease: "taken (t_id t) d \<Longrightarrow> keeps d (snd (fail_lease ps t err reason msg now d))"
  using keeps_fail_late [of d "t_id t"] keeps_finalize_and_reconcile keeps_trans
  by (auto simp: taken_def fail_lease_def Let_def split: sum.split prod.split) blast

lemma keeps_lease_claimed:
  assumes "get_row t_id i (tasks d) = Some t" and "0 < t_attempts t"
  shows "keeps d (snd (lease_claimed ps store settings t x now d))"
proof (cases "plane_ok d")
  case True
  note t = taken_row [OF True assms]
  show ?thesis
    unfolding lease_claimed_def lease_granted_def Let_def
    by (simp add: keeps_fail_lease [OF t] keeps_discard_checkpoint split: option.split sum.split)
qed (simp add: keeps_def)

lemma keeps_unworkable:
  assumes "get_row t_id i (tasks d) = Some t" and "0 < t_attempts t"
  shows "keeps d (complete_task (t_id t) TASK_FAILED err cov now d)"
proof (cases "plane_ok d")
  case True
  then show ?thesis using taken_row [OF True assms] by (intro keeps_fail_late) (simp add: taken_def)
qed (simp add: keeps_def)

text \<open>A task row that is leased stays so while its results are being recorded.\<close>

definition still_leased :: "nat \<Rightarrow> db \<Rightarrow> bool" where
  "still_leased i d \<longleftrightarrow> i \<in> ids_drawn d \<and> (\<forall>u \<in> set (tasks d). t_id u = i \<longrightarrow> t_status u \<in> set LEASED_STATUSES)"

lemma still_leased_outside: "outside d e \<Longrightarrow> still_leased i d \<Longrightarrow> still_leased i e"
  using draws_ids by (auto simp: still_leased_def outside_def)

lemma still_leased_insert:
  "inj (uuid4 d) \<Longrightarrow> still_leased i d \<Longrightarrow> still_leased i (snd (insert_fetch_tasks s now specs d))"
proof (induction specs arbitrary: d)
  case (Cons spec specs)
  let ?e = "(snd (new_id d))\<lparr>tasks := tasks (snd (new_id d)) @ [new_task (fst (new_id d)) s FETCH spec now]\<rparr>"
  have "fst (new_id d) \<notin> ids_drawn d" by (rule new_id_fresh [OF Cons.prems(1)])
  moreover have "ids_drawn d \<subseteq> ids_drawn ?e" by (rule draws_ids) (simp add: draws_def new_id_def)
  ultimately have "still_leased i ?e"
    using Cons.prems(2) by (auto simp: still_leased_def new_id_def)
  moreover have "inj (uuid4 ?e)" using Cons.prems(1) by (simp add: new_id_def)
  ultimately show ?case using Cons.IH [of ?e] by (simp add: split_beta)
qed simp

lemma still_leased_scans: "still_leased i (d\<lparr>scans := rows\<rparr>) = still_leased i d"
  by (simp add: still_leased_def ids_drawn_def)

lemma still_leased_create:
  "inj (uuid4 d) \<Longrightarrow> still_leased i d \<Longrightarrow> still_leased i (snd (create_fetch_tasks s specs now d))"
  by (auto simp: create_fetch_tasks_def Let_def still_leased_scans intro!: still_leased_insert)

lemma results_work_keeps:
  assumes "results_work cf store settings s t body now d = Inr (ids, out, d')" and "plane_ok d" and "still_leased i d"
  shows "keeps d d'" and "still_leased i d'"
proof -
  have "inj (uuid4 d)" using assms(2) by (simp add: plane_ok_def)
  note c = still_leased_create [OF this assms(3), of "s_id s" "rs_task_specs body" now]
  have o: "outside d d'" if "t_kind t \<noteq> DISCOVERY"
    using assms(1) that outside_store_findings by (auto simp: results_work_def bindE_eq_Inr)
  have e: "d' = snd (create_fetch_tasks (s_id s) (rs_task_specs body) now d)" if "t_kind t = DISCOVERY"
    using assms(1) that by (auto simp: results_work_def split: prod.splits)
  show "keeps d d'" using o e keeps_create_fetch_tasks outside_keeps by (cases "t_kind t = DISCOVERY") auto
  show "still_leased i d'" using o e c still_leased_outside assms(3) by (cases "t_kind t = DISCOVERY") auto
qed

lemma keeps_hold_proposal: "keeps d (hold_proposal i c d)"
proof -
  have "keeps d (d\<lparr>tasks := update_where (\<lambda>x. t_id x = i) (\<lambda>x. x\<lparr>t_cursor_proposal := p\<rparr>) (tasks d)\<rparr>)" for p
    by (rule keeps_tasks, rule task_evolves_same) (simp_all add: lease_of_def)
  then show ?thesis by (simp add: hold_proposal_def split: option.split)
qed

lemma effective_outcome_reportable:
  "rs_status body \<in> set REPORTABLE_STATUSES \<Longrightarrow> fst (effective_outcome body counts cov) \<in> {TASK_COMPLETED, TASK_FAILED}"
  by (auto simp: effective_outcome_def Let_def REPORTABLE_STATUSES_def)

lemma keeps_record_results:
  assumes "record_results cf store settings s t body now d = Inr (ids, out, d')" and "plane_ok d"
    and "still_leased (t_id t) d" and "rs_status body \<in> set REPORTABLE_STATUSES"
  shows "keeps d d'"
proof -
  obtain cov d1 where d1: "results_work cf store settings s t body now d = Inr (ids, out, d1)"
      and d': "d' = complete_task (t_id t) (fst (effective_outcome body (rs_counts body) cov))
        (snd (effective_outcome body (rs_counts body) cov)) cov now
        (hold_proposal (t_id t) (rs_cursor body) (tally_scan (s_id s) out (rs_counts body) (rs_rulepack_version body) now d1))"
    using assms(1) by (auto simp: record_results_def bindE_eq_Inr Let_def split_beta)
  let ?d2 = "tally_scan (s_id s) out (rs_counts body) (rs_rulepack_version body) now d1"
  let ?d3 = "hold_proposal (t_id t) (rs_cursor body) ?d2"
  note w = results_work_keeps [OF d1 assms(2,3)]
  have "still_leased (t_id t) ?d3"
    using w(2) by (auto simp: still_leased_def hold_proposal_def tally_scan_def set_update_where ids_drawn_def split: option.split if_splits)
  then have "keeps ?d3 d'"
    unfolding d' still_leased_def
    using effective_outcome_reportable [OF assms(4), of "rs_counts body" cov] by (intro keeps_complete_task) auto
  moreover have "keeps d ?d3" by (rule keeps_trans [OF keeps_trans [OF w(1) keeps_tally_scan] keeps_hold_proposal])
  ultimately show ?thesis using keeps_trans by blast
qed

lemma claim_result_held:
  assumes "claim_result t key now d = (True, d1)" and "plane_ok d"
  shows "still_leased (t_id t) d1" and "plane_ok d1"
proof -
  let ?P = "\<lambda>x. held_by t x \<and> t_result_key x = None"
  have r: "rowcount ?P (tasks d) = 1"
      and d1: "d1 = d\<lparr>tasks := update_where ?P (\<lambda>x. x\<lparr>t_result_key := Some key, t_updated_at := now\<rparr>) (tasks d)\<rparr>"
    using assms(1) by (auto simp: claim_result_def Let_def split: if_splits)
  show "plane_ok d1" using keeps_claim_result [of d t key now] assms by (simp add: keeps_def)
  have "rowcount (\<lambda>x. t_id x = t_id t \<and> ?P x) (tasks d) = 1"
    using r by (simp add: held_by_def rowcount_def conj_ac cong: conj_cong)
  then obtain x where x: "get_row t_id (t_id t) (tasks d) = Some x" "?P x"
    using rowcount_1_get_row [of t_id "tasks d" "\<lambda>x. t_id x = t_id t \<and> ?P x" "t_id t"] assms(2)
    unfolding plane_ok_def by auto
  have "u = x" if "u \<in> set (tasks d)" "t_id u = t_id t" for u
    using get_row_unique [OF _ x(1) that] assms(2) by (simp add: plane_ok_def)
  moreover have "t_id t \<in> ids_drawn d" using get_row_Some [OF x(1)] assms(2) by (auto simp: plane_ok_def)
  ultimately show "still_leased (t_id t) d1"
    using x(2) unfolding still_leased_def
    by (auto simp: d1 set_update_where held_by_def ids_drawn_def split: if_splits)
qed

lemma finalize_if_done_tasks: "tasks (snd (finalize_scan_if_done i now d)) = tasks d"
  by (simp add: finalize_scan_if_done_def Let_def)

lemma settle_covered_tasks:
  assumes "settle_covered ps s ts now d = Inr d'"
  shows "tasks d' = tasks d"
proof -
  have "tasks e = tasks d" if "reconcile_scan s now d = Inr (r, s', e)" for r s' e
    using that outside_auto_resolve
    by (auto simp: reconcile_scan_def Let_def bindE_eq_Inr set_scan_def outside_def split: if_splits prod.splits) 
  then show ?thesis
    using assms outside_enqueue_for_scan
    by (fastforce simp: settle_covered_def bindE_eq_Inr outside_def split: if_splits)
qed

lemma finalize_tasks:
  assumes "finalize_and_reconcile ps i now d = Inr (f, d')"
  shows "tasks d' = tasks d"
proof -
  obtain g d1 where g: "finalize_scan_if_done i now d = (g, d1)" by fastforce
  have t: "tasks d1 = tasks d" using finalize_if_done_tasks [of i now d] g by simp
  show ?thesis
  proof (cases "g = None \<or> get_row s_id i (scans d1) = None")
    case True
    then show ?thesis using assms g t by (auto simp: finalize_and_reconcile_def split: option.splits)
  next
    case False
    then obtain st s where st: "g = Some st" "get_row s_id i (scans d1) = Some s" by auto
    show ?thesis
      using assms settle_covered_tasks t
      by (fastforce simp: finalize_and_reconcile_def g st Let_def build_manifest_Inr bindE_eq_Inr split: if_splits)
  qed
qed

lemma recorded_from_claim:
  assumes "results_recorded acc cf ps store settings s t body now d d1 = (r, d')" and "plane_ok d1"
    and "still_leased (t_id t) d1" and "rs_status body \<in> set REPORTABLE_STATUSES"
  obtains (failed) e where "r = Inl (Uncaught e)" and "d' = d"
  | (recorded) ids out d2 where "record_results cf store settings s t body now d1 = Inr (ids, out, d2)"
      and "keeps d1 d'" and "tasks d' = tasks d2"
proof (cases "record_results cf store settings s t body now d1")
  case (Inl e)
  then show ?thesis using assms(1) failed by (auto simp: results_recorded_def)
next
  case (Inr x)
  obtain ids out d2 where x: "x = (ids, out, d2)" by (cases x) auto
  let ?d3 = "fold (broker_enqueue acc) ids d2"
  have k: "keeps d1 ?d3"
    using keeps_trans [OF keeps_record_results [OF Inr [unfolded x] assms(2-4)] keeps_brokers] .
  have t: "tasks ?d3 = tasks d2" by (induction ids arbitrary: d2) (simp_all add: broker_enqueue_def)
  show ?thesis
  proof (cases "finalize_and_reconcile ps (s_id s) now ?d3")
    case (Inl e)
    then show ?thesis using assms(1) k t Inr x by (intro recorded) (auto simp: results_recorded_def Let_def)
  next
    case (Inr y)
    obtain f d4 where y: "y = (f, d4)" by fastforce
    have "tasks d4 = tasks ?d3" using finalize_tasks Inr y by blast
    moreover have "keeps d1 d4" using keeps_trans [OF k keeps_finalize_and_reconcile] Inr y by blast
    ultimately show ?thesis
      using assms(1) \<open>record_results cf store settings s t body now d1 = Inr x\<close> x Inr y t
      by (intro recorded) (auto simp: results_recorded_def Let_def)
  qed
qed

lemma keeps_results_recorded:
  assumes "claim_result t key now d = (True, d1)" and "rs_status body \<in> set REPORTABLE_STATUSES"
  shows "keeps d (snd (results_recorded acc cf ps store settings s t body now d d1))"
proof (cases "plane_ok d")
  case True
  note h = claim_result_held [OF assms(1) True]
  have k: "keeps d d1" using keeps_claim_result [of d t key now] assms(1) by simp
  obtain r d' where r: "results_recorded acc cf ps store settings s t body now d d1 = (r, d')" by fastforce
  show ?thesis using recorded_from_claim [OF r h(2,1) assms(2)] keeps_trans [OF k] by (metis keeps_refl r snd_conv)
qed (simp add: keeps_def)

lemma keeps_replay: "keeps d (snd (replay ps t now d))"
  by (auto simp: replay_def split: sum.split prod.split intro: keeps_finalize_and_reconcile)

lemma results_refusal_reportable:
  "results_refusal body t = None \<Longrightarrow> rs_status body \<in> set REPORTABLE_STATUSES"
  by (auto simp: results_refusal_def split: if_splits)

lemma keeps_submit_results: "keeps d (snd (submit_results acc cf ps store settings i body e now d))"
  unfolding submit_results_def
  using keeps_results_recorded [OF _ results_refusal_reportable] keeps_replay
  by (auto simp: Let_def split: option.splits sum.splits prod.splits)

lemma keeps_register: "keeps d (snd (register_engine h token admin body now d))"
  by (rule keeps_frame)
     (simp_all add: register_engine_def Let_def new_id_def audit_record_def draws_def split: option.split)

lemma mark_one_outside: "outside (snd nd) (snd (mark_one c i nd))"
  by (simp add: mark_one_def Let_def outside_def draws_def split: prod.split)

lemma mark_all_outside: "outside (snd nd) (snd (fold (mark_one c) is nd))"
proof (induction "is" arbitrary: nd)
  case (Cons i "is")
  show ?case using outside_trans [OF mark_one_outside Cons.IH, of nd c i] by simp
qed simp

lemma keeps_mark_stale: "keeps d (snd (mark_stale_engines_offline n now d))"
  using mark_all_outside [of "([], d)"] by (simp add: mark_stale_engines_offline_def Let_def outside_keeps)

section \<open>Steps\<close>

text \<open>
  The environment chooses the request and everything that is not under the control of the API: what
  the secret store answers, which messages the broker takes, and the clock.  Bodies have passed
  their request models.
\<close>

definition valid_coverage :: "task_coverage_report option \<Rightarrow> bool" where
  "valid_coverage cov \<longleftrightarrow> (case cov of None \<Rightarrow> True | Some r \<Rightarrow> valid_report r)"

text \<open>
  Requests and sweeps that run undisturbed come first, then the transactions of those that commit
  several times.  A lease is claimed in one and answered in another; the answer needs no more than that
  its claim was committed before, which the task's count of leases remembers.  When a secret cannot be
  read the answer fails the task in one transaction and settles the scan in a further one.  A heartbeat
  commits its own record and each renewal; results are committed before their messages are sent and the
  scan is settled, so that settling alone is a step as well: it is also what a sweep over stalled scans
  has done when it raises half-way.
\<close>

inductive control_step :: "db \<Rightarrow> db \<Rightarrow> bool" where
  launch: "control_step d (snd (launch_scan acc source trigger mode version rotating now d))"
| register: "control_step d (snd (register_engine hash token admin reg now d))"
| beat: "control_step d (snd (heartbeat path engine hb now d))"
| progress: "valid_coverage (ps_coverage batch) \<Longrightarrow>
    control_step d (snd (submit_progress cf store settings task batch engine now d))"
| results: "valid_coverage (rs_coverage body) \<Longrightarrow>
    control_step d (snd (submit_results acc cf py_str store settings task body engine now d))"
| stop: "cancel_scan scan now d = Inr d' \<Longrightarrow> control_step d d'"
| reclaim: "control_step d (snd (reclaim_expired_leases acc now d))"
| redispatch: "control_step d (snd (redispatch_stale_tasks acc now n d))"
| settle: "finalize_stalled_scans py_str now d = Inr (ids, d') \<Longrightarrow> control_step d d'"
| silence: "control_step d (snd (mark_stale_engines_offline n' now d))"
| claim: "control_step d (snd (claim_task task engine now DEFAULT_LEASE_SECONDS d))"
| answer: "get_row t_id task (tasks d) = Some t \<Longrightarrow> 0 < t_attempts t \<Longrightarrow>
    control_step d (snd (lease_claimed py_str store settings t expires now d))"
| unworkable: "get_row t_id task (tasks d) = Some t \<Longrightarrow> 0 < t_attempts t \<Longrightarrow>
    reason \<in> {CONNECTOR_ERROR, PERMISSION_DENIED} \<Longrightarrow>
    control_step d (complete_task (t_id t) TASK_FAILED error (Some (failure_report (t_kind t) reason)) now d)"
| alive: "control_step d (record_heartbeat engine ver pack now d)"
| renew: "control_step d (snd (renew_lease t now DEFAULT_LEASE_SECONDS d))"
| recorded: "get_row t_id task (tasks d) = Some t \<Longrightarrow> results_refusal body t = None \<Longrightarrow>
    valid_coverage (rs_coverage body) \<Longrightarrow> claim_result t (rs_idempotency_key body) now d = (True, d1) \<Longrightarrow>
    record_results cf store settings s t body now d1 = Inr (ids, out, d') \<Longrightarrow> control_step d d'"
| dispatch: "control_step d (broker_enqueue acc task d)"
| finish: "finalize_and_reconcile py_str scan now d = Inr (final, d') \<Longrightarrow> control_step d d'"

inductive_cases control_stepE: "control_step d d'"

lemma keeps_recorded:
  assumes "results_refusal body t = None" and "claim_result t (rs_idempotency_key body) now d = (True, d1)"
    and "record_results cf store settings s t body now d1 = Inr (ids, out, d')"
  shows "keeps d d'"
proof (cases "plane_ok d")
  case True
  note h = claim_result_held [OF assms(2) True]
  have "keeps d d1" using keeps_claim_result [of d t "rs_idempotency_key body" now] assms(2) by simp
  then show ?thesis
    using keeps_record_results [OF assms(3) h(2,1) results_refusal_reportable [OF assms(1)]] by (rule keeps_trans)
qed (simp add: keeps_def)

lemma keeps_record_heartbeat: "keeps d (record_heartbeat e v r now d)"
  by (rule keeps_frame) (simp_all add: record_heartbeat_def draws_def)

lemma keeps_dispatch: "keeps d (broker_enqueue acc i d)"
  using keeps_brokers [of d acc "[i]"] by simp

lemmas handlers_keep = keeps_launch_scan keeps_register keeps_heartbeat keeps_submit_progress
  keeps_submit_results keeps_cancel_scan keeps_reclaim keeps_redispatch keeps_mark_stale keeps_claim_task
  keeps_record_heartbeat keeps_renew_lease keeps_dispatch keeps_finalize_and_reconcile

lemma control_step_keeps: "control_step d d' \<Longrightarrow> keeps d d'"
proof (induction rule: control_step.induct)
  case (settle py_str now d ids d')
  then show ?case using keeps_finalize_each [of py_str now _ "([], d)" "(ids, d')"] by (simp add: finalize_stalled_scans_def)
next
  case (answer task d t py_str store settings expires now)
  then show ?case by (rule keeps_lease_claimed)
next
  case (unworkable task d t reason error now)
  then show ?case by (intro keeps_unworkable)
next
  case (recorded task d t body now d1 cf store settings s ids out d')
  then show ?case by (intro keeps_recorded)
qed (rule handlers_keep, assumption?)+

text \<open>A whole lease request is two of these steps.\<close>

lemma lease_task_run:
  assumes "plane_ok d"
  shows "control_step\<^sup>*\<^sup>* d (snd (lease_task ps store settings i e now d))"
proof -
  obtain g d1 where c: "claim_task i e now DEFAULT_LEASE_SECONDS d = (g, d1)" by fastforce
  have s: "control_step d d1" using control_step.claim [of d i e now] c by simp
  show ?thesis
  proof (cases g)
    case None
    then show ?thesis using s c by (simp add: lease_task_def)
  next
    case (Some tx)
    obtain t x where tx: "tx = (t, x)" by fastforce
    note t = claim_task_taken [OF c [unfolded Some tx] assms]
    have "control_step d1 (snd (lease_claimed ps store settings t x now d1))" by (rule control_step.answer [OF t(2,3)])
    then show ?thesis using s c by (simp add: lease_task_def Some tx)
  qed
qed

lemma evolves_lease_known:
  assumes "evolves d d'" and "plane_ok d'" and "lease_at d i = Some l"
  shows "\<exists>l'. lease_at d' i = Some l' \<and> lease_step\<^sup>*\<^sup>* l l'"
proof -
  obtain t where t: "get_row t_id i (tasks d) = Some t" "l = lease_of t" using assms(3) by (auto simp: lease_at_def)
  obtain u where u: "u \<in> set (tasks d')" "task_evolves t u"
    using grows_get_row [of task_evolves task_starts "tasks d" "tasks d'" t] get_row_Some [OF t(1)] assms(1) by (auto simp: evolves_def)
  have "get_row t_id (t_id u) (tasks d') = Some u" using get_row_in [OF _ u(1), of t_id] assms(2) by (simp add: plane_ok_def)
  then show ?thesis using u(2) t get_row_Some [OF t(1)] by (auto simp: lease_at_def task_evolves_def)
qed

lemma evolves_lease_fresh:
  assumes "evolves d d'" and "lease_at d i = None" and "lease_at d' i = Some l'"
  shows "lease_step\<^sup>*\<^sup>* lease_start l'"
proof -
  obtain u where u: "get_row t_id i (tasks d') = Some u" "l' = lease_of u" using assms(3) by (auto simp: lease_at_def)
  have "i \<notin> t_id ` set (tasks d)" using assms(2) by (simp add: lease_at_def get_row_None)
  then have "task_starts u"
    using grows_old_or_new [of task_evolves task_starts "tasks d" "tasks d'" u] get_row_Some [OF u(1)] assms(1)
    by (auto simp: evolves_def task_evolves_def)
  then show ?thesis by (simp add: u(2) task_starts_def)
qed

interpretation plane: follows_lease_protocol control_step plane_ok lease_at
proof
  show "plane_ok d'" if "control_step d d'" "plane_ok d" for d d'
    using control_step_keeps [OF that(1)] that(2) by (simp add: keeps_def)
  show "\<exists>l'. lease_at d' i = Some l' \<and> lease_step\<^sup>*\<^sup>* l l'"
    if "control_step d d'" "plane_ok d" "lease_at d i = Some l" for d d' i l
    using evolves_lease_known [OF _ _ that(3)] control_step_keeps [OF that(1)] that(2) by (simp add: keeps_def)
  show "lease_step\<^sup>*\<^sup>* lease_start l'"
    if "control_step d d'" "plane_ok d" "lease_at d i = None" "lease_at d' i = Some l'" for d d' i l'
    using evolves_lease_fresh [OF _ that(3,4)] control_step_keeps [OF that(1)] that(2) by (simp add: keeps_def)
qed

lemma run_evolves: "control_step\<^sup>*\<^sup>* d d' \<Longrightarrow> plane_ok d \<Longrightarrow> evolves d d'"
proof (induction rule: rtranclp_induct)
  case (step m n)
  then have "evolves m n" using control_step_keeps plane.run_ok by (simp add: keeps_def)
  then show ?case using step evolves_trans by blast
qed simp

section \<open>Properties\<close>

text \<open>
  C29.  Whatever engines, people and sweeps do, in any order and from any sound state: ids of tasks
  and scans stay unique, a source never has two active scans at once, and a scan that has ended
  keeps its status for good, so its reconciliation can never run a second time.  (Deleting a source,
  which takes its scans and tasks with it, is not one of the steps.)
\<close>

theorem sources_have_one_active_scan:
  assumes "control_step\<^sup>*\<^sup>* d d'" and "plane_ok d"
  shows "distinct (map t_id (tasks d')) \<and> distinct (map s_id (scans d')) \<and>
    (\<forall>source. length (filter (\<lambda>s. s_source_id s = source \<and> active_scan s) (scans d')) \<le> 1) \<and>
    list_all (\<lambda>s. list_ex (\<lambda>s'. s_id s' = s_id s \<and> s_status s' = s_status s) (scans d'))
      (filter (\<lambda>s. \<not> active_scan s) (scans d))"
proof -
  have ok: "plane_ok d'" by (rule plane.run_ok [OF assms])
  have "length (filter (\<lambda>s. s_source_id s = src \<and> active_scan s) rows) \<le> 1" if "one_active rows" for src rows
    using that
  proof (induction rows)
    case (Cons s rows)
    have "s_source_id s \<notin> s_source_id ` set (filter active_scan rows)" if "active_scan s"
      using Cons.prems that by (simp add: one_active_def)
    then have "filter (\<lambda>x. s_source_id x = src \<and> active_scan x) rows = []"
      if "s_source_id s = src" "active_scan s"
      using that by (auto simp: filter_empty_conv image_iff)
    then show ?case using Cons by (auto simp: one_active_def split: if_splits)
  qed simp
  moreover have "list_ex (\<lambda>s'. s_id s' = s_id s \<and> s_status s' = s_status s) (scans d')"
    if "s \<in> set (scans d)" "\<not> active_scan s" for s
    using grows_get_row [of scan_evolves "\<lambda>_. True" "scans d" "scans d'" s] run_evolves [OF assms] that
    by (auto simp: evolves_def scan_evolves_def list_ex_iff)
  ultimately show ?thesis using ok by (auto simp: plane_ok_def list_all_iff)
qed

text \<open>
  C30.  The control plane implements the lease protocol.  Over any run of its transactions, in any order
  and with lease requests and result submissions interrupted between their commits, the lease of every
  task that was there moves along the automaton of the protocol, and every task that is new comes out of
  its start state.  In particular results are claimed under one key only, batches and leases are counted
  up, no batch is accepted once the results are claimed, and a task that is over stays exactly as it
  ended, with one exception: if it was ever leased it may turn into a failed one, since a lease whose
  secrets cannot be read fails its task without asking whether the lease still holds.
\<close>

theorem tasks_follow_the_lease_protocol:
  assumes "control_step\<^sup>*\<^sup>* d d'" and "plane_ok d"
  shows "(case lease_at d i of
      Some l \<Rightarrow> \<exists>l'. lease_at d' i = Some l' \<and> lease_step\<^sup>*\<^sup>* l l' \<and>
        l_batches l \<le> l_batches l' \<and> l_attempts l \<le> l_attempts l' \<and>
        (case l_phase l of
           Over _ \<Rightarrow> l' = l \<or> (0 < l_attempts l \<and> l' = l\<lparr>l_phase := Over TASK_FAILED\<rparr>)
         | _ \<Rightarrow> True) \<and>
        (case l_claim l of Some k \<Rightarrow> l_claim l' = Some k \<and> l_batches l' = l_batches l | None \<Rightarrow> True)
    | None \<Rightarrow> (case lease_at d' i of Some l' \<Rightarrow> lease_step\<^sup>*\<^sup>* lease_start l' | None \<Rightarrow> True))"
proof (cases "lease_at d i")
  case None
  then show ?thesis using plane.run_fresh [OF assms None] by (simp split: option.split)
next
  case (Some l)
  obtain l' where l': "lease_at d' i = Some l'" "lease_step\<^sup>*\<^sup>* l l'" using plane.run_known [OF assms Some] by blast
  then show ?thesis
    using lease_run [OF l'(2)] run_from_Over [OF l'(2)] by (auto simp: Some split: lease_phase.split option.split)
qed

section \<open>Witnesses\<close>

definition demo_store :: secret_store where
  "demo_store = \<lparr>ss_pepper = Some [1, 2, 3], ss_previous_pepper = Some None, ss_open = Some, ss_correlate = None\<rparr>"

definition demo_settings :: engine_settings where
  "demo_settings = \<lparr>es_secret_validation_enabled = False, es_confidence_threshold = 0\<rparr>"

definition demo_idle :: db where
  "demo_idle = empty_db\<lparr>sources := [demo_source]\<rparr>"

definition demo_launched :: db where
  "demo_launched = snd (launch_scan (\<lambda>_. True) 5 MANUAL FULL None False 7 demo_idle)"

definition demo_leased :: db where
  "demo_leased = snd (lease_task (\<lambda>_. []) demo_store demo_settings 1 3 8 demo_launched)"

lemma demo_idle_ok: "plane_ok demo_idle"
  by (simp add: plane_ok_def demo_idle_def one_active_def)

lemma demo_run: "control_step\<^sup>*\<^sup>* demo_idle demo_leased"
proof -
  have "control_step demo_idle demo_launched" unfolding demo_launched_def by (rule control_step.launch)
  moreover from this have "plane_ok demo_launched" using plane.ok_step demo_idle_ok by blast
  then have "control_step\<^sup>*\<^sup>* demo_launched demo_leased" unfolding demo_leased_def by (rule lease_task_run)
  ultimately show ?thesis by (rule converse_rtranclp_into_rtranclp)
qed

theorem sources_have_one_active_scan_witness:
  "control_step\<^sup>*\<^sup>* demo_idle demo_leased \<and> list_ex active_scan (scans demo_leased) \<and>
   (\<forall>source. length (filter (\<lambda>s. s_source_id s = source \<and> active_scan s) (scans demo_leased)) \<le> 1)"
proof -
  have "list_ex active_scan (scans demo_leased)" by code_simp
  then show ?thesis using demo_run sources_have_one_active_scan [OF demo_run demo_idle_ok] by blast
qed

theorem tasks_follow_the_lease_protocol_witness:
  "lease_at demo_leased 1 = Some \<lparr>l_phase = Held (Some 3), l_claim = None, l_batches = 0, l_attempts = 1\<rparr> \<and>
   lease_step\<^sup>*\<^sup>* lease_start \<lparr>l_phase = Held (Some 3), l_claim = None, l_batches = 0, l_attempts = 1\<rparr>"
proof -
  have "lease_at demo_idle 1 = None" by code_simp
  moreover have "lease_at demo_leased 1 = Some \<lparr>l_phase = Held (Some 3), l_claim = None, l_batches = 0, l_attempts = 1\<rparr>" by code_simp
  ultimately show ?thesis using tasks_follow_the_lease_protocol [OF demo_run demo_idle_ok, of 1] by simp
qed

text \<open>
  The failure of a lease is written without asking whether the lease still holds: when the scan is
  cancelled after the claim was committed, the cancelled task becomes a failed one.
\<close>

lemma failed_lease_overwrites_cancellation:
  "case cancel_scan 0 9 demo_leased of
     Inr d1 \<Rightarrow>
       map_option l_phase (lease_at d1 1) = Some (Over TASK_CANCELLED) \<and>
       (case get_row t_id 1 (tasks d1) of
          Some t \<Rightarrow> 0 < t_attempts t \<and>
            map_option l_phase (lease_at (snd (lease_claimed (\<lambda>_. []) (demo_store\<lparr>ss_pepper := None\<rparr>) demo_settings t 0 10 d1)) 1) =
              Some (Over TASK_FAILED)
        | None \<Rightarrow> False)
   | Inl _ \<Rightarrow> False"
  by code_simp

end
