(* ===== verification/Submissions.thy ===== *)
theory Submissions
  imports Control_Plane
begin

text \<open>
  What an engine can rely on when it reports: results are recorded once however often they are sent,
  a batch is stored whole and in order, and a task counts as completed only if neither its results nor
  any batch of its own phase missed something it was asked to read.
\<close>

section \<open>Accepted results\<close>

text \<open>Every way \<^const>\<open>submit_results\<close> can go.\<close>

lemma submit_results_cases:
  assumes "submit_results acc cf ps store settings i body e now d = (r, d')"
  obtains (refused) x where "r = Inl x" and "d' = d"
  | (replayed) t where "get_row t_id i (tasks d) = Some t" and "t_result_key t = Some (rs_idempotency_key body)"
      and "replay ps t now d = (r, d')"
  | (claimed) t s d1 where "get_row t_id i (tasks d) = Some t" and "get_row s_id (t_scan_id t) (scans d) = Some s"
      and "results_refusal body t = None" and "t_engine_id t = Some e"
      and "claim_result t (rs_idempotency_key body) now d = (True, d1)"
      and "results_recorded acc cf ps store settings s t body now d d1 = (r, d')"
  using assms unfolding submit_results_def
  by (auto simp: Let_def split: option.splits sum.splits prod.splits if_splits)

lemma replay_outcome:
  assumes "replay ps t now d = (r, d')"
  shows "case r of Inl _ \<Rightarrow> d' = d
    | Inr b \<Rightarrow> ra_replay b \<and> ra_outcome b = no_outcome \<and> ra_fetch_tasks_created b = 0 \<and>
        finalize_and_reconcile ps (t_scan_id t) now d = Inr (ra_scan_status b, d')"
  using assms by (auto simp: replay_def split: sum.splits prod.splits)

text \<open>The row whose results have been claimed.\<close>

lemma claim_result_row:
  assumes "claim_result t key now d = (True, d1)" and "plane_ok d" and "get_row t_id i (tasks d) = Some t"
  shows "get_row t_id i (tasks d1) = Some (t\<lparr>t_result_key := Some key, t_updated_at := now\<rparr>)"
    and "t_status t \<in> set LEASED_STATUSES" and "t_result_key t = None"
proof -
  let ?P = "\<lambda>x. held_by t x \<and> t_result_key x = None"
  have r: "rowcount ?P (tasks d) = 1"
      and d1: "d1 = d\<lparr>tasks := update_where ?P (\<lambda>x. x\<lparr>t_result_key := Some key, t_updated_at := now\<rparr>) (tasks d)\<rparr>"
    using assms(1) by (auto simp: claim_result_def Let_def split: if_splits)
  have "rowcount ?P (tasks d) \<noteq> 0" using r by simp
  then obtain x where x: "x \<in> set (tasks d)" "?P x" unfolding rowcount_0_iff by blast
  have "x = t" using get_row_unique [OF _ assms(3) x(1)] x(2) get_row_Some [OF assms(3)] assms(2)
    by (simp add: plane_ok_def held_by_def)
  then show "t_status t \<in> set LEASED_STATUSES" "t_result_key t = None" using x(2) by (simp_all add: held_by_def)
  have "get_row t_id i (tasks d1) = map_option (\<lambda>x. if ?P x then x\<lparr>t_result_key := Some key, t_updated_at := now\<rparr> else x) (get_row t_id i (tasks d))"
    unfolding d1 using get_row_update_where [of ?P t_id "\<lambda>x. x\<lparr>t_result_key := Some key, t_updated_at := now\<rparr>" i "tasks d"] by simp
  then show "get_row t_id i (tasks d1) = Some (t\<lparr>t_result_key := Some key, t_updated_at := now\<rparr>)"
    using \<open>x = t\<close> x(2) assms(3) by simp
qed

lemma accepted_claims:
  assumes "submit_results acc cf ps store settings i body e now d = (Inr a, d')" and "\<not> ra_replay a" and "plane_ok d"
  shows "plane_ok d' \<and> (\<exists>l. lease_at d' i = Some l \<and> l_claim l = Some (rs_idempotency_key body))"
  using assms(1)
proof (cases rule: submit_results_cases)
  case (replayed t)
  then show ?thesis using replay_outcome [OF replayed(3)] assms(2) by simp
next
  case (claimed t s d1)
  note h = claim_result_held [OF claimed(5) assms(3)]
  note row = claim_result_row [OF claimed(5) assms(3) claimed(1)]
  have "keeps d1 d'"
    using recorded_from_claim [OF claimed(6) h(2,1) results_refusal_reportable [OF claimed(3)]] by (metis Inl_Inr_False)
  then have e: "evolves d1 d'" "plane_ok d'" using h(2) by (simp_all add: keeps_def)
  obtain l' where l': "lease_at d' i = Some l'"
      "lease_step\<^sup>*\<^sup>* (lease_of (t\<lparr>t_result_key := Some (rs_idempotency_key body), t_updated_at := now\<rparr>)) l'"
    using evolves_lease_known [OF e, of i] row(1) by (auto simp: lease_at_def)
  have "l_claim l' = Some (rs_idempotency_key body)" using lease_run [OF l'(2)] by simp
  then show ?thesis using e(2) l'(1) by blast
qed simp

lemma claimed_is_not_claimed_again:
  assumes "get_row t_id i (tasks d) = Some t" and "t_result_key t = Some k" and "plane_ok d"
  shows "claim_result t key now d = (False, d)"
proof -
  have "\<not> (held_by t x \<and> t_result_key x = None)" if "x \<in> set (tasks d)" for x
    using get_row_unique [OF _ assms(1) that] get_row_Some [OF assms(1)] assms(2,3) by (auto simp: held_by_def plane_ok_def)
  then have "rowcount (\<lambda>x. held_by t x \<and> t_result_key x = None) (tasks d) = 0" by (simp add: rowcount_0_iff)
  then show ?thesis by (simp add: claim_result_def)
qed

text \<open>
  C31.  Results are recorded once.  After a submission was accepted, and after anything else that
  happens then, every further submission for the task changes nothing when it is refused, and
  otherwise is the same submission again: it is answered as a replay, ingests no finding, creates no
  task, and does at most the finishing of the scan that may have been lost the first time.
\<close>

theorem results_are_recorded_once:
  assumes "plane_ok d" and "submit_results acc cf ps store settings i body e now d = (Inr a, d1)" and "\<not> ra_replay a"
    and "control_step\<^sup>*\<^sup>* d1 d2"
    and "submit_results acc' cf' ps' store' settings' i body' e' now' d2 = (r, d3)"
  shows "case r of Inl _ \<Rightarrow> d3 = d2
    | Inr b \<Rightarrow> ra_replay b \<and> rs_idempotency_key body' = rs_idempotency_key body \<and>
        ra_outcome b = no_outcome \<and> ra_fetch_tasks_created b = 0 \<and>
        (\<exists>scan. finalize_and_reconcile ps' scan now' d2 = Inr (ra_scan_status b, d3))"
proof -
  obtain l where l: "plane_ok d1" "lease_at d1 i = Some l" "l_claim l = Some (rs_idempotency_key body)"
    using accepted_claims [OF assms(2,3,1)] by blast
  have ok: "plane_ok d2" by (rule plane.run_ok [OF assms(4) l(1)])
  obtain l2 where "lease_at d2 i = Some l2" "l_claim l2 = Some (rs_idempotency_key body)"
    using plane.run_claimed [OF assms(4) l] by blast
  then obtain t2 where t2: "get_row t_id i (tasks d2) = Some t2" "t_result_key t2 = Some (rs_idempotency_key body)"
    by (auto simp: lease_at_def)
  from assms(5) show ?thesis
  proof (cases rule: submit_results_cases)
    case (replayed t)
    then show ?thesis using replay_outcome [OF replayed(3)] t2 by (auto split: sum.splits)
  next
    case (claimed t s d4)
    then show ?thesis using claimed_is_not_claimed_again [OF t2 ok] t2(1) by simp
  qed simp
qed

section \<open>What completion means\<close>

lemma outcome_completed:
  assumes "fst (effective_outcome body counts cov) = TASK_COMPLETED"
  shows "rs_status body = TASK_COMPLETED" and "total_of counts (cps ''units_failed'') \<le> 0"
    and "total_of counts (cps ''units_truncated'') \<le> 0"
    and "cov = Some r \<Longrightarrow> cc_failed (tc_counts r) = 0 \<and> cs_gaps (tc_scope r) = 0"
  using assms by (auto simp: effective_outcome_def Let_def split: if_splits)

lemma get_row_complete:
  "get_row t_id i (tasks (complete_task i st err cov now d)) =
     map_option (\<lambda>x. x\<lparr>t_status := st, t_error := err,
        t_coverage := (case cov of None \<Rightarrow> t_coverage x | Some r \<Rightarrow> Stored r),
        t_finished_at := Some now, t_lease_expires_at := None, t_updated_at := now\<rparr>) (get_row t_id i (tasks d))"
  using get_row_Some [of t_id i "tasks d"]
  by (cases "get_row t_id i (tasks d)") (simp_all add: complete_task_def get_row_update_where)

lemma recorded_row:
  assumes "record_results cf store settings s t body now d = Inr (ids, out, d')" and "t_id t = i"
    and "get_row t_id i (tasks d') = Some u"
  shows "\<exists>cov. merged_coverage body t = Inr cov \<and> t_status u = fst (effective_outcome body (rs_counts body) cov) \<and>
    (\<forall>r. cov = Some r \<longrightarrow> t_coverage u = Stored r)"
  using assms by (auto simp: record_results_def bindE_eq_Inr Let_def split_beta get_row_complete)

lemma flawed_results:
  assumes "merged_coverage body t = Inr cov" and "results_refusal body t = None"
    and "t_status t \<in> set LEASED_STATUSES" and "flawed t"
  shows "\<exists>r. cov = Some r \<and> missed r"
proof -
  have "rs_checkpoint_sequence body = t_checkpoint_sequence t"
    using assms(2) by (auto simp: results_refusal_def split: if_splits)
  then obtain q where q: "rs_checkpoint_sequence body \<noteq> 0" "stored_task_report (t_kind t) (t_coverage t) = Some q" "missed q"
    using assms(3,4) by (auto simp: flawed_def split: option.splits)
  show ?thesis
  proof (cases "rs_coverage body")
    case None
    then show ?thesis using assms(1) q by (auto simp: merged_coverage_def)
  next
    case (Some delta)
    then show ?thesis using assms(1) q merge_missed [of q delta] by (auto simp: merged_coverage_def bindE_eq_Inr)
  qed
qed

section \<open>Batches\<close>

lemma advance_checkpoint_row:
  assumes "advance_checkpoint t n ck ctx now d = (True, d1)" and "plane_ok d" and "get_row t_id i (tasks d) = Some t"
  shows "get_row t_id i (tasks d1) = Some (t\<lparr>t_checkpoint := ck, t_checkpoint_sequence := n,
      t_checkpoint_context := ctx, t_updated_at := now\<rparr>)"
    and "t_status t \<in> set LEASED_STATUSES" and "t_result_key t = None" and "t_checkpoint_sequence t + 1 = n"
    and "findings d1 = findings d" and "table_ok d1 = table_ok d"
proof -
  let ?P = "\<lambda>x. held_by t x \<and> t_result_key x = None \<and> t_checkpoint_sequence x + 1 = n"
  let ?f = "\<lambda>x. x\<lparr>t_checkpoint := ck, t_checkpoint_sequence := n, t_checkpoint_context := ctx, t_updated_at := now\<rparr>"
  have r: "rowcount ?P (tasks d) = 1" and d1: "d1 = d\<lparr>tasks := update_where ?P ?f (tasks d)\<rparr>"
    using assms(1) by (auto simp: advance_checkpoint_def Let_def split: if_splits)
  have "rowcount ?P (tasks d) \<noteq> 0" using r by simp
  then obtain x where x: "x \<in> set (tasks d)" "?P x" unfolding rowcount_0_iff by blast
  have "x = t" using get_row_unique [OF _ assms(3) x(1)] x(2) get_row_Some [OF assms(3)] assms(2)
    by (simp add: plane_ok_def held_by_def)
  then show "t_status t \<in> set LEASED_STATUSES" "t_result_key t = None" "t_checkpoint_sequence t + 1 = n"
    using x(2) by (simp_all add: held_by_def)
  have "get_row t_id i (tasks d1) = map_option (\<lambda>x. if ?P x then ?f x else x) (get_row t_id i (tasks d))"
    unfolding d1 using get_row_update_where [of ?P t_id ?f i "tasks d"] by simp
  then show "get_row t_id i (tasks d1) = Some (?f t)" using \<open>x = t\<close> x(2) assms(3) by simp
  show "findings d1 = findings d" "table_ok d1 = table_ok d" by (simp_all add: d1 table_ok_def ids_drawn_def)
qed

lemma batch_flaws:
  assumes "batch_stored cf store settings i s body now d = Inr (out, d')"
    and "get_row t_id i (tasks d) = Some (t\<lparr>t_checkpoint := ck, t_checkpoint_sequence := n,
      t_checkpoint_context := ctx, t_updated_at := x\<rparr>)" and "t_checkpoint_sequence t + 1 = n"
    and "t_kind t = FETCH" and "ps_coverage body = Some r" and "valid_report r" and "tc_phase r = FETCH" and "missed r"
  shows "\<exists>u. get_row t_id i (tasks d') = Some u \<and> flawed u"
proof -
  let ?t = "t\<lparr>t_checkpoint := ck, t_checkpoint_sequence := n, t_checkpoint_context := ctx, t_updated_at := x\<rparr>"
  obtain d1 d2 where d1: "store_findings cf store settings s (ps_findings body) now d = Inr (out, d1)"
      and d2: "merge_batch_coverage i (Some r) d1 = Inr d2"
      and d': "d' = tally_scan (s_id s) out (ps_counts body) (ps_rulepack_version body) now d2"
    using assms(1,5) by (auto simp: batch_stored_def bindE_eq_Inr)
  have t1: "get_row t_id i (tasks d1) = Some ?t" using outside_store_findings [OF d1] assms(2) by (simp add: outside_def)
  obtain q where q: "merge_task_report (stored_task_report FETCH (t_coverage t)) r = Inr q"
      "d2 = d1\<lparr>tasks := update_where (\<lambda>x. t_id x = i) (\<lambda>x. x\<lparr>t_coverage := Stored q\<rparr>) (tasks d1)\<rparr>"
    using d2 t1 assms(4) by (auto simp: merge_batch_coverage_def bindE_eq_Inr)
  have "stored_task_report FETCH (Stored q) = Some q \<and> missed q"
    using merged_of_phase [OF q(1) assms(6-8)] .
  then have "flawed (?t\<lparr>t_coverage := Stored q\<rparr>)" using assms(3,4) by (auto simp: flawed_def)
  moreover have "get_row t_id i (tasks d2) = Some (?t\<lparr>t_coverage := Stored q\<rparr>)"
    using t1 get_row_Some [OF t1] unfolding q(2) by (simp add: get_row_update_where)
  moreover have "tasks d' = tasks d2" by (simp add: d' tally_scan_def)
  ultimately show ?thesis by auto
qed

text \<open>
  The engine that flushed \<open>r\<close> with an accepted batch of the task, at some time before the plane came to
  be in the state \<open>d\<close>.
\<close>

definition flushed :: "nat \<Rightarrow> task_coverage_report \<Rightarrow> db \<Rightarrow> bool" where
  "flushed i r d \<longleftrightarrow>
     (\<exists>cf store settings batch e now d0 a d1. plane_ok d0 \<and>
        submit_progress cf store settings i batch e now d0 = (Inr a, d1) \<and> \<not> pa_replay a \<and>
        ps_coverage batch = Some r \<and> control_step\<^sup>*\<^sup>* d1 d)"

lemma flushed_is_flawed:
  assumes "flushed i r d" and "valid_report r" and "tc_phase r = FETCH" and "missed r"
  shows "\<exists>u. get_row t_id i (tasks d) = Some u \<and> flawed u"
proof -
  obtain cf store settings batch e now d0 a d1 where ok: "plane_ok d0"
      and sub: "submit_progress cf store settings i batch e now d0 = (Inr a, d1)" "\<not> pa_replay a"
      and cov: "ps_coverage batch = Some r" and run: "control_step\<^sup>*\<^sup>* d1 d"
    using assms(1) by (auto simp: flushed_def)
  obtain t s ctx d2 out where t: "get_row t_id i (tasks d0) = Some t" "t_kind t = FETCH"
      "advance_checkpoint t (ps_sequence batch) (ps_checkpoint batch) ctx now d0 = (True, d2)"
      "batch_stored cf store settings i s batch now d2 = Inr (out, d1)"
    using sub unfolding submit_progress_def
    by (auto simp: Let_def split: option.splits sum.splits prod.splits if_splits)
  have ok1: "plane_ok d1" using keeps_submit_progress [of d0 cf store settings i batch e now] sub(1) ok by (simp add: keeps_def)
  have "\<exists>u. get_row t_id i (tasks d1) = Some u \<and> flawed u"
    using batch_flaws [OF t(4) advance_checkpoint_row(1,4) [OF t(3) ok t(1)] t(2) cov assms(2-4)] .
  then obtain u where "get_row t_id i (tasks d1) = Some u" and f: "flawed u" by (elim exE conjE)
  from get_row_Some [OF this(1)] have u: "u \<in> set (tasks d1)" "t_id u = i" by simp_all
  have "grows task_evolves task_starts (tasks d1) (tasks d)" using run_evolves [OF run ok1] by (simp add: evolves_def)
  then obtain v where v: "v \<in> set (tasks d)" "task_evolves u v" using grows_get_row [OF _ u(1)] by blast
  moreover have "plane_ok d" by (rule plane.run_ok [OF run ok1])
  ultimately have "get_row t_id (t_id v) (tasks d) = Some v" using get_row_in [OF _ v(1), of t_id] by (simp add: plane_ok_def)
  then show ?thesis using v(2) u(2) f by (auto simp: task_evolves_def)
qed

text \<open>
  C32.  An accepted submission ends the task, as completed or as failed, and keeps the merged coverage
  report.  It is completed only if the engine says so, it reports no unit that was unreadable or
  truncated, the merged report has no failed object and no gap in its scope, and no accepted batch of
  the task's own phase had one either, however long ago it was flushed and whatever happened since.  (A
  batch that reports the other phase is taken and its gap forgotten, see the end of the theory.)
\<close>

theorem completed_tasks_missed_nothing:
  assumes "plane_ok d" and "submit_results acc cf ps store settings i body e now d = (Inr a, d')" and "\<not> ra_replay a"
  shows "\<exists>t u cov. get_row t_id i (tasks d) = Some t \<and> get_row t_id i (tasks d') = Some u \<and>
    t_result_key u = Some (rs_idempotency_key body) \<and> t_status u \<in> {TASK_COMPLETED, TASK_FAILED} \<and>
    merged_coverage body t = Inr cov \<and> (\<forall>r. cov = Some r \<longrightarrow> t_coverage u = Stored r) \<and>
    (t_status u = TASK_COMPLETED \<longrightarrow>
       rs_status body = TASK_COMPLETED \<and> total_of (rs_counts body) (cps ''units_failed'') \<le> 0 \<and>
       total_of (rs_counts body) (cps ''units_truncated'') \<le> 0 \<and>
       (case cov of None \<Rightarrow> True | Some r \<Rightarrow> \<not> missed r) \<and>
       (\<forall>r. flushed i r d \<and> valid_report r \<and> tc_phase r = FETCH \<longrightarrow> \<not> missed r))"
  using assms(2)
proof (cases rule: submit_results_cases)
  case (replayed t)
  then show ?thesis using replay_outcome [OF replayed(3)] assms(3) by simp
next
  case (claimed t s d1)
  note h = claim_result_held [OF claimed(5) assms(1)]
  note rep = results_refusal_reportable [OF claimed(3)]
  obtain ids out d2 where d2: "record_results cf store settings s t body now d1 = Inr (ids, out, d2)" "tasks d' = tasks d2"
    using recorded_from_claim [OF claimed(6) h(2,1) rep] by (metis Inl_Inr_False)
  obtain l where "lease_at d' i = Some l" "l_claim l = Some (rs_idempotency_key body)"
    using accepted_claims [OF assms(2,3,1)] by blast
  then obtain u where u: "get_row t_id i (tasks d') = Some u" "t_result_key u = Some (rs_idempotency_key body)"
    by (auto simp: lease_at_def)
  have i: "t_id t = i" using get_row_Some [OF claimed(1)] by simp
  obtain cov where cov: "merged_coverage body t = Inr cov"
      "t_status u = fst (effective_outcome body (rs_counts body) cov)" "\<forall>r. cov = Some r \<longrightarrow> t_coverage u = Stored r"
    using recorded_row [OF d2(1) i] u(1) d2(2) by metis
  have ok: "\<not> missed r" if "t_status u = TASK_COMPLETED" "cov = Some r" for r
    using outcome_completed(4) [of body "rs_counts body" cov r] that cov(2) by (simp add: missed_def)
  have "\<not> flawed t" if "t_status u = TASK_COMPLETED"
    using flawed_results [OF cov(1) claimed(3) claim_result_row(2) [OF claimed(5) assms(1) claimed(1)]] ok [OF that] by blast
  then have "\<not> missed r" if "t_status u = TASK_COMPLETED" "flushed i r d" "valid_report r" "tc_phase r = FETCH" for r
    using flushed_is_flawed [OF that(2-4)] that(1) claimed(1) by auto
  moreover have "t_status u \<in> {TASK_COMPLETED, TASK_FAILED}"
    unfolding cov(2) by (rule effective_outcome_reportable [OF rep])
  moreover have "case cov of None \<Rightarrow> True | Some r \<Rightarrow> \<not> missed r" if "t_status u = TASK_COMPLETED"
    using ok [OF that] by (simp split: option.split)
  ultimately show ?thesis
    using claimed(1) u cov(1,3) outcome_completed(1-3) [of body "rs_counts body" cov, folded cov(2)]
    by (intro exI [of _ t] exI [of _ u] exI [of _ cov]) blast
qed simp

text \<open>What a submission's findings must be afterwards, for the ones the batch does not re-key away.\<close>

definition kept_findings :: "rat \<Rightarrow> finding_payload list \<Rightarrow> finding_payload list" where
  "kept_findings threshold ps =
     filter (\<lambda>p. above_threshold threshold p \<and> Some (fp_fingerprint p) \<notin> fp_previous_fingerprint ` set ps) ps"

lemma store_findings_stores:
  assumes "store_findings cf store settings s ps now d = Inr (out, d')" and "table_ok d"
  shows "list_all (\<lambda>p. stored (s_source_id s) (s_id s) (fp_fingerprint p) d') (kept_findings (es_confidence_threshold settings) ps)"
proof (cases "ps = []")
  case False
  then have "ingest_findings cf (correlation_of store) (es_confidence_threshold settings) s ps now d = Inr (out, d')"
    using assms(1) by (simp add: store_findings_def)
  from ingest_findings_effect(3) [OF assms(2) this] show ?thesis by (auto simp: list_all_iff kept_findings_def)
qed (simp add: kept_findings_def)

lemma batch_stored_row:
  assumes "batch_stored cf store settings i s body now d = Inr (out, d')" and "get_row t_id i (tasks d) = Some t" and "table_ok d"
  shows "(\<exists>c. get_row t_id i (tasks d') = Some (t\<lparr>t_coverage := c\<rparr>)) \<and>
    list_all (\<lambda>p. stored (s_source_id s) (s_id s) (fp_fingerprint p) d')
      (kept_findings (es_confidence_threshold settings) (ps_findings body))"
proof -
  obtain d1 d2 where d1: "store_findings cf store settings s (ps_findings body) now d = Inr (out, d1)"
      and d2: "merge_batch_coverage i (ps_coverage body) d1 = Inr d2"
      and d': "d' = tally_scan (s_id s) out (ps_counts body) (ps_rulepack_version body) now d2"
    using assms(1) by (auto simp: batch_stored_def bindE_eq_Inr)
  have t1: "get_row t_id i (tasks d1) = Some t" using outside_store_findings [OF d1] assms(2) by (simp add: outside_def)
  have same: "get_row t_id i (update_where (\<lambda>x. t_id x = i) (\<lambda>x. x\<lparr>t_coverage := c\<rparr>) (tasks d1)) = Some (t\<lparr>t_coverage := c\<rparr>)" for c
    using t1 get_row_Some [OF t1] by (subst get_row_update_where) simp_all
  have "\<exists>c. t = t\<lparr>t_coverage := c\<rparr>" by (rule exI [of _ "t_coverage t"]) simp
  then have "\<exists>c. get_row t_id i (tasks d2) = Some (t\<lparr>t_coverage := c\<rparr>)"
    using d2 t1 same by (auto simp: merge_batch_coverage_def bindE_eq_Inr split: option.splits)
  moreover have "findings d' = findings d1"
    using d2 by (auto simp: d' tally_scan_def merge_batch_coverage_def bindE_eq_Inr split: option.splits)
  moreover have "tasks d' = tasks d2" by (simp add: d' tally_scan_def)
  ultimately show ?thesis using store_findings_stores [OF d1 assms(3)] by (simp add: stored_def)
qed

text \<open>
  C33.  A batch is stored whole, once and in order.  A batch that is refused, fails or is answered as
  a replay changes nothing at all.  One that is accepted comes from the engine that holds the lease,
  is the one that follows the last accepted batch, and leaves the resume point it carries together
  with every finding of it that is above the threshold: no resume point is ever ahead of its findings.
\<close>

theorem batches_are_stored_whole_and_in_order:
  assumes "plane_ok d" and "table_ok d" and "submit_progress cf store settings i body e now d = (r, d')"
  shows "case r of Inl _ \<Rightarrow> d' = d
    | Inr a \<Rightarrow> if pa_replay a then d' = d \<and> pa_outcome a = no_outcome
        else \<exists>t u s. get_row t_id i (tasks d) = Some t \<and> get_row t_id i (tasks d') = Some u \<and>
          get_row s_id (t_scan_id t) (scans d) = Some s \<and>
          t_engine_id t = Some e \<and> t_status t \<in> set LEASED_STATUSES \<and> t_result_key t = None \<and>
          ps_sequence body = t_checkpoint_sequence t + 1 \<and> t_checkpoint_sequence u = ps_sequence body \<and>
          t_checkpoint u = ps_checkpoint body \<and>
          list_all (\<lambda>p. stored (s_source_id s) (s_id s) (fp_fingerprint p) d')
            (kept_findings (es_confidence_threshold settings) (ps_findings body))"
proof (cases "r \<in> range Inl \<or> (\<exists>a. r = Inr a \<and> pa_replay a)")
  case True
  then show ?thesis
    using assms(3) unfolding submit_progress_def
    by (auto simp: Let_def split: option.splits sum.splits prod.splits if_splits)
next
  case False
  then obtain a where a: "r = Inr a" "\<not> pa_replay a" by (cases r) auto
  obtain t s ctx d1 out where t: "get_row t_id i (tasks d) = Some t" "get_row s_id (t_scan_id t) (scans d) = Some s"
      "t_engine_id t = Some e" "advance_checkpoint t (ps_sequence body) (ps_checkpoint body) ctx now d = (True, d1)"
      "batch_stored cf store settings i s body now d1 = Inr (out, d')"
    using assms(3) a unfolding submit_progress_def
    by (auto simp: Let_def split: option.splits sum.splits prod.splits if_splits)
  note adv = advance_checkpoint_row [OF t(4) assms(1) t(1)]
  obtain c where u: "get_row t_id i (tasks d') = Some (t\<lparr>t_checkpoint := ps_checkpoint body,
      t_checkpoint_sequence := ps_sequence body, t_checkpoint_context := ctx, t_updated_at := now, t_coverage := c\<rparr>)"
    and f: "list_all (\<lambda>p. stored (s_source_id s) (s_id s) (fp_fingerprint p) d')
      (kept_findings (es_confidence_threshold settings) (ps_findings body))"
    using batch_stored_row [OF t(5) adv(1)] adv(6) assms(2) by auto
  show ?thesis
    unfolding a(1) sum.case if_not_P [OF a(2)]
    by (rule exI [of _ t], rule exI, rule exI [of _ s], intro conjI, rule t(1), rule u)
       (use t(2,3) f adv(2-4) in simp_all)
qed

section \<open>Witnesses\<close>

definition demo_working :: db where
  "demo_working = empty_db\<lparr>sources := [demo_source], scans := [demo_scan],
     tasks := [demo_task\<lparr>t_status := TASK_LEASED, t_lease_expires_at := Some 100\<rparr>], drawn := 12\<rparr>"

definition demo_results :: results_submission where
  "demo_results = \<lparr>rs_idempotency_key = cps ''11:1'', rs_status = TASK_COMPLETED, rs_error = None,
     rs_findings = [demo_payload], rs_task_specs = [], rs_rulepack_version = Some (cps ''2''), rs_counts = [],
     rs_coverage = Some (demo_report FETCH 1), rs_checkpoint_sequence = 0, rs_cursor = None\<rparr>"

definition demo_batch :: progress_submission where
  "demo_batch = \<lparr>ps_sequence = 1, ps_checkpoint = [(cps ''page'', JInt 4)], ps_findings = [demo_payload], ps_counts = [],
     ps_coverage = Some (demo_report FETCH 1), ps_rulepack_version = Some (cps ''2'')\<rparr>"

abbreviation demo_submit :: "results_submission \<Rightarrow> db \<Rightarrow> results_accepted reply" where
  "demo_submit body d \<equiv> submit_results (\<lambda>_. True) id (\<lambda>_. []) demo_store demo_settings 11 body 2 50 d"

lemma demo_working_ok: "plane_ok demo_working" "table_ok demo_working"
  by (auto simp: demo_working_def plane_ok_def table_ok_def one_active_def ids_drawn_def demo_scan_def demo_task_def)

lemma demo_accepted:
  obtains a d1 where "demo_submit demo_results demo_working = (Inr a, d1)" and "\<not> ra_replay a"
    and "\<exists>b d2. demo_submit demo_results d1 = (Inr b, d2)" and "list_all (\<lambda>t. t_status t = TASK_COMPLETED) (tasks d1)"
proof -
  obtain r d1 where r: "demo_submit demo_results demo_working = (r, d1)" by fastforce
  obtain r2 d2 where r2: "demo_submit demo_results d1 = (r2, d2)" by fastforce
  have "case demo_submit demo_results demo_working of
      (Inr a, d1) \<Rightarrow> \<not> ra_replay a \<and> \<not> isl (fst (demo_submit demo_results d1)) \<and>
        list_all (\<lambda>t. t_status t = TASK_COMPLETED) (tasks d1)
    | (Inl _, _) \<Rightarrow> False"
    by code_simp
  then have "case r of Inr a \<Rightarrow> \<not> ra_replay a \<and> \<not> isl r2 \<and> list_all (\<lambda>t. t_status t = TASK_COMPLETED) (tasks d1)
    | Inl _ \<Rightarrow> False"
    unfolding r by (simp only: prod.case r2 fst_conv)
  then obtain a b where ab: "r = Inr a" "\<not> ra_replay a" "r2 = Inr b" "list_all (\<lambda>t. t_status t = TASK_COMPLETED) (tasks d1)"
    by (cases r; cases r2) auto
  show thesis using that [of a d1] r r2 ab by blast
qed

theorem results_are_recorded_once_witness:
  "\<exists>a d1 b d2. demo_submit demo_results demo_working = (Inr a, d1) \<and> \<not> ra_replay a \<and>
     demo_submit demo_results d1 = (Inr b, d2) \<and> ra_replay b \<and> ra_outcome b = no_outcome"
proof -
  obtain a d1 b d2 where a: "demo_submit demo_results demo_working = (Inr a, d1)" "\<not> ra_replay a"
      "demo_submit demo_results d1 = (Inr b, d2)"
    using demo_accepted by metis
  from results_are_recorded_once [OF demo_working_ok(1) a(1,2) rtranclp.rtrancl_refl a(3)] a show ?thesis by auto
qed

text \<open>A batch that reports a gap, and results that claim completion.\<close>

definition demo_gap :: task_coverage_report where
  "demo_gap = failure_report FETCH CONNECTOR_ERROR"

abbreviation demo_flush :: "progress_accepted reply" where
  "demo_flush \<equiv> submit_progress id demo_store demo_settings 11 (demo_batch\<lparr>ps_coverage := Some demo_gap\<rparr>) 2 50 demo_working"

theorem completed_tasks_missed_nothing_witness:
  "\<exists>b d1 a d2 u. demo_flush = (Inr b, d1) \<and> flushed 11 demo_gap d1 \<and>
     demo_submit (demo_results\<lparr>rs_checkpoint_sequence := 1\<rparr>) d1 = (Inr a, d2) \<and>
     rs_status demo_results = TASK_COMPLETED \<and> get_row t_id 11 (tasks d2) = Some u \<and> t_status u = TASK_FAILED"
proof -
  let ?body = "demo_results\<lparr>rs_checkpoint_sequence := 1\<rparr>"
  obtain r d1 where r: "demo_flush = (r, d1)" by fastforce
  obtain r2 d2 where r2: "demo_submit ?body d1 = (r2, d2)" by fastforce
  have "case demo_flush of
      (Inr b, d1) \<Rightarrow> \<not> pa_replay b \<and> (case fst (demo_submit ?body d1) of Inr a \<Rightarrow> \<not> ra_replay a | Inl _ \<Rightarrow> False)
    | (Inl _, _) \<Rightarrow> False"
    by code_simp
  then have "case r of Inr b \<Rightarrow> \<not> pa_replay b \<and> (case r2 of Inr a \<Rightarrow> \<not> ra_replay a | Inl _ \<Rightarrow> False) | Inl _ \<Rightarrow> False"
    unfolding r by (simp only: prod.case r2 fst_conv)
  then obtain b a where ab: "r = Inr b" "\<not> pa_replay b" "r2 = Inr a" "\<not> ra_replay a" by (cases r; cases r2) auto
  have ok: "plane_ok d1"
    using keeps_submit_progress [of demo_working id demo_store demo_settings 11 "demo_batch\<lparr>ps_coverage := Some demo_gap\<rparr>" 2 50]
      demo_working_ok(1) r by (simp add: keeps_def)
  have f: "flushed 11 demo_gap d1"
    unfolding flushed_def
    by (intro exI conjI, rule demo_working_ok(1), rule r [unfolded ab(1)], rule ab(2), simp, rule rtranclp.rtrancl_refl)
  have g: "valid_report demo_gap" "tc_phase demo_gap = FETCH" "missed demo_gap" "rs_status demo_results = TASK_COMPLETED"
    by code_simp+
  from completed_tasks_missed_nothing [OF ok r2 [unfolded ab(3)] ab(4)]
  obtain u where u: "get_row t_id 11 (tasks d2) = Some u" "t_status u \<in> {TASK_COMPLETED, TASK_FAILED}" "t_status u \<noteq> TASK_COMPLETED"
    using f g by blast
  then show ?thesis using r r2 ab f g by blast
qed

theorem batches_are_stored_whole_and_in_order_witness:
  "\<exists>a d1 u. submit_progress id demo_store demo_settings 11 demo_batch 2 50 demo_working = (Inr a, d1) \<and>
     get_row t_id 11 (tasks d1) = Some u \<and> t_checkpoint_sequence u = 1"
proof -
  obtain r d1 where r: "submit_progress id demo_store demo_settings 11 demo_batch 2 50 demo_working = (r, d1)" by fastforce
  have "case submit_progress id demo_store demo_settings 11 demo_batch 2 50 demo_working of
      (Inr a, _) \<Rightarrow> \<not> pa_replay a | (Inl _, _) \<Rightarrow> False"
    by code_simp
  then obtain a where a: "r = Inr a" "\<not> pa_replay a" by (auto simp: r split: sum.splits)
  from batches_are_stored_whole_and_in_order [OF demo_working_ok r] a r show ?thesis
    by (auto simp: demo_batch_def)
qed

text \<open>
  A batch whose report is of the other phase is taken, and the gap it reports is not seen when the
  task is judged: the stored report does not validate as one of the task's kind.
\<close>

lemma wrong_phase_batch_is_forgotten:
  "case submit_progress id demo_store demo_settings 11
       (demo_batch\<lparr>ps_coverage := Some (failure_report DISCOVERY CONNECTOR_ERROR)\<rparr>) 2 50 demo_working of
     (Inr a, d1) \<Rightarrow>
       \<not> pa_replay a \<and>
       (case demo_submit (demo_results\<lparr>rs_checkpoint_sequence := 1\<rparr>) d1 of
          (Inr b, d2) \<Rightarrow> list_all (\<lambda>t. t_status t = TASK_COMPLETED) (tasks d2)
        | (Inl _, _) \<Rightarrow> False)
   | (Inl _, _) \<Rightarrow> False"
  by code_simp

end
