(* ===== verification/Task_Rows.thy ===== *)
theory Task_Rows
  imports Submissions
begin

text \<open>
  What kind of thing a task row is, which no database constraint states: a leased task names its engine
  and has a deadline, a queued task has neither, a finished task has a finishing time and no deadline, a
  discovery task has no batches, and a stored coverage report is one the request model would accept.
  The code that reads rows relies on it: a lease with no deadline would never be reclaimed.
\<close>

section \<open>Row types\<close>

definition typed_coverage :: "stored_coverage \<Rightarrow> bool" where
  "typed_coverage c \<longleftrightarrow> (case c of NoCoverage \<Rightarrow> True | Malformed \<Rightarrow> False | Stored r \<Rightarrow> valid_report r)"

definition typed_task :: "scan_task \<Rightarrow> bool" where
  "typed_task t \<longleftrightarrow>
     (if t_status t \<in> set LEASED_STATUSES
      then t_engine_id t \<noteq> None \<and> t_lease_expires_at t \<noteq> None \<and> 0 < t_attempts t
      else t_lease_expires_at t = None) \<and>
     (t_status t = TASK_QUEUED \<longrightarrow> t_engine_id t = None) \<and>
     (t_status t \<in> set TERMINAL_TASK_STATUSES \<longrightarrow> t_finished_at t \<noteq> None) \<and>
     (t_kind t = DISCOVERY \<longrightarrow> t_checkpoint_sequence t = 0) \<and>
     typed_coverage (t_coverage t)"

definition typed :: "db \<Rightarrow> bool" where
  "typed d \<longleftrightarrow> list_all typed_task (tasks d)"

lemmas statuses = LEASED_STATUSES_def TERMINAL_TASK_STATUSES_def

text \<open>An operation is well typed if it keeps the types of all rows; composition needs the plane.\<close>

definition well_typed :: "db \<Rightarrow> db \<Rightarrow> bool" where
  "well_typed d e \<longleftrightarrow> keeps d e \<and> (plane_ok d \<and> typed d \<longrightarrow> typed e)"

lemma well_typed_refl [simp]: "well_typed d d"
  by (simp add: well_typed_def)

lemma well_typed_trans: "well_typed d e \<Longrightarrow> well_typed e f \<Longrightarrow> well_typed d f"
  unfolding well_typed_def using keeps_trans by (auto simp: keeps_def)

lemma well_typed_frame: "keeps d e \<Longrightarrow> tasks e = tasks d \<Longrightarrow> well_typed d e"
  by (simp add: well_typed_def typed_def)

lemma well_typed_outside: "outside d e \<Longrightarrow> well_typed d e"
  by (rule well_typed_frame) (simp_all add: outside_keeps, simp add: outside_def)

lemma well_typed_update:
  assumes "keeps d e" and "tasks e = update_where P f (tasks d)"
    and "\<And>t. t \<in> set (tasks d) \<Longrightarrow> plane_ok d \<Longrightarrow> P t \<Longrightarrow> typed_task t \<Longrightarrow> typed_task (f t)"
  shows "well_typed d e"
  using assms by (auto simp: well_typed_def typed_def list_all_iff set_update_where split: if_splits)

lemma well_typed_rows:
  assumes "\<And>t. t \<in> set (tasks d) \<Longrightarrow> plane_ok d \<Longrightarrow> P t \<Longrightarrow> typed_task t \<Longrightarrow> typed_task (f t)"
    and "keeps d (d\<lparr>tasks := update_where P f (tasks d)\<rparr>)"
  shows "well_typed d (d\<lparr>tasks := update_where P f (tasks d)\<rparr>)"
  by (rule well_typed_update [OF assms(2), of P f]) (use assms(1) in simp_all)

lemma typed_new_task [simp]: "typed_task (new_task i s k spec now)"
  by (simp add: typed_task_def new_task_def typed_coverage_def statuses)

section \<open>The service\<close>

lemma launch_scan_tasks:
  "\<exists>new. tasks (snd (launch_scan acc src tr m v rot now d)) = tasks d @ new \<and> list_all typed_task new"
proof (cases "get_row src_id src (sources d)")
  case (Some s)
  have "tasks (snd (plan_mode s m v rot now d)) = tasks d" by (subst plan_mode_frame) simp
  then show ?thesis
    by (auto simp: launch_scan_def Some Let_def new_id_def broker_enqueue_def split_beta)
qed (simp add: launch_scan_def)

lemma well_typed_launch: "well_typed d (snd (launch_scan acc src tr m v rot now d))"
proof -
  obtain new where "tasks (snd (launch_scan acc src tr m v rot now d)) = tasks d @ new" "list_all typed_task new"
    using launch_scan_tasks by blast
  then show ?thesis using keeps_launch_scan by (simp add: well_typed_def typed_def)
qed

lemma insert_fetch_typed: "typed d \<Longrightarrow> typed (snd (insert_fetch_tasks s now specs d))"
  by (induction specs arbitrary: d) (auto simp: typed_def new_id_def Let_def split_beta)

lemma well_typed_create_fetch: "well_typed d (snd (create_fetch_tasks s specs now d))"
  using keeps_create_fetch_tasks [of d s specs now] insert_fetch_typed
  by (auto simp: well_typed_def create_fetch_tasks_def Let_def typed_def)

lemma typed_leased_row:
  "typed_task t \<Longrightarrow> t_status t = TASK_QUEUED \<Longrightarrow> typed_task (leased_row e now x t)"
  by (simp add: typed_task_def leased_row_def statuses)

lemma well_typed_claim: "well_typed d (snd (claim_task i e now ls d))"
proof -
  have b: "tasks (begin_scan t n d1) = tasks d1" for t n d1
    by (simp add: begin_scan_def set_scan_def split: option.split)
  have "tasks (snd (claim_task i e now ls d)) = tasks d \<or>
      tasks (snd (claim_task i e now ls d)) =
        update_where (\<lambda>t. t_id t = i \<and> t_status t = TASK_QUEUED) (leased_row e now (now + SECOND * int ls)) (tasks d)"
    by (simp add: claim_task_def Let_def b split: option.split)
  then show ?thesis
  proof
    assume "tasks (snd (claim_task i e now ls d)) = tasks d"
    then show ?thesis by (rule well_typed_frame [OF keeps_claim_task])
  next
    assume "tasks (snd (claim_task i e now ls d)) =
      update_where (\<lambda>t. t_id t = i \<and> t_status t = TASK_QUEUED) (leased_row e now (now + SECOND * int ls)) (tasks d)"
    then show ?thesis by (rule well_typed_update [OF keeps_claim_task]) (simp add: typed_leased_row)
  qed
qed

lemma well_typed_renew: "well_typed d (snd (renew_lease t now ls d))"
  using keeps_renew_lease [of d t now ls]
  by (auto simp: renew_lease_def Let_def typed_task_def held_by_def statuses intro!: well_typed_rows)

lemma well_typed_claim_result: "well_typed d (snd (claim_result t key now d))"
  using keeps_claim_result [of d t key now]
  by (auto simp: claim_result_def Let_def typed_task_def intro!: well_typed_rows)

lemma well_typed_advance:
  assumes "get_row t_id i (tasks d) = Some t" and "t_kind t = FETCH"
  shows "well_typed d (snd (advance_checkpoint t n ck ctx now d))"
proof -
  have "t_kind x = FETCH" if "x \<in> set (tasks d)" "plane_ok d" "held_by t x" for x
    using get_row_unique [OF _ assms(1) that(1)] get_row_Some [OF assms(1)] that assms(2)
    by (simp add: plane_ok_def held_by_def)
  then show ?thesis
    using keeps_advance_checkpoint [of d t n ck ctx now]
    by (auto simp: advance_checkpoint_def Let_def typed_task_def intro!: well_typed_rows)
qed

lemma well_typed_discard: "well_typed d (discard_checkpoint i now d)"
  using keeps_discard_checkpoint [of d i now]
  by (auto simp: discard_checkpoint_def typed_task_def intro!: well_typed_rows)

lemma well_typed_complete:
  assumes "keeps d (complete_task i st err cov now d)" and "st \<in> {TASK_COMPLETED, TASK_FAILED}" and "valid_coverage cov"
  shows "well_typed d (complete_task i st err cov now d)"
  using assms(1) unfolding complete_task_def
proof (rule well_typed_rows [rotated])
  fix t assume "typed_task t"
  then show "typed_task (t\<lparr>t_status := st, t_error := err, t_coverage := (case cov of None \<Rightarrow> t_coverage t | Some r \<Rightarrow> Stored r),
      t_finished_at := Some now, t_lease_expires_at := None, t_updated_at := now\<rparr>)"
    using assms(2,3)
    by (auto simp: typed_task_def typed_coverage_def valid_coverage_def statuses split: option.splits)
qed

lemma well_typed_finalize: "finalize_and_reconcile ps i now d = Inr (f, d') \<Longrightarrow> well_typed d d'"
  using keeps_finalize_and_reconcile finalize_tasks by (intro well_typed_frame)

lemma well_typed_finalize_each: "finalize_each ps now is nd = Inr nd' \<Longrightarrow> well_typed (snd nd) (snd nd')"
proof (induction "is" arbitrary: nd)
  case (Cons i "is")
  then show ?case using well_typed_finalize well_typed_trans by (fastforce simp: bindE_eq_Inr)
qed simp

lemma broker_frame: "tasks (fold (broker_enqueue acc) is d) = tasks d"
  by (induction "is" arbitrary: d) (simp_all add: broker_enqueue_def)

lemma well_typed_brokers: "well_typed d (fold (broker_enqueue acc) is d)"
  by (rule well_typed_frame) (simp_all add: broker_frame)

lemma well_typed_fold:
  assumes "\<And>i nd. well_typed (snd nd) (snd (f i nd))"
  shows "well_typed (snd nd) (snd (fold f is nd))"
proof (induction "is" arbitrary: nd)
  case (Cons i "is")
  then show ?case using well_typed_trans [OF assms [of nd i]] by simp
qed simp

lemma well_typed_reclaim_one: "well_typed (snd nd) (snd (reclaim_one now i nd))"
proof (cases nd)
  case (Pair ids d)
  let ?P = "\<lambda>t. t_id t = i \<and> lease_expired now t"
  let ?f = "\<lambda>t. t\<lparr>t_status := TASK_QUEUED, t_engine_id := None, t_lease_expires_at := None, t_updated_at := now\<rparr>"
  have f: "typed_task (?f t)" if "typed_task t" for t
    using that by (simp add: typed_task_def statuses)
  show ?thesis
  proof (cases "rowcount ?P (tasks d) = 1")
    case True
    then have "snd (reclaim_one now i nd) = d\<lparr>tasks := update_where ?P ?f (tasks d)\<rparr>"
      by (simp add: reclaim_one_def Pair)
    then show ?thesis using keeps_reclaim_one [of nd now i] Pair f by (simp add: well_typed_rows)
  next
    case False
    then show ?thesis by (simp add: reclaim_one_def Pair)
  qed
qed

lemma well_typed_reclaim: "well_typed d (snd (reclaim_expired_leases acc now d))"
  using well_typed_trans [OF well_typed_fold [OF well_typed_reclaim_one, of "([], d)"] well_typed_brokers]
  by (simp add: reclaim_expired_leases_def Let_def split_beta)

lemma typed_touched: "typed_task t \<Longrightarrow> typed_task (t\<lparr>t_updated_at := now\<rparr>)"
  by (simp add: typed_task_def)

lemma redispatch_typed:
  "typed d \<Longrightarrow> typed (fold (\<lambda>i e. e\<lparr>tasks := update_where (\<lambda>t. t_id t = i) (\<lambda>t. t\<lparr>t_updated_at := now\<rparr>) (tasks e)\<rparr>) is d)"
proof (induction "is" arbitrary: d)
  case (Cons i "is")
  have "typed (d\<lparr>tasks := update_where (\<lambda>t. t_id t = i) (\<lambda>t. t\<lparr>t_updated_at := now\<rparr>) (tasks d)\<rparr>)"
    using Cons.prems typed_touched unfolding typed_def list_all_iff by (auto simp: set_update_where)
  from Cons.IH [OF this] show ?case by simp
qed simp

lemma well_typed_redispatch: "well_typed d (snd (redispatch_stale_tasks acc now n d))"
  using keeps_redispatch [of d acc now n] redispatch_typed [of d]
  by (simp add: well_typed_def redispatch_stale_tasks_def Let_def typed_def broker_frame)

lemma typed_cancelled:
  assumes "typed_task t" and "valid_report r"
  shows "typed_task (t\<lparr>t_status := TASK_CANCELLED, t_finished_at := Some now, t_lease_expires_at := None,
    t_coverage := Stored r, t_updated_at := now\<rparr>)"
  using assms by (simp add: typed_task_def typed_coverage_def statuses)

lemma well_typed_cancel_each: "cancel_each now ts d = Inr d' \<Longrightarrow> well_typed d d'"
proof (induction ts arbitrary: d)
  case (Cons t ts)
  obtain e where e: "cancel_one now t d = Inr e" "cancel_each now ts e = Inr d'"
    using Cons.prems by (auto simp: bindE_eq_Inr)
  have k: "keeps d e" using keeps_cancel_each [of now "[t]" d e] e(1) by simp
  obtain r where r: "valid_report r" "e = d\<lparr>tasks := update_where (\<lambda>x. t_id x = t_id t \<and> unfinished x)
      (\<lambda>x. x\<lparr>t_status := TASK_CANCELLED, t_finished_at := Some now, t_lease_expires_at := None,
        t_coverage := Stored r, t_updated_at := now\<rparr>) (tasks d)\<rparr>"
    using e(1) cancelled_report_Inr [of "t_kind t" "t_coverage t"] by (auto simp: cancel_one_def)
  have "well_typed d e"
    using k unfolding r(2) by (rule well_typed_rows [rotated]) (rule typed_cancelled [OF _ r(1)])
  then show ?case using Cons.IH [OF e(2)] by (rule well_typed_trans)
qed simp

lemma well_typed_cancel_scan:
  assumes "cancel_scan i now d = Inr d'"
  shows "well_typed d d'"
proof -
  obtain d1 where d1: "cancel_each now (filter (\<lambda>t. t_scan_id t = i \<and> unfinished t) (tasks d)) d = Inr d1"
    using assms by (auto simp: cancel_scan_def bindE_eq_Inr)
  have "tasks d' = tasks d1"
    using assms d1 by (auto simp: cancel_scan_def bindE_eq_Inr Let_def set_scan_def split: option.splits)
  then show ?thesis
    using well_typed_cancel_each [OF d1] keeps_cancel_scan [OF assms] by (simp add: well_typed_def typed_def)
qed

section \<open>The handlers\<close>

lemma well_typed_beat_tasks: "well_typed d (snd (beat_tasks e now ls is d))"
proof (induction "is" arbitrary: d)
  case (Cons i "is")
  show ?case
    using Cons well_typed_trans [OF well_typed_renew Cons.IH]
    by (auto simp: Let_def split_beta split: option.split)
qed simp

lemma well_typed_heartbeat: "well_typed d (snd (heartbeat p e body now d))"
proof -
  have "well_typed d (record_heartbeat e (hb_version body) (hb_rulepack body) now d)"
    by (rule well_typed_outside) (simp add: outside_def record_heartbeat_def draws_def)
  from well_typed_trans [OF this well_typed_beat_tasks] show ?thesis by (simp add: heartbeat_def Let_def split_beta)
qed

lemma failure_reports_valid:
  "valid_coverage (Some (failure_report k CONNECTOR_ERROR))" "valid_coverage (Some (failure_report k PERMISSION_DENIED))"
  by (simp_all add: valid_coverage_def failure_report_valid coverage_reason_allowed_def)

lemma well_typed_unworkable:
  assumes "get_row t_id i (tasks d) = Some t" and "0 < t_attempts t" and "reason \<in> {CONNECTOR_ERROR, PERMISSION_DENIED}"
  shows "well_typed d (complete_task (t_id t) TASK_FAILED err (Some (failure_report (t_kind t) reason)) now d)"
proof (rule well_typed_complete [OF keeps_unworkable [OF assms(1,2)]])
  show "valid_coverage (Some (failure_report (t_kind t) reason))" using assms(3) failure_reports_valid by auto
qed simp

lemma well_typed_fail_lease:
  assumes "get_row t_id i (tasks d) = Some t" and "0 < t_attempts t" and "reason \<in> {CONNECTOR_ERROR, PERMISSION_DENIED}"
  shows "well_typed d (snd (fail_lease ps t err reason msg now d))"
  using well_typed_unworkable [OF assms, of "Some (cps err)" now] well_typed_trans [OF _ well_typed_finalize]
  by (auto simp: fail_lease_def Let_def split: sum.split)

lemma well_typed_lease_claimed:
  assumes "get_row t_id i (tasks d) = Some t" and "0 < t_attempts t"
  shows "well_typed d (snd (lease_claimed ps store settings t x now d))"
  unfolding lease_claimed_def lease_granted_def Let_def
  by (simp add: well_typed_fail_lease [OF assms] well_typed_discard split: option.split sum.split)

lemma TaskCoverageReport_valid: "TaskCoverageReport x = Inr r \<Longrightarrow> valid_report r"
  by (auto simp: TaskCoverageReport_def split: if_splits)

lemma merge_task_report_valid:
  assumes "merge_task_report old delta = Inr r" and "valid_report delta"
  shows "valid_report r"
proof (cases old)
  case None
  then show ?thesis using assms by (simp add: merge_task_report_def)
next
  case (Some q)
  then have "\<exists>x. TaskCoverageReport x = Inr r" using assms(1) unfolding merge_task_report_def Let_def by (auto split: if_splits)
  then show ?thesis using TaskCoverageReport_valid by blast
qed

lemma well_typed_merge_batch:
  assumes "merge_batch_coverage i cov d = Inr d'" and "valid_coverage cov"
  shows "well_typed d d'"
proof (cases "cov = None \<or> get_row t_id i (tasks d) = None")
  case True
  then show ?thesis using assms(1) by (auto simp: merge_batch_coverage_def split: option.splits)
next
  case False
  then obtain delta t where dt: "cov = Some delta" "get_row t_id i (tasks d) = Some t" by auto
  then obtain r where r: "merge_task_report (stored_task_report (t_kind t) (t_coverage t)) delta = Inr r"
      "tasks d' = update_where (\<lambda>x. t_id x = i) (\<lambda>x. x\<lparr>t_coverage := Stored r\<rparr>) (tasks d)"
    using assms(1) by (auto simp: merge_batch_coverage_def bindE_eq_Inr)
  have "valid_report r" using merge_task_report_valid [OF r(1)] assms(2) dt(1) by (simp add: valid_coverage_def)
  then show ?thesis
    by (intro well_typed_update [OF keeps_merge_batch_coverage [OF assms(1)] r(2)]) (simp add: typed_task_def typed_coverage_def)
qed

lemma well_typed_tally: "well_typed d (tally_scan i out counts v now d)"
  by (rule well_typed_frame [OF keeps_tally_scan]) (simp add: tally_scan_def)

lemma well_typed_progress:
  assumes "valid_coverage (ps_coverage body)"
  shows "well_typed d (snd (submit_progress cf store settings i body e now d))"
proof -
  have b: "well_typed d1 d2" if s: "batch_stored cf store settings i s body now d1 = Inr (out, d2)" for s d1 out d2
  proof -
    obtain e1 e2 where "store_findings cf store settings s (ps_findings body) now d1 = Inr (out, e1)"
        and "merge_batch_coverage i (ps_coverage body) e1 = Inr e2"
        and d2: "d2 = tally_scan (s_id s) out (ps_counts body) (ps_rulepack_version body) now e2"
      using s by (auto simp: batch_stored_def bindE_eq_Inr)
    then have "well_typed d1 e2"
      using outside_store_findings well_typed_outside well_typed_merge_batch assms well_typed_trans by blast
    then show ?thesis unfolding d2 using well_typed_tally by (rule well_typed_trans)
  qed
  have "well_typed d d2" if "advance_checkpoint t n ck ctx now d = (True, d1)" "get_row t_id i (tasks d) = Some t"
      "t_kind t = FETCH" "batch_stored cf store settings i s body now d1 = Inr (out, d2)" for t n ck ctx d1 s out d2
    using well_typed_advance [OF that(2,3), of n ck ctx now] that(1) b [OF that(4)] well_typed_trans by auto
  then show ?thesis
    unfolding submit_progress_def
    by (auto simp: Let_def split: option.splits sum.splits prod.splits)
qed

lemma merged_coverage_valid:
  assumes "merged_coverage body t = Inr cov" and "valid_coverage (rs_coverage body)"
  shows "valid_coverage cov"
  using assms merge_task_report_valid
  by (auto simp: merged_coverage_def bindE_eq_Inr valid_coverage_def stored_task_report_def validated_report_Some
      split: option.splits if_splits)

lemma well_typed_record:
  assumes "record_results cf store settings s t body now d = Inr (ids, out, d')" and "plane_ok d"
    and "still_leased (t_id t) d" and "rs_status body \<in> set REPORTABLE_STATUSES" and "valid_coverage (rs_coverage body)"
  shows "well_typed d d'"
proof -
  obtain cov d1 where cov: "merged_coverage body t = Inr cov"
      and d1: "results_work cf store settings s t body now d = Inr (ids, out, d1)"
      and d': "d' = complete_task (t_id t) (fst (effective_outcome body (rs_counts body) cov))
        (snd (effective_outcome body (rs_counts body) cov)) cov now
        (hold_proposal (t_id t) (rs_cursor body) (tally_scan (s_id s) out (rs_counts body) (rs_rulepack_version body) now d1))"
    using assms(1) by (auto simp: record_results_def bindE_eq_Inr Let_def split_beta)
  let ?d2 = "tally_scan (s_id s) out (rs_counts body) (rs_rulepack_version body) now d1"
  let ?d3 = "hold_proposal (t_id t) (rs_cursor body) ?d2"
  note w = results_work_keeps [OF d1 assms(2,3)]
  have work: "well_typed d d1"
  proof (cases "t_kind t = DISCOVERY")
    case True
    then show ?thesis using d1 well_typed_create_fetch [of d "s_id s" "rs_task_specs body" now]
      by (auto simp: results_work_def split: prod.splits)
  next
    case False
    then show ?thesis using d1 outside_store_findings well_typed_outside by (auto simp: results_work_def bindE_eq_Inr)
  qed
  have hold: "well_typed ?d2 ?d3"
  proof (cases "rs_cursor body")
    case (Some c)
    then show ?thesis
      using keeps_hold_proposal [of ?d2 "t_id t" "rs_cursor body"]
      by (auto simp: hold_proposal_def typed_task_def intro!: well_typed_rows)
  qed (simp add: hold_proposal_def)
  have d3: "well_typed d ?d3" by (rule well_typed_trans [OF well_typed_trans [OF work well_typed_tally] hold])
  have l3: "still_leased (t_id t) ?d3"
    using w(2) by (auto simp: still_leased_def hold_proposal_def tally_scan_def set_update_where ids_drawn_def split: option.split if_splits)
  have st: "fst (effective_outcome body (rs_counts body) cov) \<in> {TASK_COMPLETED, TASK_FAILED}"
    by (rule effective_outcome_reportable [OF assms(4)])
  have "keeps ?d3 d'" unfolding d' by (rule keeps_complete_task [OF _ st]) (use l3 in \<open>simp add: still_leased_def\<close>)
  from well_typed_complete [OF this [unfolded d'] st merged_coverage_valid [OF cov assms(5)]] show ?thesis
    unfolding d' using d3 well_typed_trans by blast
qed

lemma well_typed_results:
  assumes "valid_coverage (rs_coverage body)"
  shows "well_typed d (snd (submit_results acc cf ps store settings i body e now d))"
proof (cases "plane_ok d")
  case True
  obtain r d' where r: "submit_results acc cf ps store settings i body e now d = (r, d')" by fastforce
  from r have "well_typed d d'"
  proof (cases rule: submit_results_cases)
    case (replayed t)
    then show ?thesis using replay_outcome [OF replayed(3)] well_typed_finalize by (auto split: sum.splits)
  next
    case (claimed t s d1)
    note h = claim_result_held [OF claimed(5) True]
    note rep = results_refusal_reportable [OF claimed(3)]
    have c: "well_typed d d1" using well_typed_claim_result [of d t "rs_idempotency_key body" now] claimed(5) by simp
    from claimed(6) h(2,1) rep show ?thesis
    proof (cases rule: recorded_from_claim)
      case (recorded ids out d2)
      have "well_typed d1 d2" by (rule well_typed_record [OF recorded(1) h(2,1) rep assms])
      then have "well_typed d1 d'" using recorded(2,3) by (simp add: well_typed_def typed_def)
      with c show ?thesis by (rule well_typed_trans)
    qed simp
  qed simp
  then show ?thesis by (simp add: r)
next
  case False
  then show ?thesis using keeps_submit_results by (simp add: well_typed_def)
qed

lemma register_tasks: "tasks (snd (register_engine h token admin body now d)) = tasks d"
  by (simp add: register_engine_def Let_def new_id_def audit_record_def split: option.split)

lemma mark_stale_tasks: "tasks (snd (mark_stale_engines_offline n now d)) = tasks d"
  using mark_all_outside [of "([], d)"] by (simp add: mark_stale_engines_offline_def Let_def outside_def)

lemma well_typed_recorded:
  assumes "results_refusal body t = None" and "valid_coverage (rs_coverage body)"
    and "claim_result t (rs_idempotency_key body) now d = (True, d1)"
    and "record_results cf store settings s t body now d1 = Inr (ids, out, d')"
  shows "well_typed d d'"
proof (cases "plane_ok d")
  case True
  note h = claim_result_held [OF assms(3) True]
  have "well_typed d d1" using well_typed_claim_result [of d t "rs_idempotency_key body" now] assms(3) by simp
  then show ?thesis
    using well_typed_record [OF assms(4) h(2,1) results_refusal_reportable [OF assms(1)] assms(2)] by (rule well_typed_trans)
next
  case False
  then show ?thesis using keeps_recorded [OF assms(1,3,4)] by (simp add: well_typed_def)
qed

lemma well_typed_alive: "well_typed d (record_heartbeat e v r now d)"
  by (rule well_typed_frame [OF keeps_record_heartbeat]) (simp add: record_heartbeat_def)

lemma well_typed_dispatch: "well_typed d (broker_enqueue acc i d)"
  by (rule well_typed_frame [OF keeps_dispatch]) (simp add: broker_enqueue_def)

lemmas handlers_well_typed = well_typed_launch well_typed_frame [OF keeps_register register_tasks] well_typed_heartbeat
  well_typed_progress well_typed_results well_typed_cancel_scan well_typed_reclaim well_typed_redispatch
  well_typed_frame [OF keeps_mark_stale mark_stale_tasks] well_typed_claim well_typed_alive well_typed_renew
  well_typed_dispatch well_typed_finalize

lemma control_step_well_typed: "control_step d d' \<Longrightarrow> well_typed d d'"
proof (induction rule: control_step.induct)
  case (settle py_str now d ids d')
  then show ?case using well_typed_finalize_each [of py_str now _ "([], d)" "(ids, d')"] by (simp add: finalize_stalled_scans_def)
next
  case (answer task d t py_str store settings expires now)
  then show ?case by (rule well_typed_lease_claimed)
next
  case (unworkable task d t reason error now)
  then show ?case by (rule well_typed_unworkable)
next
  case (recorded task d t body now d1 cf store settings s ids out d')
  then show ?case by (intro well_typed_recorded)
qed (rule handlers_well_typed, assumption?)+

section \<open>Property\<close>

text \<open>
  C34.  Task rows are well typed in every state the control plane can reach: whatever requests and
  sweeps have run, a leased task names its engine, has a deadline, so that the reclaim sweep can
  return it, and counts at least one lease; a queued task has neither engine nor deadline; a finished
  one has its finishing time and no deadline (it keeps the engine that held it last); a discovery task
  has flushed no batch; and every stored coverage report satisfies its schema.
\<close>

theorem task_rows_stay_well_typed:
  assumes "control_step\<^sup>*\<^sup>* d d'" and "plane_ok d" and "typed d"
  shows "typed d'"
  using assms
proof (induction rule: rtranclp_induct)
  case (step m n)
  then show ?case using control_step_well_typed [OF step(2)] plane.run_ok [OF step(1)] by (simp add: well_typed_def)
qed

theorem task_rows_stay_well_typed_witness:
  "control_step\<^sup>*\<^sup>* demo_idle demo_leased \<and> tasks demo_leased \<noteq> [] \<and>
   list_all (\<lambda>t. t_status t = TASK_LEASED \<and> t_lease_expires_at t \<noteq> None) (tasks demo_leased)"
proof -
  have "typed demo_idle" by (simp add: typed_def demo_idle_def)
  from task_rows_stay_well_typed [OF demo_run demo_idle_ok this] have "typed demo_leased" .
  moreover have "tasks demo_leased \<noteq> []" "list_all (\<lambda>t. t_status t = TASK_LEASED) (tasks demo_leased)" by code_simp+
  ultimately show ?thesis using demo_run by (auto simp: typed_def list_all_iff typed_task_def LEASED_STATUSES_def)
qed

end
