(* ===== verification/Rule_Packs.thy ===== *)
theory Rule_Packs
  imports Reconcile
begin

text \<open>
  The static check that keeps exponential patterns out of rule packs, of
  \<^verbatim>\<open>packages/detect/src/iceberg_detect/rules.py\<close>, and what it decides on the patterns of a small grammar.
  A pattern is its list of code points; an index-driven \<open>while\<close> loop is a recursion on the index.
\<close>

section \<open>Reading the pattern\<close>

function class_end :: "pystr \<Rightarrow> nat \<Rightarrow> nat" where
  "class_end p i = (if i < length p \<and> p ! i \<noteq> 93 then class_end p (i + (if p ! i = 92 then 2 else 1)) else i)"
  by auto
termination by (relation "measure (\<lambda>(p, i). length p - i)") auto

declare class_end.simps [simp del]

definition skip_character_class :: "pystr \<Rightarrow> nat \<Rightarrow> nat" where
  "skip_character_class p i =
     (let i1 = i + 1;
          i2 = (if i1 < length p \<and> p ! i1 = 94 then i1 + 1 else i1);
          i3 = (if i2 < length p \<and> p ! i2 = 93 then i2 + 1 else i2)
      in class_end p i3 + 1)"

lemma class_end_ge: "i \<le> class_end p i"
proof (induction p i rule: class_end.induct)
  case (1 p i)
  then show ?case by (subst class_end.simps) (auto dest: add_leD1)
qed

lemma skip_character_class_gt: "i < skip_character_class p i"
  using class_end_ge [of "i + 1" p] class_end_ge [of "i + 2" p] class_end_ge [of "i + 3" p]
  by (auto simp: skip_character_class_def Let_def eval_nat_numeral)

function scan_from :: "pystr \<Rightarrow> nat \<Rightarrow> (nat \<times> int) list" where
  "scan_from p i =
     (if i < length p
      then (if p ! i = 92 then scan_from p (i + 2)
            else if p ! i = 91 then scan_from p (skip_character_class p i)
            else (i, p ! i) # scan_from p (i + 1))
      else [])"
  by auto
termination
  by (relation "measure (\<lambda>(p, i). length p - i)") (auto simp: skip_character_class_gt diff_less_mono2)

declare scan_from.simps [simp del]

definition scan_pattern :: "pystr \<Rightarrow> (nat \<times> int) list" where
  "scan_pattern p = scan_from p 0"

text \<open>Opening brackets wait on a stack; a closing one without a partner is passed over.\<close>

fun group_step :: "nat \<times> int \<Rightarrow> nat list \<times> (nat \<times> nat) list \<Rightarrow> nat list \<times> (nat \<times> nat) list" where
  "group_step (i, c) (stack, spans) =
     (if c = 40 then (i # stack, spans)
      else if c = 41 then (case stack of [] \<Rightarrow> (stack, spans) | j # st \<Rightarrow> (st, spans @ [(j, i)]))
      else (stack, spans))"

definition group_spans :: "pystr \<Rightarrow> (nat \<times> nat) list" where
  "group_spans p = snd (fold group_step (scan_pattern p) ([], []))"

fun own_alternation :: "nat \<Rightarrow> nat \<Rightarrow> int \<Rightarrow> (nat \<times> int) list \<Rightarrow> bool" where
  "own_alternation a b depth [] = False"
| "own_alternation a b depth ((i, c) # cs) =
     (if \<not> (a < i \<and> i < b) then own_alternation a b depth cs
      else if c = 40 then own_alternation a b (depth + 1) cs
      else if c = 41 then own_alternation a b (depth - 1) cs
      else if c = 124 \<and> depth = 0 then True
      else own_alternation a b depth cs)"

definition has_own_alternation :: "pystr \<Rightarrow> nat \<Rightarrow> nat \<Rightarrow> bool" where
  "has_own_alternation p a b = own_alternation a b 0 (scan_pattern p)"

definition is_variable_repetition :: "pystr \<Rightarrow> bool" where
  "is_variable_repetition spec =
     (if 44 \<notin> set spec then False
      else
        let low = takeWhile (\<lambda>c. c \<noteq> 44) spec;
            high = drop (length low + 1) spec
        in if py_strip high = [] then True
           else
             (case (if py_strip low = [] then Some 0 else int_of_text (py_strip low), int_of_text high) of
                (Some a, Some b) \<Rightarrow> a \<noteq> b
              | _ \<Rightarrow> False))"

definition find_char :: "int \<Rightarrow> pystr \<Rightarrow> nat \<Rightarrow> nat option" where
  "find_char c p i = List.find (\<lambda>j. p ! j = c) [i..<length p]"

definition variable_at :: "pystr \<Rightarrow> nat \<times> int \<Rightarrow> bool" where
  "variable_at p ic =
     (case ic of (i, c) \<Rightarrow>
        if c = 42 \<or> c = 43 then True
        else if c = 123
        then (case find_char 125 p i of None \<Rightarrow> False | Some j \<Rightarrow> is_variable_repetition (slice p (i + 1) j))
        else False)"

definition unbounded_quantifier_positions :: "pystr \<Rightarrow> nat list" where
  "unbounded_quantifier_positions p = map fst (filter (variable_at p) (scan_pattern p))"

definition followed_by_unbounded :: "pystr \<Rightarrow> nat \<Rightarrow> bool" where
  "followed_by_unbounded p i =
     (let tail = slice p (i + 1) (i + 2) in
      if tail = [42] \<or> tail = [43] then True
      else if tail = [123]
      then (case find_char 125 p i of None \<Rightarrow> False | Some j \<Rightarrow> is_variable_repetition (slice p (i + 2) j))
      else False)"

section \<open>The verdict\<close>

datatype backtracking = NestedQuantifier nat | RepeatedAlternation nat

fun check_groups :: "pystr \<Rightarrow> nat list \<Rightarrow> (nat \<times> nat) list \<Rightarrow> backtracking + unit" where
  "check_groups p unbounded [] = Inr ()"
| "check_groups p unbounded ((a, b) # spans) =
     (if \<not> followed_by_unbounded p b then check_groups p unbounded spans
      else if list_ex (\<lambda>i. a < i \<and> i < b) unbounded then Inl (NestedQuantifier a)
      else if has_own_alternation p a b then Inl (RepeatedAlternation a)
      else check_groups p unbounded spans)"

definition assert_no_catastrophic_backtracking :: "pystr \<Rightarrow> backtracking + unit" where
  "assert_no_catastrophic_backtracking p = check_groups p (unbounded_quantifier_positions p) (group_spans p)"

section \<open>A grammar of patterns\<close>

text \<open>
  Literals, groups, sequence, alternation, and the two unbounded quantifiers on a literal or a
  group; \<open>rx_print\<close> is the concrete syntax.
\<close>

datatype rx = Emp | Lit int | RepLit int int | Seq rx rx | Alt rx rx | Grp rx | RepGrp rx int

fun rx_print :: "rx \<Rightarrow> pystr" where
  "rx_print Emp = []"
| "rx_print (Lit c) = [c]"
| "rx_print (RepLit c q) = [c, q]"
| "rx_print (Seq a b) = rx_print a @ rx_print b"
| "rx_print (Alt a b) = rx_print a @ 124 # rx_print b"
| "rx_print (Grp a) = 40 # rx_print a @ [41]"
| "rx_print (RepGrp a q) = 40 # rx_print a @ [41, q]"

definition structural :: "int set" where
  "structural = {92, 91, 40, 41, 124, 42, 43, 123}"

definition quantifiers :: "int set" where
  "quantifiers = {42, 43}"

fun rx_ok :: "rx \<Rightarrow> bool" where
  "rx_ok Emp = True"
| "rx_ok (Lit c) = (c \<notin> structural)"
| "rx_ok (RepLit c q) = (c \<notin> structural \<and> q \<in> quantifiers)"
| "rx_ok (Seq a b) = (rx_ok a \<and> rx_ok b)"
| "rx_ok (Alt a b) = (rx_ok a \<and> rx_ok b)"
| "rx_ok (Grp a) = rx_ok a"
| "rx_ok (RepGrp a q) = (rx_ok a \<and> q \<in> quantifiers)"

text \<open>A quantifier somewhere inside, an alternation at the top level, and what the check is for.\<close>

fun repeats :: "rx \<Rightarrow> bool" where
  "repeats (RepLit c q) = True"
| "repeats (RepGrp a q) = True"
| "repeats (Seq a b) = (repeats a \<or> repeats b)"
| "repeats (Alt a b) = (repeats a \<or> repeats b)"
| "repeats (Grp a) = repeats a"
| "repeats _ = False"

fun alternates :: "rx \<Rightarrow> bool" where
  "alternates (Alt a b) = True"
| "alternates (Seq a b) = (alternates a \<or> alternates b)"
| "alternates _ = False"

fun ambiguous :: "rx \<Rightarrow> bool" where
  "ambiguous (RepGrp a q) = (repeats a \<or> alternates a \<or> ambiguous a)"
| "ambiguous (Grp a) = ambiguous a"
| "ambiguous (Seq a b) = (ambiguous a \<or> ambiguous b)"
| "ambiguous (Alt a b) = (ambiguous a \<or> ambiguous b)"
| "ambiguous _ = False"

section \<open>The scan of a printed pattern\<close>

lemma print_plain: "rx_ok r \<Longrightarrow> c \<in> set (rx_print r) \<Longrightarrow> c \<noteq> 92 \<and> c \<noteq> 91 \<and> c \<noteq> 123"
  by (induction r) (auto simp: structural_def quantifiers_def)

lemma print_quantifier: "rx_ok r \<Longrightarrow> (\<exists>c \<in> set (rx_print r). c \<in> quantifiers) \<longleftrightarrow> repeats r"
  by (induction r) (auto simp: structural_def quantifiers_def)


lemma scan_from_plain:
  "\<forall>c \<in> set p. c \<noteq> 92 \<and> c \<noteq> 91 \<Longrightarrow> scan_from p i = List.enumerate i (drop i p)"
proof (induction p i rule: scan_from.induct)
  case (1 p i)
  show ?case
  proof (cases "i < length p")
    case True
    then have "p ! i \<noteq> 92" "p ! i \<noteq> 91" using 1(4) by auto
    then show ?thesis using 1(3) [OF True] 1(4) True by (subst scan_from.simps) (simp flip: Cons_nth_drop_Suc)
  next
    case False
    then show ?thesis by (subst scan_from.simps) simp
  qed
qed

lemma scan_print: "rx_ok r \<Longrightarrow> scan_pattern (rx_print r) = List.enumerate 0 (rx_print r)"
  using scan_from_plain [of "rx_print r" 0] print_plain [of r] by (simp add: scan_pattern_def)

lemma variable_at_plain: "c \<noteq> 123 \<Longrightarrow> variable_at p (i, c) \<longleftrightarrow> c \<in> quantifiers"
  by (simp add: variable_at_def quantifiers_def)

lemma quantifier_positions_print:
  assumes "rx_ok r"
  shows "set (unbounded_quantifier_positions (rx_print r)) = {i. i < length (rx_print r) \<and> rx_print r ! i \<in> quantifiers}"
proof -
  have "rx_print r ! i \<noteq> 123" if "i < length (rx_print r)" for i using print_plain [OF assms] that by simp
  then show ?thesis
    by (auto simp: unbounded_quantifier_positions_def scan_print [OF assms] variable_at_plain in_set_enumerate_eq image_iff)
qed

section \<open>The groups of a printed pattern\<close>

text \<open>Where a group opens, its body, and the quantifier on it.\<close>

fun groups :: "rx \<Rightarrow> nat \<Rightarrow> (nat \<times> rx \<times> int option) list" where
  "groups (Seq a b) k = groups a k @ groups b (k + length (rx_print a))"
| "groups (Alt a b) k = groups a k @ groups b (k + length (rx_print a) + 1)"
| "groups (Grp a) k = groups a (k + 1) @ [(k, a, None)]"
| "groups (RepGrp a q) k = groups a (k + 1) @ [(k, a, Some q)]"
| "groups _ k = []"

definition span_of :: "nat \<times> rx \<times> int option \<Rightarrow> nat \<times> nat" where
  "span_of g = (case g of (k, a, _) \<Rightarrow> (k, k + 1 + length (rx_print a)))"

lemma fold_group_step:
  "rx_ok r \<Longrightarrow> fold group_step (List.enumerate k (rx_print r)) (st, sp) = (st, sp @ map span_of (groups r k))"
proof (induction r arbitrary: k st sp)
  case (Lit c)
  then show ?case by (simp add: structural_def)
next
  case (RepLit c q)
  then show ?case by (auto simp: structural_def quantifiers_def)
next
  case (RepGrp a q)
  then show ?case by (auto simp: enumerate_append_eq span_of_def quantifiers_def)
qed (simp_all add: enumerate_append_eq span_of_def)

lemma group_spans_print: "rx_ok r \<Longrightarrow> group_spans (rx_print r) = map span_of (groups r 0)"
  by (simp add: group_spans_def scan_print fold_group_step)

lemma groups_ambiguous:
  "ambiguous r \<longleftrightarrow> (\<exists>(k', a, q) \<in> set (groups r k). q \<noteq> None \<and> (repeats a \<or> alternates a))"
  by (induction r arbitrary: k) (force simp: bex_Un)+

lemma print_hd: "rx_ok r \<Longrightarrow> rx_print r \<noteq> [] \<Longrightarrow> hd (rx_print r) \<notin> insert 123 quantifiers"
  by (induction r) (auto simp: structural_def quantifiers_def hd_append)

text \<open>A group as it stands in the whole pattern.\<close>

lemma groups_in_context:
  assumes "rx_ok r" and "(k, a, q) \<in> set (groups r (length pre))" and "w = pre @ rx_print r @ post"
    and "post = [] \<or> hd post \<notin> insert 123 quantifiers"
  shows "rx_ok a \<and> (\<exists>pre' post'. w = pre' @ 40 # rx_print a @ 41 # post' \<and> length pre' = k \<and>
    (case q of Some c \<Rightarrow> c \<in> quantifiers \<and> (\<exists>ps. post' = c # ps) | None \<Rightarrow> post' = [] \<or> hd post' \<notin> insert 123 quantifiers))"
  using assms
proof (induction r arbitrary: pre post)
  case (Seq r1 r2)
  have h: "rx_print r2 @ post = [] \<or> hd (rx_print r2 @ post) \<notin> insert 123 quantifiers"
    using print_hd [of r2] Seq.prems(1,4) by (cases "rx_print r2 = []") auto
  show ?case
  proof (cases "(k, a, q) \<in> set (groups r1 (length pre))")
    case True
    then show ?thesis using Seq.IH(1) [of pre "rx_print r2 @ post"] Seq.prems h by simp
  next
    case False
    then show ?thesis using Seq.IH(2) [of "pre @ rx_print r1" post] Seq.prems by simp
  qed
next
  case (Alt r1 r2)
  show ?case
  proof (cases "(k, a, q) \<in> set (groups r1 (length pre))")
    case True
    then show ?thesis using Alt.IH(1) [of pre "124 # rx_print r2 @ post"] Alt.prems by (simp add: quantifiers_def)
  next
    case False
    then show ?thesis using Alt.IH(2) [of "pre @ rx_print r1 @ [124]" post] Alt.prems by simp
  qed
next
  case (Grp r)
  show ?case
  proof (cases "(k, a, q) \<in> set (groups r (length (pre @ [40])))")
    case True
    then show ?thesis using Grp.IH [of "pre @ [40]" "41 # post"] Grp.prems by (simp add: quantifiers_def)
  next
    case False
    then have e: "k = length pre" "a = r" "q = None" using Grp.prems(2) by auto
    show ?thesis unfolding e
      by (intro conjI exI [of _ pre] exI [of _ post]) (use Grp.prems in auto)
  qed
next
  case (RepGrp r c)
  show ?case
  proof (cases "(k, a, q) \<in> set (groups r (length (pre @ [40])))")
    case True
    then show ?thesis using RepGrp.IH [of "pre @ [40]" "41 # c # post"] RepGrp.prems by (simp add: quantifiers_def)
  next
    case False
    then have e: "k = length pre" "a = r" "q = Some c" using RepGrp.prems(2) by auto
    show ?thesis unfolding e
      by (intro conjI exI [of _ pre] exI [of _ "c # post"]) (use RepGrp.prems in auto)
  qed
qed simp_all

section \<open>The verdict on a printed pattern\<close>

lemma own_alternation_outside:
  "\<forall>i \<in> set (map fst xs). \<not> (a < i \<and> i < b) \<Longrightarrow> own_alternation a b depth (xs @ rest) = own_alternation a b depth rest"
  by (induction xs) (auto split: prod.splits)

lemma own_alternation_body:
  "rx_ok r \<Longrightarrow> a < k \<Longrightarrow> k + length (rx_print r) \<le> b \<Longrightarrow> 0 \<le> depth \<Longrightarrow>
   own_alternation a b depth (List.enumerate k (rx_print r) @ rest) \<longleftrightarrow>
     depth = 0 \<and> alternates r \<or> own_alternation a b depth rest"
proof (induction r arbitrary: k depth rest)
  case (Seq r1 r2)
  then show ?case by (simp add: enumerate_append_eq) blast
next
  case (Alt r1 r2)
  have "own_alternation a b depth (List.enumerate k (rx_print (Alt r1 r2)) @ rest) \<longleftrightarrow>
      depth = 0 \<and> alternates r1 \<or> own_alternation a b depth ((k + length (rx_print r1), 124) #
        List.enumerate (Suc (k + length (rx_print r1))) (rx_print r2) @ rest)"
    using Alt.IH(1) [of k depth] Alt.prems by (simp add: enumerate_append_eq)
  moreover have "own_alternation a b depth (List.enumerate (Suc (k + length (rx_print r1))) (rx_print r2) @ rest) \<longleftrightarrow>
      depth = 0 \<and> alternates r2 \<or> own_alternation a b depth rest"
    using Alt.IH(2) [of "Suc (k + length (rx_print r1))" depth rest] Alt.prems by simp
  ultimately show ?case using Alt.prems by simp
next
  case (Grp r)
  then show ?case by (simp add: enumerate_append_eq)
next
  case (RepGrp r q)
  then show ?case by (auto simp: enumerate_append_eq quantifiers_def)
qed (auto simp: structural_def quantifiers_def)

lemma group_alternation:
  assumes "rx_ok r" and "rx_print r = pre @ 40 # rx_print a @ 41 # post" and "rx_ok a"
  shows "has_own_alternation (rx_print r) (length pre) (length pre + 1 + length (rx_print a)) \<longleftrightarrow> alternates a"
proof -
  let ?k = "length pre" and ?b = "length pre + 1 + length (rx_print a)"
  have "scan_pattern (rx_print r) = List.enumerate 0 (pre @ [40]) @ List.enumerate (?k + 1) (rx_print a) @ List.enumerate ?b (41 # post)"
    using scan_print [OF assms(1)] unfolding assms(2) by (simp add: enumerate_append_eq)
  moreover have "own_alternation ?k ?b 0 (List.enumerate ?b (41 # post)) = False"
  proof -
    have "\<forall>i \<in> set (map fst (List.enumerate ?b (41 # post))). \<not> (?k < i \<and> i < ?b)"
      by (auto simp del: enumerate_simps)
    from own_alternation_outside [OF this, of 0 "[]"] show ?thesis by simp
  qed
  ultimately show ?thesis
    unfolding has_own_alternation_def
    using own_alternation_outside [of "List.enumerate 0 (pre @ [40])" ?k ?b 0] own_alternation_body [OF assms(3), of ?k "?k + 1" ?b 0]
    by (auto simp del: enumerate_simps)
qed

lemma group_quantifier:
  assumes "rx_ok r" and "rx_print r = pre @ 40 # rx_print a @ 41 # post" and "rx_ok a"
  shows "list_ex (\<lambda>i. length pre < i \<and> i < length pre + 1 + length (rx_print a)) (unbounded_quantifier_positions (rx_print r)) \<longleftrightarrow> repeats a"
proof -
  have nth: "rx_print r ! (length pre + 1 + j) = rx_print a ! j" if "j < length (rx_print a)" for j
    unfolding assms(2) using that by (simp add: nth_append)
  have "(\<exists>i. length pre < i \<and> i < length pre + 1 + length (rx_print a) \<and> rx_print r ! i \<in> quantifiers) \<longleftrightarrow>
      (\<exists>j < length (rx_print a). rx_print a ! j \<in> quantifiers)"
  proof
    assume "\<exists>i. length pre < i \<and> i < length pre + 1 + length (rx_print a) \<and> rx_print r ! i \<in> quantifiers"
    then obtain i where i: "length pre < i" "i < length pre + 1 + length (rx_print a)" "rx_print r ! i \<in> quantifiers" by blast
    then show "\<exists>j < length (rx_print a). rx_print a ! j \<in> quantifiers"
      using nth [of "i - length pre - 1"] by (intro exI [of _ "i - length pre - 1"]) auto
  next
    assume "\<exists>j < length (rx_print a). rx_print a ! j \<in> quantifiers"
    then obtain j where "j < length (rx_print a)" "rx_print a ! j \<in> quantifiers" by blast
    then show "\<exists>i. length pre < i \<and> i < length pre + 1 + length (rx_print a) \<and> rx_print r ! i \<in> quantifiers"
      using nth [of j] by (intro exI [of _ "length pre + 1 + j"]) auto
  qed
  also have "\<dots> \<longleftrightarrow> repeats a" unfolding print_quantifier [OF assms(3), symmetric] by (metis in_set_conv_nth)
  finally show ?thesis
    using quantifier_positions_print [OF assms(1)] by (auto simp: list_ex_iff assms(2))
qed

lemma group_followed:
  assumes "rx_print r = pre @ 40 # rx_print a @ 41 # post"
    and "case q of Some c \<Rightarrow> c \<in> quantifiers \<and> (\<exists>ps. post = c # ps) | None \<Rightarrow> post = [] \<or> hd post \<notin> insert 123 quantifiers"
  shows "followed_by_unbounded (rx_print r) (length pre + 1 + length (rx_print a)) \<longleftrightarrow> q \<noteq> None"
proof -
  have "slice (rx_print r) (length pre + 1 + length (rx_print a) + 1) (length pre + 1 + length (rx_print a) + 2) = take 1 post"
    unfolding assms(1) by (simp add: slice_def)
  then show ?thesis using assms(2) by (cases post) (auto simp: followed_by_unbounded_def quantifiers_def split: option.splits)
qed

lemma check_groups_Inr:
  "check_groups p us spans = Inr () \<longleftrightarrow>
     (\<forall>(a, b) \<in> set spans. followed_by_unbounded p b \<longrightarrow> \<not> list_ex (\<lambda>i. a < i \<and> i < b) us \<and> \<not> has_own_alternation p a b)"
  by (induction p us spans rule: check_groups.induct) auto

text \<open>
  C36.  On the patterns of the grammar the check decides exactly what it is for: it refuses a pattern
  if and only if some group under an unbounded quantifier contains an unbounded quantifier at any
  depth or an alternation of its own.
\<close>

theorem backtracking_check_is_exact:
  assumes "rx_ok r"
  shows "assert_no_catastrophic_backtracking (rx_print r) = Inr () \<longleftrightarrow> \<not> ambiguous r"
proof -
  have g: "followed_by_unbounded (rx_print r) (snd (span_of (k, a, q))) \<longleftrightarrow> q \<noteq> None"
      "list_ex (\<lambda>i. fst (span_of (k, a, q)) < i \<and> i < snd (span_of (k, a, q))) (unbounded_quantifier_positions (rx_print r)) \<longleftrightarrow> repeats a"
      "has_own_alternation (rx_print r) (fst (span_of (k, a, q))) (snd (span_of (k, a, q))) \<longleftrightarrow> alternates a"
    if kaq: "(k, a, q) \<in> set (groups r 0)" for k a q
  proof -
    obtain pre post where c: "rx_ok a" "rx_print r = pre @ 40 # rx_print a @ 41 # post" "length pre = k"
        "case q of Some c \<Rightarrow> c \<in> quantifiers \<and> (\<exists>ps. post = c # ps) | None \<Rightarrow> post = [] \<or> hd post \<notin> insert 123 quantifiers"
      using groups_in_context [OF assms, of k a q "[]" "rx_print r" "[]"] kaq by (simp del: insert_iff) blast
    show "followed_by_unbounded (rx_print r) (snd (span_of (k, a, q))) \<longleftrightarrow> q \<noteq> None"
      using group_followed [OF c(2,4)] c(3) by (simp add: span_of_def)
    show "list_ex (\<lambda>i. fst (span_of (k, a, q)) < i \<and> i < snd (span_of (k, a, q))) (unbounded_quantifier_positions (rx_print r)) \<longleftrightarrow> repeats a"
      using group_quantifier [OF assms c(2,1)] c(3) by (simp add: span_of_def)
    show "has_own_alternation (rx_print r) (fst (span_of (k, a, q))) (snd (span_of (k, a, q))) \<longleftrightarrow> alternates a"
      using group_alternation [OF assms c(2,1)] c(3) by (simp add: span_of_def)
  qed
  let ?ok = "\<lambda>(a, b). followed_by_unbounded (rx_print r) b \<longrightarrow>
    \<not> list_ex (\<lambda>i. a < i \<and> i < b) (unbounded_quantifier_positions (rx_print r)) \<and> \<not> has_own_alternation (rx_print r) a b"
  have one: "?ok (span_of x) \<longleftrightarrow> \<not> (case x of (k, a, q) \<Rightarrow> q \<noteq> None \<and> (repeats a \<or> alternates a))"
    if "x \<in> set (groups r 0)" for x
    using that g [of "fst x" "fst (snd x)" "snd (snd x)"] by (auto simp add: split_beta)
  have "assert_no_catastrophic_backtracking (rx_print r) = Inr () \<longleftrightarrow> (\<forall>x \<in> set (groups r 0). ?ok (span_of x))"
    unfolding assert_no_catastrophic_backtracking_def check_groups_Inr group_spans_print [OF assms] by simp
  also have "\<dots> \<longleftrightarrow> \<not> ambiguous r"
    unfolding groups_ambiguous [of r 0] using one by simp
  finally show ?thesis .
qed

theorem backtracking_check_is_exact_witness:
  "assert_no_catastrophic_backtracking (cps ''(a+)+b'') = Inl (NestedQuantifier 0) \<and>
   assert_no_catastrophic_backtracking (cps ''(ab)+c*'') = Inr ()"
proof -
  let ?r = "Seq (RepGrp (Seq (Lit 97) (Lit 98)) 43) (RepLit 99 42)"
  have "rx_ok ?r" by (simp add: structural_def quantifiers_def)
  from backtracking_check_is_exact [OF this]
  have "assert_no_catastrophic_backtracking (rx_print ?r) = Inr ()" by simp
  moreover have "rx_print ?r = cps ''(ab)+c*''" by code_simp
  moreover have "assert_no_catastrophic_backtracking (cps ''(a+)+b'') = Inl (NestedQuantifier 0)" by code_simp
  ultimately show ?thesis by simp
qed

text \<open>
  Two families get through although they are as ambiguous: an optional item repeats zero or one
  times, and an alternation may hide one group deeper.
\<close>

lemma optional_item_is_accepted:
  "assert_no_catastrophic_backtracking (cps ''(?:aa?)+b'') = Inr () \<and>
   assert_no_catastrophic_backtracking (cps ''(?:a{1,2})+b'') = Inl (NestedQuantifier 0)"
  by code_simp

lemma hidden_alternation_is_accepted:
  "assert_no_catastrophic_backtracking (cps ''(?:(?:a|a))+b'') = Inr () \<and>
   assert_no_catastrophic_backtracking (cps ''(?:a|a)+b'') = Inl (RepeatedAlternation 0)"
  by code_simp

end
