(* ===== verification/Detection.thy ===== *)
theory Detection
  imports Complex_Main Redaction Iceberg_Enums "HOL-Library.Product_Lexorder" "HOL-Library.Multiset"
begin

text \<open>
  The detection loop, \<^verbatim>\<open>packages/detect/src/iceberg_detect/engine.py\<close>, and its signals, \<^verbatim>\<open>signals.py\<close>.
  Floats are the rationals they denote, computed exactly.  A compiled pattern is what the loop uses of
  it: \<open>ru_matches\<close> gives, for each match of \<open>finditer\<close> on a text, the span of the group that holds
  the secret, negative when that group took no part.  The binary logarithm and Unicode lower-casing
  are parameters.
\<close>

section \<open>Signals\<close>

definition ENTROPY_WEIGHT :: rat where "ENTROPY_WEIGHT = 2 / 10"
definition ENTROPY_HEADROOM :: rat where "ENTROPY_HEADROOM = 15 / 10"
definition PROXIMITY_BONUS :: rat where "PROXIMITY_BONUS = 15 / 100"
definition PROXIMITY_PENALTY :: rat where "PROXIMITY_PENALTY = 1 / 10"

record signals =
  sg_entropy :: rat
  sg_keyword_nearby :: bool
  sg_keyword :: "pystr option"

definition char_counts :: "pystr \<Rightarrow> (int \<times> nat) list" where
  "char_counts text =
     fold (\<lambda>c counts. AList.update c ((case map_of counts c of None \<Rightarrow> 0 | Some n \<Rightarrow> n) + 1) counts) text []"

definition shannon_entropy :: "(rat \<Rightarrow> rat) \<Rightarrow> pystr \<Rightarrow> rat" where
  "shannon_entropy log2 text =
     (if text = [] then 0
      else
        let n = of_nat (length text)
        in - sum_list (map (\<lambda>(_, count). (of_nat count / n) * log2 (of_nat count / n)) (char_counts text)))"

text \<open>
  \<open>(?<![a-z0-9])keyword(?![a-z0-9])\<close> at a position, and the successive matches of \<open>finditer\<close>,
  which resumes behind a match.
\<close>

definition word_char :: "int \<Rightarrow> bool" where
  "word_char c \<longleftrightarrow> (97 \<le> c \<and> c \<le> 122) \<or> (48 \<le> c \<and> c \<le> 57)"

definition boundary_at :: "pystr \<Rightarrow> pystr \<Rightarrow> nat \<Rightarrow> bool" where
  "boundary_at keyword hay i \<longleftrightarrow>
     occurs_at hay keyword i \<and>
     (i = 0 \<or> \<not> word_char (hay ! (i - 1))) \<and>
     (i + length keyword \<ge> length hay \<or> \<not> word_char (hay ! (i + length keyword)))"

fun boundary_matches :: "pystr \<Rightarrow> pystr \<Rightarrow> nat \<Rightarrow> nat list \<Rightarrow> nat list" where
  "boundary_matches keyword hay resume [] = []"
| "boundary_matches keyword hay resume (i # is) =
     (if resume \<le> i \<and> boundary_at keyword hay i
      then i # boundary_matches keyword hay (i + max 1 (length keyword)) is
      else boundary_matches keyword hay resume is)"

definition keyword_near ::
  "(pystr \<Rightarrow> pystr) \<Rightarrow> pystr \<Rightarrow> nat \<Rightarrow> nat \<Rightarrow> pystr list \<Rightarrow> nat \<Rightarrow> pystr option" where
  "keyword_near lower text start stop keywords window =
     (if keywords = [] then None
      else
        let lo = start - window;
            hi = min (length text) (stop + window);
            pad = foldr max (map length keywords) 0;
            offset = lo - pad;
            hay = lower (slice text offset (min (length text) (hi + pad)));
            window_lo = lo - offset;
            window_hi = hi - offset
        in List.find (\<lambda>k. list_ex (\<lambda>i. i < window_hi \<and> i + length k > window_lo)
             (boundary_matches k hay 0 [0..<Suc (length hay)])) keywords)"

definition confidence :: "rat \<Rightarrow> signals \<Rightarrow> rat option \<Rightarrow> bool \<Rightarrow> rat" where
  "confidence base sg entropy_min has_keywords =
     (let s1 = (case entropy_min of
                  None \<Rightarrow> base
                | Some m \<Rightarrow> base + ENTROPY_WEIGHT * min 1 (max 0 (sg_entropy sg - m) / ENTROPY_HEADROOM));
          s2 = (if has_keywords then s1 + (if sg_keyword_nearby sg then PROXIMITY_BONUS else - PROXIMITY_PENALTY) else s1)
      in min 1 (max 0 s2))"

section \<open>Rules and results\<close>

record rule =
  ru_id :: pystr
  ru_severity :: severity
  ru_matches :: "pystr \<Rightarrow> (int \<times> int) list"
  ru_entropy_min :: "rat option"
  ru_keywords :: "pystr list"
  ru_keyword_window :: nat
  ru_requires_keyword :: bool
  ru_redaction :: redaction_policy
  ru_base_confidence :: rat

definition DEFAULT_CONFIDENCE_THRESHOLD :: rat where "DEFAULT_CONFIDENCE_THRESHOLD = 1 / 2"
definition MAX_MATCHES_PER_UNIT :: nat where "MAX_MATCHES_PER_UNIT = 500"

record detected_secret =
  ds_rule_id :: pystr
  ds_severity :: severity
  ds_span :: span
  ds_secret :: pystr
  ds_redacted_snippet :: pystr
  ds_entropy :: rat
  ds_confidence :: rat
  ds_keyword :: "pystr option"

record detection_result =
  dr_secrets :: "detected_secret list"
  dr_dropped_below_threshold :: nat
  dr_dropped_no_keyword :: nat
  dr_dropped_low_entropy :: nat
  dr_dropped_overlapping :: nat
  dr_truncated :: bool

record candidate =
  c_rule :: rule
  c_span :: span
  c_text :: pystr
  c_signals :: signals
  c_score :: rat

section \<open>Candidates\<close>

definition secret_span :: "pystr \<Rightarrow> int \<times> int \<Rightarrow> (span \<times> pystr) option" where
  "secret_span text m =
     (case m of (start, stop) \<Rightarrow>
        if start < 0 \<or> stop \<le> start then None
        else Some (Sp (nat start) (nat stop), slice text (nat start) (nat stop)))"

text \<open>What one match comes to: ignored, dropped by a gate, or a candidate.\<close>

datatype gate = Ignored | LowEntropy | NoKeyword | Passed candidate

definition gate_match :: "(rat \<Rightarrow> rat) \<Rightarrow> (pystr \<Rightarrow> pystr) \<Rightarrow> pystr \<Rightarrow> rule \<Rightarrow> int \<times> int \<Rightarrow> gate" where
  "gate_match log2 lower text r m =
     (case secret_span text m of
        None \<Rightarrow> Ignored
      | Some (sp, secret) \<Rightarrow>
          if secret = [] then Ignored
          else
            let entropy = shannon_entropy log2 secret in
            if (case ru_entropy_min r of None \<Rightarrow> False | Some least \<Rightarrow> entropy < least) then LowEntropy
            else
              let keyword = keyword_near lower text (sp_start sp) (sp_end sp) (ru_keywords r) (ru_keyword_window r) in
              if ru_requires_keyword r \<and> keyword = None then NoKeyword
              else
                let sg = \<lparr>sg_entropy = entropy, sg_keyword_nearby = (keyword \<noteq> None), sg_keyword = keyword\<rparr>
                in Passed \<lparr>c_rule = r, c_span = sp, c_text = secret, c_signals = sg,
                     c_score = confidence (ru_base_confidence r) sg (ru_entropy_min r) (ru_keywords r \<noteq> [])\<rparr>)"

definition gates :: "(rat \<Rightarrow> rat) \<Rightarrow> (pystr \<Rightarrow> pystr) \<Rightarrow> pystr \<Rightarrow> rule list \<Rightarrow> gate list" where
  "gates log2 lower text pack = concat (map (\<lambda>r. map (gate_match log2 lower text r) (ru_matches r text)) pack)"

definition candidates :: "gate list \<Rightarrow> candidate list" where
  "candidates gs = List.map_filter (\<lambda>g. case g of Passed c \<Rightarrow> Some c | _ \<Rightarrow> None) gs"

text \<open>Every match, gated or not: the mask set.\<close>

definition match_spans :: "pystr \<Rightarrow> rule list \<Rightarrow> span list" where
  "match_spans text pack =
     map snd (dict_of (concat (map (\<lambda>r. List.map_filter (\<lambda>m.
       case secret_span text m of
         None \<Rightarrow> None
       | Some (sp, secret) \<Rightarrow> if secret = [] then None else Some ((sp_start sp, sp_end sp), sp)) (ru_matches r text)) pack)))"

section \<open>Selection\<close>

definition strongest :: "candidate list \<Rightarrow> nat \<Rightarrow> candidate list" where
  "strongest cs limit =
     sort_key (\<lambda>c. sp_start (c_span c))
       (take limit (sort_key (\<lambda>c. (- SEVERITY_RANK (ru_severity (c_rule c)), - c_score c, sp_start (c_span c))) cs))"

fun keep_strongest :: "candidate list \<Rightarrow> candidate list \<Rightarrow> candidate list" where
  "keep_strongest kept [] = kept"
| "keep_strongest kept (c # cs) =
     (if list_ex (\<lambda>k. overlaps (c_span c) (c_span k)) kept then keep_strongest kept cs
      else keep_strongest (kept @ [c]) cs)"

definition strongest_of_each_overlap :: "candidate list \<Rightarrow> candidate list" where
  "strongest_of_each_overlap cs =
     sort_key (\<lambda>c. sp_start (c_span c))
       (keep_strongest []
         (sort_key (\<lambda>c. (- c_score c, - (int (sp_end (c_span c)) - int (sp_start (c_span c))), sp_start (c_span c))) cs))"

text \<open>\<open>bisect\<close> on an ascending list.\<close>

definition bisect_left :: "int list \<Rightarrow> int \<Rightarrow> nat" where
  "bisect_left xs x = length (takeWhile (\<lambda>a. a < x) xs)"

definition bisect_right :: "int list \<Rightarrow> int \<Rightarrow> nat" where
  "bisect_right xs x = length (takeWhile (\<lambda>a. a \<le> x) xs)"

definition spans_reaching :: "span list \<Rightarrow> int list \<Rightarrow> nat \<Rightarrow> span \<Rightarrow> span list" where
  "spans_reaching spans starts widest window =
     (let first = bisect_left starts (int (sp_start window) - int widest);
          last = bisect_right starts (int (sp_end window))
      in filter (\<lambda>s. overlaps s window) (slice spans first last))"

section \<open>Detection\<close>

definition detected :: "candidate \<Rightarrow> pystr \<Rightarrow> detected_secret" where
  "detected c snippet =
     \<lparr>ds_rule_id = ru_id (c_rule c), ds_severity = ru_severity (c_rule c), ds_span = c_span c, ds_secret = c_text c,
      ds_redacted_snippet = snippet, ds_entropy = sg_entropy (c_signals c), ds_confidence = c_score c,
      ds_keyword = sg_keyword (c_signals c)\<rparr>"

text \<open>A snippet that cannot be redacted drops the finding; a window that is not a span is an error.\<close>

definition report_one ::
  "pystr \<Rightarrow> span list \<Rightarrow> int list \<Rightarrow> nat \<Rightarrow> candidate \<Rightarrow> py_error + detected_secret option" where
  "report_one text all_spans starts widest c =
     bindE (context_window (length text) (c_span c) (ru_redaction (c_rule c))) (\<lambda>window.
       let near = spans_reaching all_spans starts widest window;
           neighbours = filter (\<lambda>s. s \<noteq> c_span c) near
       in case redact_snippet text (c_span c) (ru_redaction (c_rule c)) neighbours of
            Inr snippet \<Rightarrow> Inr (Some (detected c snippet))
          | Inl (RedactionError _) \<Rightarrow> Inr None
          | Inl (ValueError _) \<Rightarrow> Inr None
          | Inl e \<Rightarrow> Inl e)"

definition report_all :: "pystr \<Rightarrow> rule list \<Rightarrow> candidate list \<Rightarrow> py_error + detected_secret list" where
  "report_all text pack reportable =
     (let all_spans = sort_key sp_start (match_spans text pack);
          starts = map (\<lambda>s. int (sp_start s)) all_spans;
          widest = foldr max (map (\<lambda>s. sp_end s - sp_start s) all_spans) 0
      in bindE (mapE (report_one text all_spans starts widest) reportable) (\<lambda>rs.
           Inr (List.map_filter (\<lambda>r. r) rs)))"

definition detect ::
  "(rat \<Rightarrow> rat) \<Rightarrow> (pystr \<Rightarrow> pystr) \<Rightarrow> pystr \<Rightarrow> rule list \<Rightarrow> rat \<Rightarrow> nat \<Rightarrow> py_error + detection_result" where
  "detect log2 lower text pack threshold max_matches =
     (let gs = gates log2 lower text pack;
          found = candidates gs;
          above0 = filter (\<lambda>c. c_score c \<ge> threshold) found;
          truncated = (length above0 > max_matches);
          above = (if truncated then strongest above0 max_matches else above0);
          reportable = strongest_of_each_overlap above;
          tallied = \<lparr>dr_secrets = [], dr_dropped_below_threshold = length found - length above0,
             dr_dropped_no_keyword = length (filter (\<lambda>g. case g of NoKeyword \<Rightarrow> True | _ \<Rightarrow> False) gs),
             dr_dropped_low_entropy = length (filter (\<lambda>g. case g of LowEntropy \<Rightarrow> True | _ \<Rightarrow> False) gs),
             dr_dropped_overlapping = length above - length reportable, dr_truncated = truncated\<rparr>
      in if reportable = [] then Inr tallied
         else bindE (report_all text pack reportable) (\<lambda>secrets. Inr (tallied\<lparr>dr_secrets := secrets\<rparr>)))"

section \<open>Bounds of the score\<close>

lemma confidence_bounds: "0 \<le> confidence b sg m k \<and> confidence b sg m k \<le> 1"
  by (simp add: confidence_def Let_def)

section \<open>The neighbourhood search\<close>

lemma widest_bound: "s \<in> set spans \<Longrightarrow> sp_end s - sp_start s \<le> foldr max (map (\<lambda>s. sp_end s - sp_start s) spans) 0"
  by (induction spans) (auto simp: le_max_iff_disj)


lemma filter_slice:
  assumes "\<And>x. x \<in> set (take a xs) \<Longrightarrow> \<not> P x" and "\<And>x. x \<in> set (drop b xs) \<Longrightarrow> \<not> P x"
  shows "filter P (slice xs a b) = filter P xs"
proof (cases "a \<le> b")
  case True
  have "xs = take a xs @ slice xs a b @ drop b xs"
    using True by (metis append_take_drop_id drop_drop le_add_diff_inverse2 slice_def)
  then have "filter P xs = filter P (take a xs) @ filter P (slice xs a b) @ filter P (drop b xs)"
    by (metis filter_append)
  then show ?thesis using assms by (simp add: filter_empty_conv)
next
  case False
  have "x \<in> set (take a xs) \<or> x \<in> set (drop b xs)" if "x \<in> set xs" for x
    using that False by (metis append_take_drop_id in_set_conv_decomp in_set_takeD nat_le_linear set_append set_take_subset_set_take subsetD Un_iff)
  then have "filter P xs = []" using assms by (auto simp: filter_empty_conv)
  then show ?thesis using False by (simp add: slice_def)
qed

lemma in_take_takeWhile: "x \<in> set (take (length (takeWhile Q ys)) xs) \<Longrightarrow> ys = map f xs \<Longrightarrow> Q (f x)"
proof (induction xs arbitrary: ys)
  case (Cons z xs)
  then show ?case by (auto split: if_splits)
qed simp

lemma in_drop_takeWhile:
  assumes "sorted (map f xs)" and "x \<in> set (drop (length (takeWhile (\<lambda>a. a \<le> b) (map f xs))) xs)"
  shows "\<not> f x \<le> (b :: int)"
  using assms by (induction xs) (auto split: if_splits)

text \<open>
  The slice that is searched holds every match that reaches the window: the search agrees with
  looking at all of them.
\<close>

lemma spans_reaching_all:
  assumes "sorted (map sp_start spans)" and "\<And>s. s \<in> set spans \<Longrightarrow> sp_end s - sp_start s \<le> widest"
  shows "spans_reaching spans (map (\<lambda>s. int (sp_start s)) spans) widest window = filter (\<lambda>s. overlaps s window) spans"
proof -
  let ?st = "\<lambda>s. int (sp_start s)"
  have s: "sorted (map ?st spans)" using assms(1) by (simp add: sorted_wrt_map)
  show ?thesis
    unfolding spans_reaching_def Let_def bisect_left_def bisect_right_def
  proof (rule filter_slice)
    fix x assume x: "x \<in> set (take (length (takeWhile (\<lambda>a. a < int (sp_start window) - int widest) (map ?st spans))) spans)"
    have "?st x < int (sp_start window) - int widest" by (rule in_take_takeWhile [OF x refl])
    moreover have "sp_end x - sp_start x \<le> widest" using assms(2) in_set_takeD [OF x] .
    ultimately show "\<not> overlaps x window" by (auto simp: overlaps_def)
  next
    fix x assume "x \<in> set (drop (length (takeWhile (\<lambda>a. a \<le> int (sp_end window)) (map ?st spans))) spans)"
    then have "\<not> ?st x \<le> int (sp_end window)" by (rule in_drop_takeWhile [OF s])
    then show "\<not> overlaps x window" by (simp add: overlaps_def)
  qed
qed

section \<open>What is selected\<close>

lemma keep_strongest_disjoint:
  assumes "sorted_wrt (\<lambda>a b. \<not> overlaps (c_span b) (c_span a)) kept"
  shows "sorted_wrt (\<lambda>a b. \<not> overlaps (c_span b) (c_span a)) (keep_strongest kept cs)"
  using assms
proof (induction cs arbitrary: kept)
  case (Cons c cs)
  then show ?case by (auto simp: sorted_wrt_append list_ex_iff intro!: Cons.IH)
qed simp

lemma keep_strongest_subset: "set (keep_strongest kept cs) \<subseteq> set kept \<union> set cs"
proof (induction cs arbitrary: kept)
  case (Cons c cs)
  show ?case using Cons [of kept] Cons [of "kept @ [c]"] by auto
qed simp

lemma keep_strongest_length: "length (keep_strongest kept cs) \<le> length kept + length cs"
proof (induction cs arbitrary: kept)
  case (Cons c cs)
  show ?case using Cons [of kept] Cons [of "kept @ [c]"] by auto
qed simp

text \<open>Nothing is dropped without reason: a candidate that is not kept overlaps one that is.\<close>

lemma keep_strongest_covers:
  "set kept \<subseteq> set (keep_strongest kept cs) \<and>
   (\<forall>c \<in> set cs. c \<in> set (keep_strongest kept cs) \<or> (\<exists>k \<in> set (keep_strongest kept cs). overlaps (c_span c) (c_span k)))"
proof (induction cs arbitrary: kept)
  case (Cons c cs)
  show ?case using Cons [of kept] Cons [of "kept @ [c]"] by (auto simp: list_ex_iff)
qed simp

lemma sorted_wrt_perm:
  assumes "\<And>a b. R a b \<Longrightarrow> R b a" and "sorted_wrt R xs" and "mset ys = mset xs"
  shows "sorted_wrt R ys"
  using assms(2,3)
proof (induction ys arbitrary: xs)
  case (Cons y ys)
  have "y \<in> set xs" using Cons.prems(2) by (metis list.set_intros(1) set_mset_mset)
  then obtain as bs where xs: "xs = as @ y # bs" by (auto simp: in_set_conv_decomp)
  have "mset ys = mset (as @ bs)" using Cons.prems(2) by (simp add: xs)
  moreover have "sorted_wrt R (as @ bs)" using Cons.prems(1) by (simp add: xs sorted_wrt_append)
  moreover have "set ys = set (as @ bs)" using \<open>mset ys = mset (as @ bs)\<close> by (rule mset_eq_setD)
  moreover have "\<forall>z \<in> set (as @ bs). R y z" using Cons.prems(1) assms(1) by (auto simp: xs sorted_wrt_append)
  ultimately show ?case using Cons.IH [of "as @ bs"] by simp
qed simp

lemma reported_in_order:
  assumes "list_all (\<lambda>c. valid_span (c_span c)) cs"
  shows "sorted_wrt (\<lambda>a b. sp_end (c_span a) \<le> sp_start (c_span b)) (strongest_of_each_overlap cs)"
proof -
  let ?ranked = "sort_key (\<lambda>c. (- c_score c, - (int (sp_end (c_span c)) - int (sp_start (c_span c))), sp_start (c_span c))) cs"
  let ?kept = "keep_strongest [] ?ranked"
  have "sorted_wrt (\<lambda>a b. \<not> overlaps (c_span b) (c_span a)) ?kept" by (rule keep_strongest_disjoint) simp
  then have d: "sorted_wrt (\<lambda>a b. \<not> overlaps (c_span b) (c_span a)) (strongest_of_each_overlap cs)"
    by (rule sorted_wrt_perm [rotated]) (auto simp: strongest_of_each_overlap_def overlaps_def)
  have o: "sorted_wrt (\<lambda>a b. sp_start (c_span a) \<le> sp_start (c_span b)) (strongest_of_each_overlap cs)"
    unfolding strongest_of_each_overlap_def by (rule sorted_wrt_sort_key)
  have v: "valid_span (c_span c)" if "c \<in> set (strongest_of_each_overlap cs)" for c
    using that assms keep_strongest_subset [of "[]" ?ranked] by (auto simp: strongest_of_each_overlap_def list_all_iff)
  have "sorted_wrt (\<lambda>a b. sp_end (c_span a) \<le> sp_start (c_span b)) rs"
    if "sorted_wrt (\<lambda>a b. \<not> overlaps (c_span b) (c_span a)) rs"
      "sorted_wrt (\<lambda>a b. sp_start (c_span a) \<le> sp_start (c_span b)) rs" "\<forall>c \<in> set rs. valid_span (c_span c)" for rs
    using that
  proof (induction rs)
    case (Cons a rs)
    have "sp_end (c_span a) \<le> sp_start (c_span b)" if b: "b \<in> set rs" for b
    proof -
      have "\<not> overlaps (c_span b) (c_span a)" "sp_start (c_span a) \<le> sp_start (c_span b)" "sp_start (c_span b) < sp_end (c_span b)"
        using Cons.prems b by (simp_all add: valid_span_def)
      then show ?thesis by (simp add: overlaps_def)
    qed
    then show ?case using Cons by simp
  qed simp
  with d o v show ?thesis by blast
qed

text \<open>What every candidate is.\<close>

definition candidate_ok :: "pystr \<Rightarrow> rule list \<Rightarrow> candidate \<Rightarrow> bool" where
  "candidate_ok text pack c \<longleftrightarrow>
     c_rule c \<in> set pack \<and> valid_span (c_span c) \<and> c_text c = span_text text (c_span c) \<and>
     list_ex (\<lambda>m. secret_span text m = Some (c_span c, c_text c)) (ru_matches (c_rule c) text) \<and>
     0 \<le> c_score c \<and> c_score c \<le> 1"

lemma gate_passed:
  assumes "gate_match log2 lower text r m = Passed c"
  shows "c_rule c = r" and "secret_span text m = Some (c_span c, c_text c)" and "0 \<le> c_score c \<and> c_score c \<le> 1"
  using assms confidence_bounds by (auto simp: gate_match_def Let_def split: option.splits prod.splits if_splits)

lemma secret_span_Some: "secret_span text m = Some (sp, t) \<Longrightarrow> valid_span sp \<and> t = span_text text sp"
  by (auto simp: secret_span_def valid_span_def span_text_def split: prod.splits if_splits)

lemma candidates_ok:
  assumes "c \<in> set (candidates (gates log2 lower text pack))"
  shows "candidate_ok text pack c"
proof -
  have "Passed c \<in> set (gates log2 lower text pack)"
    using assms by (auto simp: candidates_def map_filter_def split: gate.splits)
  then obtain r m where r: "r \<in> set pack" "m \<in> set (ru_matches r text)" "gate_match log2 lower text r m = Passed c"
    by (auto simp: gates_def)
  note g = gate_passed [OF r(3)]
  have "list_ex (\<lambda>m. secret_span text m = Some (c_span c, c_text c)) (ru_matches r text)"
    unfolding list_ex_iff using r(2) g(2) by (rule bexI [rotated])
  then show ?thesis unfolding candidate_ok_def g(1) using r(1) secret_span_Some [OF g(2)] g(3) by blast
qed

lemma strongest_subset: "set (strongest cs n) \<subseteq> set cs"
  by (auto simp: strongest_def dest: in_set_takeD)

lemma strongest_length: "length (strongest cs n) \<le> n"
  by (simp add: strongest_def)

lemma overlap_subset: "set (strongest_of_each_overlap cs) \<subseteq> set cs"
  using keep_strongest_subset [of "[]"] by (fastforce simp: strongest_of_each_overlap_def)

lemma overlap_length: "length (strongest_of_each_overlap cs) \<le> length cs"
proof -
  have "length (keep_strongest [] xs) \<le> length xs" for xs using keep_strongest_length [of "[]" xs] by simp
  from this [of "sort_key f cs" for f] show ?thesis by (simp add: strongest_of_each_overlap_def)
qed

section \<open>What is reported\<close>

text \<open>
  The span of a report is one the rule matched.  Its snippet is the redaction of that span with every
  other match of any rule that reaches the context window as a neighbour to mask, and it contains no
  text of two characters or more that was matched there.  A secret that is matched elsewhere only, and
  also stands in the window where no rule matched it, is not looked for.
\<close>

definition matched_by :: "pystr \<Rightarrow> rule \<Rightarrow> detected_secret \<Rightarrow> bool" where
  "matched_by text r d \<longleftrightarrow> list_ex (\<lambda>m. secret_span text m = Some (ds_span d, ds_secret d)) (ru_matches r text)"

definition masked_for :: "pystr \<Rightarrow> rule list \<Rightarrow> rule \<Rightarrow> detected_secret \<Rightarrow> bool" where
  "masked_for text pack r d \<longleftrightarrow>
     (case context_window (length text) (ds_span d) (ru_redaction r) of
        Inl _ \<Rightarrow> False
      | Inr window \<Rightarrow>
          redact_snippet text (ds_span d) (ru_redaction r)
            (filter (\<lambda>m. m \<noteq> ds_span d \<and> overlaps m window) (sort_key sp_start (match_spans text pack))) =
            Inr (ds_redacted_snippet d) \<and>
          list_all (\<lambda>m. \<not> sublist (span_text text m) (ds_redacted_snippet d))
            (filter (\<lambda>m. length (span_text text m) > 1 \<and> overlaps m window) (ds_span d # match_spans text pack)))"

lemma redacted_holds_no_match:
  assumes "redact_snippet text target p others = Inr snip" and "m \<in> set (target # others)" and "length (span_text text m) > 1"
  shows "\<not> sublist (span_text text m) snip"
proof -
  have "span_text text m \<in> set (matched_texts text target others)" using assms(2,3) by (auto simp: matched_texts_def)
  then show ?thesis using redact_snippet_in_Inr(2) [OF assms(1) [unfolded redact_snippet_def]] by blast
qed

lemma report_one_masks:
  assumes "report_one text (sort_key sp_start (match_spans text pack))
      (map (\<lambda>s. int (sp_start s)) (sort_key sp_start (match_spans text pack)))
      (foldr max (map (\<lambda>s. sp_end s - sp_start s) (sort_key sp_start (match_spans text pack))) 0) c = Inr (Some d)"
  shows "masked_for text pack (c_rule c) d \<and> ds_span d = c_span c \<and> ds_confidence d = c_score c \<and>
    ds_secret d = c_text c \<and> ds_rule_id d = ru_id (c_rule c)"
proof -
  let ?all = "sort_key sp_start (match_spans text pack)"
  obtain window where "context_window (length text) (c_span c) (ru_redaction (c_rule c)) = Inr window"
    using assms by (cases "context_window (length text) (c_span c) (ru_redaction (c_rule c))") (simp_all add: report_one_def)
  then obtain snippet where w: "context_window (length text) (c_span c) (ru_redaction (c_rule c)) = Inr window"
    and r: "redact_snippet text (c_span c) (ru_redaction (c_rule c)) (filter (\<lambda>s. s \<noteq> c_span c)
        (spans_reaching ?all (map (\<lambda>s. int (sp_start s)) ?all) (foldr max (map (\<lambda>s. sp_end s - sp_start s) ?all) 0) window)) = Inr snippet"
    and d: "d = detected c snippet"
    using assms unfolding report_one_def Let_def by (simp split: sum.splits py_error.splits)
  have "spans_reaching ?all (map (\<lambda>s. int (sp_start s)) ?all) (foldr max (map (\<lambda>s. sp_end s - sp_start s) ?all) 0) window =
      filter (\<lambda>s. overlaps s window) ?all"
    by (rule spans_reaching_all, simp add: sorted_wrt_map sorted_wrt_sort_key, rule widest_bound)
  note r = r [unfolded this]
  have "\<not> sublist (span_text text m) snippet"
    if "length (span_text text m) > 1" "overlaps m window" "m \<in> set (c_span c # match_spans text pack)" for m
  proof (rule redacted_holds_no_match [OF r])
    show "m \<in> set (c_span c # filter (\<lambda>s. s \<noteq> c_span c) (filter (\<lambda>s. overlaps s window) ?all))" using that(2,3) by auto
  qed (rule that(1))
  then show ?thesis using r by (auto simp: masked_for_def d detected_def w list_all_iff conj_commute)
qed

lemma list_all2_in_right: "list_all2 R xs ys \<Longrightarrow> y \<in> set ys \<Longrightarrow> \<exists>x \<in> set xs. R x y"
  by (induction rule: list_all2_induct) auto

lemma reports_sorted:
  assumes "list_all2 (\<lambda>c r. f c = Inr r) cs rs" and "\<And>c d. f c = Inr (Some d) \<Longrightarrow> ds_span d = c_span c"
    and "sorted_wrt (\<lambda>a b. sp_end (c_span a) \<le> sp_start (c_span b)) cs"
  shows "sorted_wrt (\<lambda>a b. sp_end (ds_span a) \<le> sp_start (ds_span b)) (List.map_filter (\<lambda>r. r) rs)"
  using assms(1,3)
proof (induction rule: list_all2_induct)
  case (Cons c cs r rs)
  have "sp_end (c_span c) \<le> sp_start (ds_span d)" if d: "d \<in> set (List.map_filter (\<lambda>r. r) rs)" for d
  proof -
    have "Some d \<in> set rs" using d by (auto simp: map_filter_def)
    then obtain c' where "c' \<in> set cs" "f c' = Inr (Some d)" using list_all2_in_right [OF Cons.hyps(2)] by blast
    then show ?thesis using Cons.prems assms(2) by auto
  qed
  then show ?case using Cons assms(2) by (cases r) (auto simp: map_filter_simps)
qed (simp add: map_filter_simps)

text \<open>The reports of a run, through the choices made on the way.\<close>

lemma map_filter_id_length: "length (List.map_filter (\<lambda>r. r) rs) \<le> length rs"
  by (simp add: map_filter_def)

lemma detect_reports:
  assumes "detect log2 lower text pack threshold max_matches = Inr res"
  obtains cs where "list_all (candidate_ok text pack) cs" and "list_all (\<lambda>c. threshold \<le> c_score c) cs"
    and "length cs \<le> max_matches"
    and "report_all text pack (strongest_of_each_overlap cs) = Inr (dr_secrets res) \<or> dr_secrets res = []"
proof -
  let ?above = "filter (\<lambda>c. c_score c \<ge> threshold) (candidates (gates log2 lower text pack))"
  define cs where "cs = (if length ?above > max_matches then strongest ?above max_matches else ?above)"
  have sub: "set cs \<subseteq> set ?above" using strongest_subset [of ?above max_matches] by (auto simp: cs_def)
  have "length cs \<le> max_matches" using strongest_length [of ?above max_matches] by (auto simp: cs_def)
  moreover have "list_all (candidate_ok text pack) cs" using sub candidates_ok by (fastforce simp: list_all_iff)
  moreover have "list_all (\<lambda>c. threshold \<le> c_score c) cs" using sub by (auto simp: list_all_iff)
  moreover have "report_all text pack (strongest_of_each_overlap cs) = Inr (dr_secrets res) \<or> dr_secrets res = []"
    using assms unfolding detect_def Let_def cs_def [symmetric] by (auto simp: bindE_eq_Inr split: if_splits)
  ultimately show thesis using that by blast
qed

text \<open>
  C35.  What a content unit yields.  Reported secrets are in document order and never overlap, there
  are at most as many as the cap allows, and each scores within bounds and not below the threshold.
  Each is the text of its span, which is the secret group of a match that its rule, one of the pack,
  has in the unit.  Its snippet is the redaction of that span that masks every match of any rule of
  the pack that reaches the snippet's context window, whether or not that match passed its gates, was
  reported, or fell to the cap, and it contains the text of no such match of at least two characters.
  Matches that do not reach the window are not considered: a secret reported elsewhere in the unit may
  stand unmasked in the snippet where no rule matched it.
\<close>

theorem detection_reports_disjoint_masked_secrets:
  assumes "detect log2 lower text pack threshold max_matches = Inr res"
  shows "sorted_wrt (\<lambda>a b. sp_end (ds_span a) \<le> sp_start (ds_span b)) (dr_secrets res) \<and>
    length (dr_secrets res) \<le> max_matches \<and>
    list_all (\<lambda>d. threshold \<le> ds_confidence d \<and> 0 \<le> ds_confidence d \<and> ds_confidence d \<le> 1 \<and>
        ds_secret d = span_text text (ds_span d) \<and>
        list_ex (\<lambda>r. ru_id r = ds_rule_id d \<and> matched_by text r d \<and> masked_for text pack r d) pack) (dr_secrets res)"
proof -
  obtain cs where cs: "list_all (candidate_ok text pack) cs" "list_all (\<lambda>c. threshold \<le> c_score c) cs" "length cs \<le> max_matches"
      "report_all text pack (strongest_of_each_overlap cs) = Inr (dr_secrets res) \<or> dr_secrets res = []"
    by (rule detect_reports [OF assms])
  show ?thesis
  proof (cases "dr_secrets res = []")
    case False
    let ?all = "sort_key sp_start (match_spans text pack)"
    let ?f = "report_one text ?all (map (\<lambda>s. int (sp_start s)) ?all) (foldr max (map (\<lambda>s. sp_end s - sp_start s) ?all) 0)"
    obtain rs where rs: "mapE ?f (strongest_of_each_overlap cs) = Inr rs" "dr_secrets res = List.map_filter (\<lambda>r. r) rs"
      using cs(4) False by (auto simp: report_all_def Let_def bindE_eq_Inr)
    note l = mapE_eq_Inr [OF rs(1)]
    have "sorted_wrt (\<lambda>a b. sp_end (c_span a) \<le> sp_start (c_span b)) (strongest_of_each_overlap cs)"
      using cs(1) by (intro reported_in_order) (auto simp: list_all_iff candidate_ok_def)
    then have "sorted_wrt (\<lambda>a b. sp_end (ds_span a) \<le> sp_start (ds_span b)) (dr_secrets res)"
      unfolding rs(2) using reports_sorted [OF l] report_one_masks by blast
    moreover have "length (dr_secrets res) \<le> max_matches"
      using map_filter_id_length [of rs] list_all2_lengthD [OF l] overlap_length [of cs] cs(3) by (simp add: rs(2))
    moreover have "threshold \<le> ds_confidence d \<and> 0 \<le> ds_confidence d \<and> ds_confidence d \<le> 1 \<and>
        ds_secret d = span_text text (ds_span d) \<and> list_ex (\<lambda>r. ru_id r = ds_rule_id d \<and> matched_by text r d \<and> masked_for text pack r d) pack"
      if d: "d \<in> set (dr_secrets res)" for d
    proof -
      have "Some d \<in> set rs" using d by (auto simp: rs(2) map_filter_def)
      then obtain c where c: "c \<in> set (strongest_of_each_overlap cs)" "?f c = Inr (Some d)"
        using list_all2_in_right [OF l] by blast
      then have "candidate_ok text pack c" "threshold \<le> c_score c" using overlap_subset cs(1,2) by (auto simp: list_all_iff)
      then have "matched_by text (c_rule c) d" "c_rule c \<in> set pack"
        using report_one_masks [OF c(2)] by (auto simp: candidate_ok_def matched_by_def)
      then have "list_ex (\<lambda>r. ru_id r = ds_rule_id d \<and> matched_by text r d \<and> masked_for text pack r d) pack"
        unfolding list_ex_iff using report_one_masks [OF c(2)] by (intro bexI [of _ "c_rule c"]) simp_all
      then show ?thesis
        using report_one_masks [OF c(2)] \<open>candidate_ok text pack c\<close> \<open>threshold \<le> c_score c\<close> by (simp add: candidate_ok_def)
    qed
    ultimately show ?thesis by (auto simp: list_all_iff)
  qed simp
qed

section \<open>Witness\<close>

text \<open>One rule that finds \<open>AB\<close> twice; both copies are masked in both snippets.\<close>

definition demo_rule :: rule where
  "demo_rule = \<lparr>ru_id = cps ''demo'', ru_severity = HIGH, ru_matches = (\<lambda>_. [(4, 6), (7, 9)]), ru_entropy_min = None,
     ru_keywords = [cps ''key''], ru_keyword_window = 8, ru_requires_keyword = True, ru_redaction = default_policy,
     ru_base_confidence = 1 / 2\<rparr>"

theorem detection_reports_disjoint_masked_secrets_witness:
  "\<exists>res. detect (\<lambda>_. 0) id (cps ''key AB CD end'') [demo_rule] (1 / 2) 500 = Inr res \<and> length (dr_secrets res) = 2 \<and>
     sorted_wrt (\<lambda>a b. sp_end (ds_span a) \<le> sp_start (ds_span b)) (dr_secrets res)"
proof -
  have "case detect (\<lambda>_. 0) id (cps ''key AB CD end'') [demo_rule] (1 / 2) 500 of
      Inl _ \<Rightarrow> False | Inr res \<Rightarrow> length (dr_secrets res) = 2"
    by code_simp
  then obtain res where res: "detect (\<lambda>_. 0) id (cps ''key AB CD end'') [demo_rule] (1 / 2) 500 = Inr res" "length (dr_secrets res) = 2"
    by (auto split: sum.splits)
  then show ?thesis using detection_reports_disjoint_masked_secrets [OF res(1)] by blast
qed

end
