(* ===== verification/Rule_Loading.thy ===== *)
theory Rule_Loading
  imports Rule_Packs Detection Cursors
begin

text \<open>
  Loading a rule pack: \<open>load_pack\<close> of \<^verbatim>\<open>packages/detect/src/iceberg_detect/rules.py\<close> on the document its
  YAML loader yields, with every check a rule has to pass.  The YAML loader, \<open>re.compile\<close>, \<open>float\<close> of a
  text, \<open>str\<close> of a value that is not a string and Unicode lower-casing are parameters.  Mapping keys
  are texts.  An error keeps the sentence of its message and not the rule it names.
\<close>

section \<open>Fields\<close>

datatype rule_pack_error = RulePackError string

record loaded_rule = rule +
  lr_description :: pystr
  lr_regex :: pystr
  lr_validator_id :: "pystr option"

record rule_pack =
  rp_version :: pystr
  rp_rules :: "loaded_rule list"
  rp_description :: pystr

definition RULE_KEYS :: "pystr list" where
  "RULE_KEYS = map cps [''id'', ''description'', ''severity'', ''regex'', ''flags'', ''entropy_min'', ''keywords'',
     ''keyword_window'', ''requires_keyword'', ''redaction'', ''redaction_keep'', ''base_confidence'', ''validator'']"

definition PACK_KEYS :: "pystr list" where
  "PACK_KEYS = map cps [''version'', ''description'', ''rules'']"

definition FLAGS :: "pystr list" where
  "FLAGS = map cps [''ignorecase'', ''multiline'', ''dotall'']"

definition reject_unknown :: "jdict \<Rightarrow> pystr list \<Rightarrow> rule_pack_error + unit" where
  "reject_unknown document allowed =
     (if list_ex (\<lambda>(k, _). k \<notin> set allowed) document then Inl (RulePackError ''unknown key(s)'') else Inr ())"

definition pack_string :: "jdict \<Rightarrow> string \<Rightarrow> bool \<Rightarrow> rule_pack_error + pystr" where
  "pack_string document name required =
     (case map_of document (cps name) of
        None \<Rightarrow> if required then Inl (RulePackError ''rule pack has no field'') else Inr []
      | Some (JStr v) \<Rightarrow> if py_strip v = [] then Inl (RulePackError ''must be a non-empty string'') else Inr v
      | Some _ \<Rightarrow> Inl (RulePackError ''must be a non-empty string''))"

text \<open>\<open>\A[a-z0-9]+(?:-[a-z0-9]+)*\Z\<close>: words joined by single hyphens.\<close>

fun id_words :: "bool \<Rightarrow> pystr \<Rightarrow> bool" where
  "id_words inside [] = inside"
| "id_words inside (c # cs) =
     (if (97 \<le> c \<and> c \<le> 122) \<or> (48 \<le> c \<and> c \<le> 57) then id_words True cs
      else if c = 45 \<and> inside then id_words False cs
      else False)"

definition valid_rule_id :: "pystr \<Rightarrow> bool" where
  "valid_rule_id s = id_words False s"

definition require_string :: "jdict \<Rightarrow> string \<Rightarrow> rule_pack_error + pystr" where
  "require_string entry name =
     (case map_of entry (cps name) of
        Some (JStr v) \<Rightarrow> if py_strip v = [] then Inl (RulePackError ''must be a non-empty string'') else Inr v
      | _ \<Rightarrow> Inl (RulePackError ''must be a non-empty string''))"

definition severity_of_text :: "pystr \<Rightarrow> severity option" where
  "severity_of_text s =
     (if s = cps ''low'' then Some LOW else if s = cps ''medium'' then Some MEDIUM
      else if s = cps ''high'' then Some HIGH else if s = cps ''critical'' then Some CRITICAL else None)"

text \<open>
  What \<open>float\<close> gives of a text: a number, or an infinity or NaN.  A float of the document is a number
  here; the literals \<open>.inf\<close> and \<open>.nan\<close>, for which a document has no value, would be refused like a text
  that reads so.
\<close>

datatype py_float = Finite rat | NonFinite

definition optional_float :: "(pystr \<Rightarrow> py_float option) \<Rightarrow> json \<Rightarrow> rule_pack_error + rat option" where
  "optional_float float_of_text value =
     (let parsed = (case value of JInt n \<Rightarrow> Some (Finite (of_int n)) | JFloat q \<Rightarrow> Some (Finite q) | JStr s \<Rightarrow> float_of_text s
                    | _ \<Rightarrow> None)
      in case value of
           JNull \<Rightarrow> Inr None
         | _ \<Rightarrow> (case parsed of
                  None \<Rightarrow> Inl (RulePackError ''must be a number'')
                | Some NonFinite \<Rightarrow> Inl (RulePackError ''must be a finite number'')
                | Some (Finite q) \<Rightarrow> if q < 0 then Inl (RulePackError ''must not be negative'') else Inr (Some q)))"

definition positive_int :: "json \<Rightarrow> rule_pack_error + nat" where
  "positive_int value =
     (case (case value of JInt n \<Rightarrow> Some n | JStr s \<Rightarrow> int_of_text s | _ \<Rightarrow> None) of
        None \<Rightarrow> Inl (RulePackError ''must be an integer'')
      | Some n \<Rightarrow> if n \<le> 0 then Inl (RulePackError ''must be positive'') else Inr (nat n))"

definition unit_float :: "(pystr \<Rightarrow> py_float option) \<Rightarrow> json \<Rightarrow> rule_pack_error + rat" where
  "unit_float float_of_text value =
     bindE (optional_float float_of_text value) (\<lambda>parsed.
       case parsed of
         None \<Rightarrow> Inl (RulePackError ''must be between 0 and 1'')
       | Some q \<Rightarrow> if 0 \<le> q \<and> q \<le> 1 then Inr q else Inl (RulePackError ''must be between 0 and 1''))"

definition keywords_of :: "(json \<Rightarrow> pystr) \<Rightarrow> (pystr \<Rightarrow> pystr) \<Rightarrow> json \<Rightarrow> rule_pack_error + pystr list" where
  "keywords_of py_str lower value =
     (case value of
        JList words \<Rightarrow>
          let cleaned = map lower (filter (\<lambda>w. w \<noteq> []) (map (\<lambda>w. py_strip (json_str py_str w)) words))
          in if distinct cleaned then Inr cleaned else Inl (RulePackError ''keywords must not repeat'')
      | _ \<Rightarrow> Inl (RulePackError ''keywords must be a list''))"

definition validator_of :: "(json \<Rightarrow> pystr) \<Rightarrow> json \<Rightarrow> pystr \<Rightarrow> rule_pack_error + pystr option" where
  "validator_of py_str value rule_id =
     (case value of
        JNull \<Rightarrow> Inr None
      | _ \<Rightarrow>
          if (case value of JStr s \<Rightarrow> s \<noteq> cps ''github-token-v1'' | _ \<Rightarrow> True) \<or>
             rule_id \<notin> {cps ''github-token'', cps ''github-fine-grained-pat''}
          then Inl (RulePackError ''unknown credential validator'')
          else Inr (Some (json_str py_str value)))"

section \<open>Compiling\<close>

type_synonym compiler = "pystr \<Rightarrow> pystr list \<Rightarrow> (pystr \<Rightarrow> (int \<times> int) list) option"

definition flag_names ::
  "(json \<Rightarrow> pystr) \<Rightarrow> (pystr \<Rightarrow> pystr) \<Rightarrow> json \<Rightarrow> rule_pack_error + pystr list" where
  "flag_names py_str lower value =
     (case value of
        JList names \<Rightarrow>
          mapE (\<lambda>n. let f = lower (json_str py_str n) in
                    if f \<in> set FLAGS then Inr f else Inl (RulePackError ''unknown flag'')) names
      | _ \<Rightarrow> Inl (RulePackError ''flags must be a list''))"

definition compile_pattern ::
  "compiler \<Rightarrow> (json \<Rightarrow> pystr) \<Rightarrow> (pystr \<Rightarrow> pystr) \<Rightarrow> pystr \<Rightarrow> json \<Rightarrow> rule_pack_error + (pystr \<Rightarrow> (int \<times> int) list)" where
  "compile_pattern re_compile py_str lower source flags =
     bindE (flag_names py_str lower flags) (\<lambda>fs.
     case assert_no_catastrophic_backtracking source of
       Inl _ \<Rightarrow> Inl (RulePackError ''this shape backtracks exponentially'')
     | Inr _ \<Rightarrow>
         (case re_compile source fs of
            None \<Rightarrow> Inl (RulePackError ''regex does not compile'')
          | Some p \<Rightarrow> Inr p))"

definition redaction_of :: "(json \<Rightarrow> pystr) \<Rightarrow> jdict \<Rightarrow> rule_pack_error + redaction_policy" where
  "redaction_of py_str entry =
     (let name = (case map_of entry (cps ''redaction'') of None \<Rightarrow> cps ''full'' | Some v \<Rightarrow> json_str py_str v);
          keep_override = (case map_of entry (cps ''redaction_keep'') of
              None \<Rightarrow> Inr (keep default_policy)
            | Some v \<Rightarrow> py_int v)
      in case keep_override of
           Inl _ \<Rightarrow> Inl (RulePackError ''invalid redaction_keep'')
         | Inr k \<Rightarrow>
             (case List.find (\<lambda>n. cps n = name) [''full'', ''keep_prefix'', ''keep_suffix''] of
                None \<Rightarrow> Inl (RulePackError ''unknown redaction strategy'')
              | Some n \<Rightarrow>
                  (case from_strategy_name n k of
                     Inl _ \<Rightarrow> Inl (RulePackError ''unknown redaction strategy'')
                   | Inr p \<Rightarrow> Inr p)))"

section \<open>A rule and a pack\<close>

text \<open>What the loader calls of its surroundings.\<close>

record loader =
  ld_str :: "json \<Rightarrow> pystr"
  ld_lower :: "pystr \<Rightarrow> pystr"
  ld_float :: "pystr \<Rightarrow> py_float option"
  ld_compile :: compiler

definition field :: "jdict \<Rightarrow> string \<Rightarrow> json \<Rightarrow> json" where
  "field entry name fallback = (case map_of entry (cps name) of None \<Rightarrow> fallback | Some v \<Rightarrow> v)"

definition build_rule :: "loader \<Rightarrow> json \<Rightarrow> rule_pack_error + loaded_rule" where
  "build_rule ld value =
     (case value of
        JObj entry \<Rightarrow>
          let rule_id = py_strip (json_str (ld_str ld) (field entry ''id'' (JStr []))) in
          if \<not> valid_rule_id rule_id then Inl (RulePackError ''id must be lowercase words joined by hyphens'')
          else
            bindE (reject_unknown entry RULE_KEYS) (\<lambda>_.
            bindE (require_string entry ''description'') (\<lambda>description.
            bindE (require_string entry ''severity'') (\<lambda>severity_text.
            bindE (require_string entry ''regex'') (\<lambda>regex.
            case severity_of_text severity_text of
              None \<Rightarrow> Inl (RulePackError ''unknown severity'')
            | Some severity \<Rightarrow>
                bindE (compile_pattern (ld_compile ld) (ld_str ld) (ld_lower ld) regex (field entry ''flags'' (JList []))) (\<lambda>pattern.
                bindE (keywords_of (ld_str ld) (ld_lower ld) (field entry ''keywords'' (JList []))) (\<lambda>keywords.
                let requires_keyword = truthy (field entry ''requires_keyword'' (JBool False)) in
                if requires_keyword \<and> keywords = [] then Inl (RulePackError ''requires_keyword needs at least one keyword'')
                else
                  bindE (redaction_of (ld_str ld) entry) (\<lambda>redaction.
                  bindE (optional_float (ld_float ld) (field entry ''entropy_min'' JNull)) (\<lambda>entropy_min.
                  bindE (positive_int (field entry ''keyword_window'' (JInt 64))) (\<lambda>window.
                  bindE (unit_float (ld_float ld) (field entry ''base_confidence'' (JFloat (1 / 2)))) (\<lambda>base.
                  bindE (validator_of (ld_str ld) (field entry ''validator'' JNull) rule_id) (\<lambda>validator.
                  Inr \<lparr>ru_id = rule_id, ru_severity = severity, ru_matches = pattern, ru_entropy_min = entropy_min,
                       ru_keywords = keywords, ru_keyword_window = window, ru_requires_keyword = requires_keyword,
                       ru_redaction = redaction, ru_base_confidence = base, lr_description = py_strip description,
                       lr_regex = regex, lr_validator_id = validator\<rparr>)))))))))))
      | _ \<Rightarrow> Inl (RulePackError ''rule is not a mapping''))"

definition reject_duplicate_ids :: "loaded_rule list \<Rightarrow> rule_pack_error + unit" where
  "reject_duplicate_ids rules =
     (if distinct (map ru_id rules) then Inr () else Inl (RulePackError ''duplicate id in the same pack''))"

definition load_pack :: "loader \<Rightarrow> json \<Rightarrow> rule_pack_error + rule_pack" where
  "load_pack ld document =
     (case document of
        JObj doc \<Rightarrow>
          bindE (reject_unknown doc PACK_KEYS) (\<lambda>_.
          case map_of doc (cps ''rules'') of
            Some (JList entries) \<Rightarrow>
              if entries = [] then Inl (RulePackError ''rule pack must define a non-empty rules list'')
              else
                bindE (mapE (build_rule ld) entries) (\<lambda>rules.
                bindE (reject_duplicate_ids rules) (\<lambda>_.
                bindE (pack_string doc ''version'' True) (\<lambda>version.
                bindE (pack_string doc ''description'' False) (\<lambda>description.
                Inr \<lparr>rp_version = version, rp_rules = rules, rp_description = description\<rparr>))))
          | _ \<Rightarrow> Inl (RulePackError ''rule pack must define a non-empty rules list''))
      | _ \<Rightarrow> Inl (RulePackError ''rule pack must be a mapping with version and rules''))"

fun pack_rule :: "loaded_rule list \<Rightarrow> pystr \<Rightarrow> loaded_rule option" where
  "pack_rule [] rule_id = None"
| "pack_rule (r # rs) rule_id = (if ru_id r = rule_id then Some r else pack_rule rs rule_id)"

section \<open>What a loaded pack is\<close>

definition rule_ok :: "loaded_rule \<Rightarrow> bool" where
  "rule_ok r \<longleftrightarrow>
     valid_rule_id (ru_id r) \<and> assert_no_catastrophic_backtracking (lr_regex r) = Inr () \<and>
     0 < ru_keyword_window r \<and> 0 \<le> ru_base_confidence r \<and> ru_base_confidence r \<le> 1 \<and>
     (case ru_entropy_min r of None \<Rightarrow> True | Some q \<Rightarrow> 0 \<le> q) \<and> distinct (ru_keywords r) \<and>
     (ru_requires_keyword r \<longrightarrow> ru_keywords r \<noteq> []) \<and>
     (lr_validator_id r \<noteq> None \<longrightarrow> ru_id r \<in> {cps ''github-token'', cps ''github-fine-grained-pat''})"

lemma positive_int_Inr: "positive_int v = Inr n \<Longrightarrow> 0 < n"
  by (auto simp: positive_int_def split: json.splits option.splits if_splits)

lemma optional_float_Inr: "optional_float fl v = Inr (Some q) \<Longrightarrow> 0 \<le> q"
  by (auto simp: optional_float_def Let_def split: json.splits option.splits py_float.splits if_splits)

lemma unit_float_Inr: "unit_float fl v = Inr q \<Longrightarrow> 0 \<le> q \<and> q \<le> 1"
  by (auto simp: unit_float_def bindE_eq_Inr split: option.splits if_splits)

lemma keywords_of_Inr: "keywords_of ps lower v = Inr ks \<Longrightarrow> distinct ks"
  by (auto simp: keywords_of_def Let_def split: json.splits if_splits)

lemma validator_of_Inr:
  "validator_of ps v i = Inr (Some x) \<Longrightarrow> i \<in> {cps ''github-token'', cps ''github-fine-grained-pat''}"
  by (auto simp: validator_of_def split: json.splits if_splits)

lemma compile_pattern_Inr: "compile_pattern c ps lower src fl = Inr p \<Longrightarrow> assert_no_catastrophic_backtracking src = Inr ()"
  by (cases "assert_no_catastrophic_backtracking src") (auto simp: compile_pattern_def bindE_eq_Inr)

lemma build_rule_Inr:
  assumes "build_rule ld v = Inr r"
  shows "rule_ok r"
proof -
  obtain entry where "v = JObj entry" using assms by (cases v) (simp_all add: build_rule_def)
  then show ?thesis
    using assms
    by (auto simp: build_rule_def bindE_eq_Inr Let_def rule_ok_def split: if_splits option.splits
        dest: positive_int_Inr optional_float_Inr unit_float_Inr keywords_of_Inr validator_of_Inr compile_pattern_Inr)
qed

lemma loaded_pack_is_well_formed:
  assumes "load_pack ld document = Inr p"
  shows "rp_rules p \<noteq> [] \<and> distinct (map ru_id (rp_rules p)) \<and> list_all rule_ok (rp_rules p) \<and> py_strip (rp_version p) \<noteq> []"
proof -
  obtain doc where doc: "document = JObj doc" using assms by (cases document) (simp_all add: load_pack_def)
  obtain entries where e: "map_of doc (cps ''rules'') = Some (JList entries)" "entries \<noteq> []"
      "mapE (build_rule ld) entries = Inr (rp_rules p)" "distinct (map ru_id (rp_rules p))"
      "pack_string doc ''version'' True = Inr (rp_version p)"
    using assms by (auto simp: load_pack_def doc bindE_eq_Inr reject_duplicate_ids_def split: option.splits json.splits if_splits)
  have l: "list_all2 (\<lambda>v r. build_rule ld v = Inr r) entries (rp_rules p)" by (rule mapE_eq_Inr [OF e(3)])
  have "rp_rules p \<noteq> []" using l e(2) by auto
  moreover have "list_all rule_ok (rp_rules p)"
    unfolding list_all_iff using list_all2_in_right [OF l] build_rule_Inr by blast
  moreover have "py_strip (rp_version p) \<noteq> []"
    using e(5) by (auto simp: pack_string_def split: option.splits json.splits if_splits)
  ultimately show ?thesis using e(4) by blast
qed

lemma pack_rule_finds: "distinct (map ru_id rs) \<Longrightarrow> r \<in> set rs \<Longrightarrow> pack_rule rs (ru_id r) = Some r"
  by (induction rs) auto

end
