(* ===== verification/Retention.thy ===== *)
theory Retention
  imports Cursors
begin

text \<open>
  Data retention, \<^verbatim>\<open>apps/api/src/iceberg_api/retention.py\<close>: what a purge deletes or scrubs, with the
  transactions that other replicas commit between its statements.

  The rows are those of the control plane extended by the columns only a purge reads: the
  \<open>updated_at\<close> of a finding, the id and \<open>created_at\<close> of an event, the id of an audit row.  Deleting a
  finding cascades to its events, its remediation actions and its queued announcements, as the
  foreign keys declare; hand-overs, which cascade likewise, have no table here.

  Between two statements of a round any other transaction may commit: \<open>others k\<close> is what the
  database becomes between the statements \<open>k\<close> and \<open>k + 1\<close>.  A query limited without an order returns
  rows in table order here; the database may choose any.
\<close>

section \<open>Tables\<close>

record stored_finding = finding +
  f_updated_at :: int

record stored_event = finding_event +
  ev_id :: nat
  ev_created_at :: int

record stored_audit = audit_event +
  au_id :: nat

record remediation_action =
  ra_id :: nat
  ra_created_at :: int
  ra_finding_id :: nat
  ra_actor_id :: "nat option"
  ra_kind :: remediation_action_kind
  ra_occurred_at :: "int option"
  ra_note :: "pystr option"
  ra_evidence_links :: "jdict list"
  ra_guidance_version :: "pystr option"
  ra_verification :: remediation_verification
  ra_verified_by_id :: "nat option"
  ra_verified_at :: "int option"
  ra_retracted_at :: "int option"
  ra_retracted_by_id :: "nat option"
  ra_retracted_reason :: "pystr option"
  ra_scrubbed_at :: "int option"

record evidence =
  e_findings :: "stored_finding list"
  e_events :: "stored_event list"
  e_audits :: "stored_audit list"
  e_actions :: "remediation_action list"
  e_deliveries :: "notification_delivery list"

record retention_settings =
  retention_resolved_findings_days :: nat
  retention_finding_events_days :: nat
  retention_audit_events_days :: nat
  retention_remediation_evidence_days :: nat
  retention_batch_size :: nat

record purge_result =
  pr_findings :: nat
  pr_finding_events :: nat
  pr_audit_events :: nat
  pr_remediation_evidence_scrubbed :: nat

definition purge_total :: "purge_result \<Rightarrow> nat" where
  "purge_total r =
     pr_findings r + pr_finding_events r + pr_audit_events r + pr_remediation_evidence_scrubbed r"

section \<open>One table at a time\<close>

definition PURGEABLE_RESOLUTIONS :: "finding_resolution list" where
  "PURGEABLE_RESOLUTIONS = [RES_AUTO]"

definition cutoff :: "nat \<Rightarrow> int \<Rightarrow> int option" where
  "cutoff days now = (if days \<le> 0 then None else Some (now - int days * DAY))"

definition purgeable_finding :: "int \<Rightarrow> stored_finding \<Rightarrow> bool" where
  "purgeable_finding before f \<longleftrightarrow>
     f_state f = RESOLVED \<and>
     (case f_resolution f of None \<Rightarrow> False | Some r \<Rightarrow> r \<in> set PURGEABLE_RESOLUTIONS) \<and>
     f_updated_at f < before \<and> f_suppressed_at f = None"

definition delete_findings :: "(stored_finding \<Rightarrow> bool) \<Rightarrow> evidence \<Rightarrow> nat \<times> evidence" where
  "delete_findings P d =
     (let gone = map f_id (filter P (e_findings d)) in
      (length gone,
       d\<lparr>e_findings := filter (\<lambda>f. \<not> P f) (e_findings d),
         e_events := filter (\<lambda>e. ev_finding_id e \<notin> set gone) (e_events d),
         e_actions := filter (\<lambda>a. ra_finding_id a \<notin> set gone) (e_actions d),
         e_deliveries := filter (\<lambda>n. nd_finding_id n \<notin> set gone) (e_deliveries d)\<rparr>))"

definition purge_findings ::
  "nat \<Rightarrow> int \<Rightarrow> nat \<Rightarrow> (evidence \<Rightarrow> evidence) \<Rightarrow> evidence \<Rightarrow> nat \<times> evidence" where
  "purge_findings days now batch others d =
     (case cutoff days now of
        None \<Rightarrow> (0, others d)
      | Some before \<Rightarrow>
          let eligible = take batch (map f_id (filter (purgeable_finding before) (e_findings d))) in
          if eligible = [] then (0, others d)
          else delete_findings (\<lambda>f. f_id f \<in> set eligible \<and> purgeable_finding before f) (others d))"

definition still_open :: "evidence \<Rightarrow> nat set" where
  "still_open d = set (map f_id (filter (\<lambda>f. f_state f = OPEN) (e_findings d)))"

definition purgeable_event :: "int \<Rightarrow> evidence \<Rightarrow> stored_event \<Rightarrow> bool" where
  "purgeable_event before d e \<longleftrightarrow> ev_created_at e < before \<and> ev_finding_id e \<notin> still_open d"

definition purge_finding_events ::
  "nat \<Rightarrow> int \<Rightarrow> nat \<Rightarrow> (evidence \<Rightarrow> evidence) \<Rightarrow> evidence \<Rightarrow> nat \<times> evidence" where
  "purge_finding_events days now batch others d =
     (case cutoff days now of
        None \<Rightarrow> (0, others d)
      | Some before \<Rightarrow>
          let eligible = take batch (map ev_id (filter (purgeable_event before d) (e_events d))) in
          if eligible = [] then (0, others d)
          else
            let d1 = others d; P = (\<lambda>e. ev_id e \<in> set eligible \<and> purgeable_event before d1 e)
            in (rowcount P (e_events d1), d1\<lparr>e_events := filter (\<lambda>e. \<not> P e) (e_events d1)\<rparr>))"

definition purge_audit_events ::
  "nat \<Rightarrow> int \<Rightarrow> nat \<Rightarrow> (evidence \<Rightarrow> evidence) \<Rightarrow> evidence \<Rightarrow> nat \<times> evidence" where
  "purge_audit_events days now batch others d =
     (case cutoff days now of
        None \<Rightarrow> (0, others d)
      | Some before \<Rightarrow>
          let eligible = take batch (map au_id (filter (\<lambda>a. au_created_at a < before) (e_audits d))) in
          if eligible = [] then (0, others d)
          else
            let d1 = others d
            in (length eligible, d1\<lparr>e_audits := filter (\<lambda>a. au_id a \<notin> set eligible) (e_audits d1)\<rparr>))"

section \<open>Scrubbing evidence links\<close>

definition scrub_link :: "jdict \<Rightarrow> jdict" where
  "scrub_link link =
     [(cps ''label'', case map_of link (cps ''label'') of Some v \<Rightarrow> v | None \<Rightarrow> JStr (cps ''evidence'')),
      (cps ''scrubbed'', JBool True)]"

definition long_resolved :: "int \<Rightarrow> evidence \<Rightarrow> nat set" where
  "long_resolved before d =
     set (map f_id (filter (\<lambda>f. f_state f = RESOLVED \<and> f_updated_at f < before) (e_findings d)))"

definition scrub_one :: "int \<Rightarrow> int \<Rightarrow> remediation_action \<Rightarrow> evidence \<Rightarrow> nat \<times> evidence" where
  "scrub_one now before action d =
     (let P = (\<lambda>a. ra_id a = ra_id action \<and> ra_scrubbed_at a = None \<and> ra_finding_id a \<in> long_resolved before d)
      in (rowcount P (e_actions d),
          d\<lparr>e_actions := update_where P
              (\<lambda>a. a\<lparr>ra_evidence_links := map scrub_link (ra_evidence_links action), ra_note := None,
                     ra_scrubbed_at := Some now\<rparr>) (e_actions d)\<rparr>))"

fun scrub_all ::
  "(nat \<Rightarrow> evidence \<Rightarrow> evidence) \<Rightarrow> nat \<Rightarrow> int \<Rightarrow> int \<Rightarrow> remediation_action list \<Rightarrow> evidence \<Rightarrow> nat \<times> evidence" where
  "scrub_all others k now before [] d = (0, others k d)"
| "scrub_all others k now before (a # as) d =
     (let (n, d1) = scrub_one now before a (others k d);
          (m, d2) = scrub_all others (k + 1) now before as d1
      in (n + m, d2))"

definition lockable :: "int \<Rightarrow> nat \<Rightarrow> evidence \<Rightarrow> nat list" where
  "lockable before batch d =
     (let unscrubbed = map ra_finding_id (filter (\<lambda>a. ra_scrubbed_at a = None) (e_actions d)) in
      take batch (map f_id (sort_key f_id (filter (\<lambda>f. f_state f = RESOLVED \<and> f_updated_at f < before \<and>
        f_id f \<in> set unscrubbed) (e_findings d)))))"

definition scrub_candidates :: "nat list \<Rightarrow> nat \<Rightarrow> evidence \<Rightarrow> remediation_action list" where
  "scrub_candidates locked batch d =
     take batch (sort_key ra_id (filter (\<lambda>a. ra_finding_id a \<in> set locked \<and> ra_scrubbed_at a = None) (e_actions d)))"

definition scrub_remediation_evidence ::
  "nat \<Rightarrow> int \<Rightarrow> nat \<Rightarrow> (nat \<Rightarrow> evidence \<Rightarrow> evidence) \<Rightarrow> nat \<Rightarrow> evidence \<Rightarrow> nat \<times> evidence" where
  "scrub_remediation_evidence days now batch others k d =
     (case cutoff days now of
        None \<Rightarrow> (0, others k d)
      | Some before \<Rightarrow>
          let locked = lockable before batch d; d1 = others k d in
          if locked = [] then (0, d1)
          else scrub_all others (k + 1) now before (scrub_candidates locked batch d1) d1)"

section \<open>The round\<close>

definition purge_detail :: "retention_settings \<Rightarrow> purge_result \<Rightarrow> (string \<times> pystr) list" where
  "purge_detail s r =
     [(''findings'', py_digits (pr_findings r)),
      (''finding_events'', py_digits (pr_finding_events r)),
      (''audit_events'', py_digits (pr_audit_events r)),
      (''remediation_evidence_scrubbed'', py_digits (pr_remediation_evidence_scrubbed r)),
      (''resolved_findings_days'', py_digits (retention_resolved_findings_days s)),
      (''finding_events_days'', py_digits (retention_finding_events_days s)),
      (''audit_events_days'', py_digits (retention_audit_events_days s)),
      (''remediation_evidence_days'', py_digits (retention_remediation_evidence_days s))]"

text \<open>The audit row draws the id \<open>fresh\<close> and is stamped with the \<open>clock\<close> at its insert.\<close>

definition purge_audit :: "retention_settings \<Rightarrow> purge_result \<Rightarrow> nat \<Rightarrow> int \<Rightarrow> stored_audit" where
  "purge_audit s r fresh clock =
     \<lparr>au_actor_id = None, au_action = ''retention.purged'', au_target_type = ''retention'', au_target_id = None,
      au_from_value = None, au_to_value = None, au_detail = purge_detail s r, au_created_at = clock, au_id = fresh\<rparr>"

definition purge ::
  "retention_settings \<Rightarrow> int \<Rightarrow> nat \<Rightarrow> int \<Rightarrow> (nat \<Rightarrow> evidence \<Rightarrow> evidence) \<Rightarrow> evidence \<Rightarrow> purge_result \<times> evidence" where
  "purge s now fresh clock others d =
     (let batch = retention_batch_size s;
          (findings, d1) = purge_findings (retention_resolved_findings_days s) now batch (others 0) d;
          (events, d2) = purge_finding_events (retention_finding_events_days s) now batch (others 2) (others 1 d1);
          (audits, d3) = purge_audit_events (retention_audit_events_days s) now batch (others 4) (others 3 d2);
          (scrubbed, d4) =
            scrub_remediation_evidence (retention_remediation_evidence_days s) now batch others 6 (others 5 d3);
          r = \<lparr>pr_findings = findings, pr_finding_events = events, pr_audit_events = audits,
               pr_remediation_evidence_scrubbed = scrubbed\<rparr>
      in if purge_total r = 0 then (r, d4)
         else (r, d4\<lparr>e_audits := e_audits d4 @ [purge_audit s r fresh clock]\<rparr>))"

section \<open>What a round spares\<close>

text \<open>A condition on the database that every write of a round keeps.\<close>

locale spared_by_purge =
  fixes K :: "evidence \<Rightarrow> bool"
  assumes delete: "K d \<Longrightarrow> K (snd (delete_findings (\<lambda>f. f_id f \<in> set ids \<and> purgeable_finding before f) d))"
    and prune: "K d \<Longrightarrow> K (d\<lparr>e_events := filter (\<lambda>e. \<not> (ev_id e \<in> set ids \<and> purgeable_event before d e)) (e_events d)\<rparr>)"
    and audit: "K d \<Longrightarrow> K (d\<lparr>e_audits := rows\<rparr>)"
    and scrub: "K d \<Longrightarrow> K (snd (scrub_one now before a d))"
begin

lemma findings: "K (others d) \<Longrightarrow> K (snd (purge_findings days now batch others d))"
  using delete by (auto simp: purge_findings_def Let_def split: option.splits)

lemma events: "K (others d) \<Longrightarrow> K (snd (purge_finding_events days now batch others d))"
  using prune by (auto simp: purge_finding_events_def Let_def split: option.splits)

lemma audits: "K (others d) \<Longrightarrow> K (snd (purge_audit_events days now batch others d))"
  using audit by (auto simp: purge_audit_events_def Let_def split: option.splits)

lemma scrub_all:
  assumes "\<And>k d. K d \<Longrightarrow> K (others k d)"
  shows "K d \<Longrightarrow> K (snd (scrub_all others k now before as d))"
  by (induction as arbitrary: k d) (simp_all add: split_beta assms scrub)

lemma scrubbed:
  assumes "\<And>k d. K d \<Longrightarrow> K (others k d)" and "K d"
  shows "K (snd (scrub_remediation_evidence days now batch others k d))"
  using assms scrub_all [OF assms(1)] by (auto simp: scrub_remediation_evidence_def Let_def split: option.splits)

text \<open>It is enough that the condition holds when the first delete runs, and that the others keep it.\<close>

lemma round:
  assumes "\<And>k d. K d \<Longrightarrow> K (others k d)" and "K (others 0 d)"
  shows "K (snd (purge s now fresh clock others d))"
  using assms by (simp add: purge_def Let_def split_beta findings events audits scrubbed audit)

end

definition protected_finding :: "stored_finding \<Rightarrow> bool" where
  "protected_finding f \<longleftrightarrow> f_state f \<noteq> RESOLVED \<or> f_resolution f \<noteq> Some RES_AUTO \<or> f_suppressed_at f \<noteq> None"

definition finding_kept :: "nat \<Rightarrow> evidence \<Rightarrow> bool" where
  "finding_kept i d \<longleftrightarrow> distinct (map f_id (e_findings d)) \<and> (\<exists>f \<in> set (e_findings d). f_id f = i \<and> protected_finding f)"

definition trail_kept :: "nat \<Rightarrow> stored_event list \<Rightarrow> remediation_action list \<Rightarrow> evidence \<Rightarrow> bool" where
  "trail_kept i es as d \<longleftrightarrow>
     distinct (map f_id (e_findings d)) \<and> (\<exists>f \<in> set (e_findings d). f_id f = i \<and> f_state f = OPEN) \<and>
     (\<forall>e \<in> set es. ev_finding_id e = i \<and> e \<in> set (e_events d)) \<and>
     (\<forall>a \<in> set as. ra_finding_id a = i \<and> a \<in> set (e_actions d))"

lemma purgeable_unprotected: "purgeable_finding before f \<Longrightarrow> \<not> protected_finding f"
  by (auto simp: purgeable_finding_def protected_finding_def PURGEABLE_RESOLUTIONS_def split: option.splits)

lemma delete_keeps_ids:
  "distinct (map f_id (e_findings d)) \<Longrightarrow> distinct (map f_id (e_findings (snd (delete_findings P d))))"
  by (simp add: delete_findings_def Let_def distinct_map_filter)

text \<open>The cascade reaches no row of a finding that stays.\<close>

lemma cascade_spares:
  assumes "distinct (map f_id (e_findings d))" and "f \<in> set (e_findings d)" and "\<not> P f"
  shows "f_id f \<notin> set (map f_id (filter P (e_findings d)))"
  using distinct_key_unique [OF assms(1,2)] assms(3) by auto

interpretation row: spared_by_purge "finding_kept i" for i
proof unfold_locales
  fix d ids before
  assume "finding_kept i d"
  then show "finding_kept i (snd (delete_findings (\<lambda>f. f_id f \<in> set ids \<and> purgeable_finding before f) d))"
    using purgeable_unprotected
    by (auto simp: finding_kept_def delete_keeps_ids) (auto simp: delete_findings_def Let_def)
qed (simp_all add: finding_kept_def scrub_one_def Let_def)

interpretation trail: spared_by_purge "trail_kept i es as" for i es as
proof unfold_locales
  fix d ids before
  let ?P = "\<lambda>f. f_id f \<in> set ids \<and> purgeable_finding before f"
  assume K: "trail_kept i es as d"
  then obtain f where f: "f \<in> set (e_findings d)" "f_id f = i" "f_state f = OPEN" and "distinct (map f_id (e_findings d))"
    by (auto simp: trail_kept_def)
  moreover have "\<not> ?P f" using f(3) by (simp add: purgeable_finding_def)
  ultimately have "i \<notin> set (map f_id (filter ?P (e_findings d)))" using cascade_spares [of d f ?P] by simp
  then show "trail_kept i es as (snd (delete_findings ?P d))"
    using K f \<open>\<not> ?P f\<close> unfolding trail_kept_def
    by (intro conjI delete_keeps_ids) (auto simp: delete_findings_def Let_def)
next
  fix d ids before
  assume K: "trail_kept i es as d"
  then have "i \<in> still_open d" by (auto simp: trail_kept_def still_open_def)
  then show "trail_kept i es as (d\<lparr>e_events := filter (\<lambda>e. \<not> (ev_id e \<in> set ids \<and> purgeable_event before d e)) (e_events d)\<rparr>)"
    using K by (auto simp: trail_kept_def purgeable_event_def)
next
  fix d now before a
  assume K: "trail_kept i es as d"
  then have "i \<notin> long_resolved before d"
    using distinct_key_unique [of f_id "e_findings d"] by (force simp: trail_kept_def long_resolved_def)
  then show "trail_kept i es as (snd (scrub_one now before a d))"
    using K by (auto simp: trail_kept_def scrub_one_def Let_def table_simps image_iff)
qed (simp add: trail_kept_def)

text \<open>With every window at zero a round deletes nothing and leaves no trace.\<close>

lemma purge_disabled:
  assumes "retention_resolved_findings_days s = 0" and "retention_finding_events_days s = 0"
    and "retention_audit_events_days s = 0" and "retention_remediation_evidence_days s = 0"
  shows "purge s now fresh clock (\<lambda>_ d. d) d =
    (\<lparr>pr_findings = 0, pr_finding_events = 0, pr_audit_events = 0, pr_remediation_evidence_scrubbed = 0\<rparr>, d)"
  using assms by (simp add: purge_def cutoff_def purge_total_def purge_findings_def purge_finding_events_def
      purge_audit_events_def scrub_remediation_evidence_def)

lemma purge_is_audited:
  "let (r, d') = purge s now fresh clock others d
   in purge_total r \<noteq> 0 \<longrightarrow> e_audits d' \<noteq> [] \<and> last (e_audits d') = purge_audit s r fresh clock"
  by (simp add: purge_def Let_def split_beta)

text \<open>
  C37.  A retention round never deletes the row of a finding that is open, that an analyst decided
  about, or that is suppressed, and never deletes an event or alters a remediation action of an
  open finding.  This holds against every interleaving: a finding that another transaction re-opens
  after the round selected it for deletion, and before it deletes, is spared too.  A round that
  removed anything ends with an audit row that carries its counts and its windows.
\<close>

theorem retention_spares_live_evidence:
  assumes "\<And>k d. finding_kept i d \<Longrightarrow> finding_kept i (others k d)" and "finding_kept i (others 0 d)"
    and "\<And>k d. trail_kept j es as d \<Longrightarrow> trail_kept j es as (others k d)" and "trail_kept j es as (others 0 d)"
  shows "finding_kept i (snd (purge s now fresh clock others d)) \<and>
    trail_kept j es as (snd (purge s now fresh clock others d)) \<and>
    (let (r, d') = purge s now fresh clock others d
     in purge_total r \<noteq> 0 \<longrightarrow> e_audits d' \<noteq> [] \<and> last (e_audits d') = purge_audit s r fresh clock)"
  using row.round [of i others d, OF assms(1,2)] trail.round [of j es as others d, OF assms(3,4)] purge_is_audited by blast

definition demo_row :: "nat \<Rightarrow> finding_resolution option \<Rightarrow> int option \<Rightarrow> stored_finding" where
  "demo_row i res suppressed =
     finding.extend
       (demo_finding\<lparr>f_id := i, f_state := (if res = None then OPEN else RESOLVED), f_resolution := res,
                       f_suppressed_at := suppressed\<rparr>)
       (stored_finding.fields 0)"

definition demo_evidence :: evidence where
  "demo_evidence =
     \<lparr>e_findings = [demo_row 1 (Some RES_AUTO) None, demo_row 2 (Some RES_AUTO) None,
                    demo_row 3 (Some RES_MANUAL) None, demo_row 4 (Some RES_AUTO) (Some 7)],
      e_events = map (\<lambda>i. \<lparr>ev_finding_id = i, ev_actor_id = None, ev_scan_id = Some 9, ev_kind = STATE_CHANGE,
                           ev_from_value = None, ev_to_value = None, ev_comment = None, ev_id = i + 10, ev_created_at = 0\<rparr>) [1, 2, 3],
      e_audits = [], e_actions = [], e_deliveries = []\<rparr>"

definition demo_reopen :: "nat \<Rightarrow> evidence \<Rightarrow> evidence" where
  "demo_reopen k d =
     (if k = 0
      then d\<lparr>e_findings := update_where (\<lambda>f. f_id f = 2) (\<lambda>f. f\<lparr>f_state := OPEN, f_resolution := None\<rparr>) (e_findings d)\<rparr>
      else d)"

lemma demo_reopen_keeps [simp]:
  "map f_id (e_findings (demo_reopen k d)) = map f_id (e_findings d)"
  "e_events (demo_reopen k d) = e_events d" "e_actions (demo_reopen k d) = e_actions d"
  by (auto simp: demo_reopen_def update_where_def)

lemma demo_reopen_row:
  assumes "f \<in> set (e_findings d)"
  obtains g where "g \<in> set (e_findings (demo_reopen k d))" and "f_id g = f_id f"
    and "g = f \<or> f_state g = OPEN"
proof (cases "k = 0 \<and> f_id f = 2")
  case True
  then have "f\<lparr>f_state := OPEN, f_resolution := None\<rparr> \<in> set (e_findings (demo_reopen k d))"
    using assms by (force simp: demo_reopen_def table_simps image_iff)
  then show ?thesis by (rule that) simp_all
next
  case False
  then have "f \<in> set (e_findings (demo_reopen k d))"
    using assms by (force simp: demo_reopen_def table_simps image_iff)
  then show ?thesis by (rule that) simp_all
qed

theorem retention_spares_live_evidence_witness:
  "(let (r, d') = purge \<lparr>retention_resolved_findings_days = 30, retention_finding_events_days = 30,
        retention_audit_events_days = 0, retention_remediation_evidence_days = 0, retention_batch_size = 100\<rparr>
        (90 * DAY) 77 (90 * DAY) demo_reopen demo_evidence
    in map f_id (e_findings d') = [2, 3, 4] \<and> map ev_finding_id (e_events d') = [2] \<and>
       finding_kept 3 d' \<and> trail_kept 2 [e_events demo_evidence ! 1] [] d' \<and>
       pr_findings r = 1 \<and> pr_finding_events r = 1 \<and> length (e_audits d') = 1)"
proof -
  have row: "finding_kept 3 (demo_reopen k d)" if "finding_kept 3 d" for k d
  proof -
    from that obtain f where f: "f \<in> set (e_findings d)" "f_id f = 3" "protected_finding f" by (auto simp: finding_kept_def)
    obtain g where g: "g \<in> set (e_findings (demo_reopen k d))" "f_id g = f_id f" "g = f \<or> f_state g = OPEN"
      by (rule demo_reopen_row [OF f(1)])
    then have "protected_finding g" using f(3) by (auto simp: protected_finding_def)
    then show ?thesis using g(1,2) f(2) that unfolding finding_kept_def demo_reopen_keeps by metis
  qed
  have trail: "trail_kept 2 es [] (demo_reopen k d)" if "trail_kept 2 es [] d" for k d es
  proof -
    from that obtain f where f: "f \<in> set (e_findings d)" "f_id f = 2" "f_state f = OPEN" by (auto simp: trail_kept_def)
    obtain g where g: "g \<in> set (e_findings (demo_reopen k d))" "f_id g = f_id f" "g = f \<or> f_state g = OPEN"
      by (rule demo_reopen_row [OF f(1)])
    then have "f_id g = 2 \<and> f_state g = OPEN" using f(2,3) by metis
    then show ?thesis using g(1) that unfolding trail_kept_def demo_reopen_keeps by blast
  qed
  let ?s = "\<lparr>retention_resolved_findings_days = 30, retention_finding_events_days = 30,
    retention_audit_events_days = 0, retention_remediation_evidence_days = 0, retention_batch_size = 100\<rparr>"
  let ?p = "purge ?s (90 * DAY) 77 (90 * DAY) demo_reopen demo_evidence" and ?es = "[e_events demo_evidence ! 1]"
  have start: "finding_kept 3 (demo_reopen 0 demo_evidence)" "trail_kept 2 ?es [] (demo_reopen 0 demo_evidence)"
    by (simp_all add: finding_kept_def trail_kept_def demo_reopen_def demo_evidence_def demo_row_def demo_finding_def
        protected_finding_def finding.defs stored_finding.defs)
  have "finding_kept 3 (snd ?p) \<and> trail_kept 2 ?es [] (snd ?p)"
    using retention_spares_live_evidence [of 3 demo_reopen demo_evidence 2 ?es "[]" ?s "90 * DAY" 77 "90 * DAY", OF row start(1) trail start(2)]
    by blast
  moreover have "map f_id (e_findings (snd ?p)) = [2, 3, 4]" by code_simp
  moreover have "map ev_finding_id (e_events (snd ?p)) = [2]" by code_simp
  moreover have "pr_findings (fst ?p) = 1" by code_simp
  moreover have "pr_finding_events (fst ?p) = 1" by code_simp
  moreover have "length (e_audits (snd ?p)) = 1" by code_simp
  ultimately show ?thesis unfolding Let_def split_beta by blast
qed

end
