(* ===== verification/Scheduler.thy ===== *)
theory Scheduler
  imports Control_Plane
begin

text \<open>
  The cron scheduler: \<^verbatim>\<open>apps/api/src/iceberg_api/scheduler.py\<close> and the launcher it is given,
  \<^verbatim>\<open>scheduler_launcher.py\<close>.  The package croniter is a parameter, the function from an expression
  and an instant to the next instant it fires.  The clock a launch reads is a parameter too: a
  tick does not hand its own instant on.
\<close>

section \<open>The tick\<close>

record tick_result =
  was_leader :: bool
  fired :: "nat list"
  skipped :: "nat list"

definition next_fire_time :: "(pystr \<Rightarrow> int \<Rightarrow> int) \<Rightarrow> pystr \<Rightarrow> int \<Rightarrow> int" where
  "next_fire_time croniter cron after = croniter cron after"

definition due_schedules :: "db \<Rightarrow> int \<Rightarrow> schedule list" where
  "due_schedules d now =
     filter (\<lambda>s. case sch_next_run_at s of None \<Rightarrow> True | Some t \<Rightarrow> t \<le> now) (filter sch_enabled (schedules d))"

definition advance :: "(pystr \<Rightarrow> int \<Rightarrow> int) \<Rightarrow> int \<Rightarrow> schedule \<Rightarrow> schedule" where
  "advance croniter now s =
     s\<lparr>sch_last_run_at := Some now, sch_next_run_at := Some (next_fire_time croniter (sch_cron s) now)\<rparr>"

text \<open>A launcher that raises (\<open>Inl\<close>) leaves its schedule as it was and the round goes on.\<close>

fun tick_loop ::
  "(pystr \<Rightarrow> int \<Rightarrow> int) \<Rightarrow> (nat \<Rightarrow> scan_mode \<Rightarrow> db \<Rightarrow> ('e + nat option) \<times> db) \<Rightarrow> int \<Rightarrow> schedule list \<Rightarrow> db \<Rightarrow>
   nat list \<times> nat list \<times> db" where
  "tick_loop croniter launcher now [] d = ([], [], d)"
| "tick_loop croniter launcher now (s # ss) d =
     (case launcher (sch_source_id s) (sch_mode s) d of
        (Inl e, d1) \<Rightarrow> (case tick_loop croniter launcher now ss d1 of (f, k, d2) \<Rightarrow> (f, sch_id s # k, d2))
      | (Inr scan_id, d1) \<Rightarrow>
          (case tick_loop croniter launcher now ss
                  (d1\<lparr>schedules := update_where (\<lambda>x. sch_id x = sch_id s) (advance croniter now) (schedules d1)\<rparr>)
           of (f, k, d2) \<Rightarrow> (sch_id s # f, k, d2)))"

definition tick ::
  "(pystr \<Rightarrow> int \<Rightarrow> int) \<Rightarrow> (nat \<Rightarrow> scan_mode \<Rightarrow> db \<Rightarrow> ('e + nat option) \<times> db) \<Rightarrow> (db \<Rightarrow> bool) \<Rightarrow> int \<Rightarrow> db \<Rightarrow>
   tick_result \<times> db" where
  "tick croniter launcher lock now d =
     (if \<not> lock d then (\<lparr>was_leader = False, fired = [], skipped = []\<rparr>, d)
      else
        case tick_loop croniter launcher now (due_schedules d now) d of
          (f, k, d') \<Rightarrow> (\<lparr>was_leader = True, fired = f, skipped = k\<rparr>, d'))"

section \<open>The launcher\<close>

text \<open>No store, a store that cannot be read, and a store with or without a previous pepper.\<close>

datatype pepper_read = NoStore | SecretStoreError | PreviousPepper "pystr option"

definition pepper_rotating :: "pepper_read \<Rightarrow> bool" where
  "pepper_rotating store =
     (case store of NoStore \<Rightarrow> True | SecretStoreError \<Rightarrow> True | PreviousPepper p \<Rightarrow> p \<noteq> None)"

datatype launch_exception = NoResultFoundError

definition build_launcher ::
  "(json \<Rightarrow> pystr) \<Rightarrow> (nat \<Rightarrow> bool) \<Rightarrow> pepper_read \<Rightarrow> (db \<Rightarrow> int) \<Rightarrow> nat \<Rightarrow> scan_mode \<Rightarrow> db \<Rightarrow>
   (launch_exception + nat option) \<times> db" where
  "build_launcher py_str accepts store clock source_id mode d =
     (case get_row src_id source_id (sources d) of
        None \<Rightarrow> (Inr None, d)
      | Some src \<Rightarrow>
          if \<not> src_enabled src then (Inr None, d)
          else
            (case launch_scan accepts (src_id src) SCHEDULED mode (fleet_rulepack_version py_str d)
                    (pepper_rotating store) (clock d) d of
               (ScanConflict, d') \<Rightarrow> (Inr None, d')
             | (NoResultFound, d') \<Rightarrow> (Inl NoResultFoundError, d')
             | (Launched i, d') \<Rightarrow> (Inr (Some i), d')))"

section \<open>Any launcher\<close>

text \<open>What the tick relies on: a launcher does not touch the schedules.\<close>

locale schedule_launcher =
  fixes launcher :: "nat \<Rightarrow> scan_mode \<Rightarrow> db \<Rightarrow> ('e + nat option) \<times> db"
  assumes keeps_schedules: "schedules (snd (launcher i m d)) = schedules d"
begin

lemma loop_schedules:
  "schedules (snd (snd (tick_loop croniter launcher now ss d))) =
     map (\<lambda>x. if sch_id x \<in> set (fst (tick_loop croniter launcher now ss d)) then advance croniter now x else x) (schedules d)"
proof (induction ss arbitrary: d)
  case (Cons s ss)
  obtain r d1 where l: "launcher (sch_source_id s) (sch_mode s) d = (r, d1)" by fastforce
  then have d1: "schedules d1 = schedules d" using keeps_schedules [of "sch_source_id s" "sch_mode s" d] by simp
  show ?case
  proof (cases r)
    case (Inl e)
    then show ?thesis using Cons.IH [of d1] by (simp add: l d1 split_beta)
  next
    case (Inr i)
    then show ?thesis
      using Cons.IH [of "d1\<lparr>schedules := update_where (\<lambda>x. sch_id x = sch_id s) (advance croniter now) (schedules d1)\<rparr>"]
      by (auto simp: l d1 split_beta update_where_def advance_def)
  qed
qed simp

lemma loop_outcomes:
  "set (fst (tick_loop croniter launcher now ss d)) \<union> set (fst (snd (tick_loop croniter launcher now ss d))) = sch_id ` set ss"
proof (induction ss arbitrary: d)
  case (Cons s ss)
  show ?case
    using Cons.IH by (cases "launcher (sch_source_id s) (sch_mode s) d"; cases "fst (launcher (sch_source_id s) (sch_mode s) d)")
      (auto simp: split_beta)
qed simp

text \<open>A schedule that fired is no longer due; one that was skipped is due still, unchanged.\<close>

lemma tick_schedules:
  assumes "\<And>c t. t < croniter c t" and "tick croniter launcher lock now d = (r, d')" and "x \<in> set (schedules d)"
  shows "if sch_id x \<in> set (fired r) then advance croniter now x \<in> set (schedules d') else x \<in> set (schedules d')"
  using assms loop_schedules [of croniter now "due_schedules d now" d]
  by (auto simp: tick_def split_beta split: if_splits)

lemma tick_due:
  assumes "\<And>c t. t < croniter c t" and "tick croniter launcher lock now d = (r, d')" and "lock d"
  shows "sch_id ` set (due_schedules d' now) \<subseteq> set (skipped r)"
proof
  fix i
  assume "i \<in> sch_id ` set (due_schedules d' now)"
  then obtain y where y: "y \<in> set (due_schedules d' now)" "i = sch_id y" by blast
  let ?l = "tick_loop croniter launcher now (due_schedules d now) d"
  have r: "fired r = fst ?l" "skipped r = fst (snd ?l)" "d' = snd (snd ?l)"
    using assms(2,3) by (auto simp: tick_def split_beta)
  have "y \<in> set (schedules d')" using y(1) by (simp add: due_schedules_def)
  then obtain x where x: "x \<in> set (schedules d)" "y = (if sch_id x \<in> set (fired r) then advance croniter now x else x)"
    using loop_schedules [of croniter now "due_schedules d now" d] by (auto simp: r)
  have "sch_id x \<notin> set (fired r)"
    using y(1) assms(1) [of now "sch_cron x"] unfolding x(2) by (auto simp: due_schedules_def advance_def next_fire_time_def split: if_splits)
  then have "x \<in> set (due_schedules d now)" "i = sch_id x" using x y by (auto simp: due_schedules_def)
  then show "i \<in> set (skipped r)"
    using loop_outcomes [of croniter now "due_schedules d now" d] \<open>sch_id x \<notin> set (fired r)\<close> by (auto simp: r)
qed

end

section \<open>The launcher of the control plane\<close>

lemma launch_scan_frame:
  "schedules (snd (launch_scan acc i tr m v rot now d)) = schedules d \<and>
   sources (snd (launch_scan acc i tr m v rot now d)) = sources d \<and>
   (\<exists>new. scans (snd (launch_scan acc i tr m v rot now d)) = scans d @ new)"
proof (cases "get_row src_id i (sources d)")
  case (Some src)
  obtain pl d1 where p: "plan_mode src m v rot now d = (pl, d1)" by fastforce
  have d1: "schedules d1 = schedules d \<and> sources d1 = sources d \<and> scans d1 = scans d"
    using plan_mode_frame [of src m v rot now d] by (metis db.ext_inject db.surjective db.update_convs(2) p snd_conv)
  then show ?thesis
    by (auto simp: launch_scan_def Some p Let_def new_id_def broker_enqueue_def)
qed (simp add: launch_scan_def)

lemma launch_scan_active:
  assumes "get_row src_id i (sources d) = Some src"
  shows "fst (launch_scan acc i tr m v rot now d) \<noteq> NoResultFound \<and>
    (\<exists>x \<in> set (scans (snd (launch_scan acc i tr m v rot now d))). s_source_id x = src_id src \<and> active_scan x)"
proof -
  obtain pl d1 where p: "plan_mode src m v rot now d = (pl, d1)" by fastforce
  show ?thesis
    using assms by (auto simp: launch_scan_def p Let_def new_id_def broker_enqueue_def list_ex_iff new_scan_def active_scan_def
        ACTIVE_SCAN_STATUSES_def split: prod.split)
qed

lemma launcher_cases:
  obtains (launched) src where "get_row src_id i (sources d) = Some src" and "src_enabled src" and
      "snd (build_launcher py_str accepts store clock i m d) =
         snd (launch_scan accepts (src_id src) SCHEDULED m (fleet_rulepack_version py_str d) (pepper_rotating store) (clock d) d)"
  | (declined) "snd (build_launcher py_str accepts store clock i m d) = d"
      and "\<And>src. get_row src_id i (sources d) = Some src \<Longrightarrow> \<not> src_enabled src"
proof (cases "get_row src_id i (sources d)")
  case None
  then show ?thesis using that(2) by (simp add: build_launcher_def)
next
  case (Some src)
  then show ?thesis
    using that by (cases "src_enabled src") (auto simp: build_launcher_def split: prod.splits launch_outcome.splits)
qed

lemma launcher_frame:
  "schedules (snd (build_launcher py_str accepts store clock i m d)) = schedules d \<and>
   sources (snd (build_launcher py_str accepts store clock i m d)) = sources d \<and>
   set (scans d) \<subseteq> set (scans (snd (build_launcher py_str accepts store clock i m d)))"
proof (cases rule: launcher_cases [of i d py_str accepts store clock m])
  case (launched src)
  obtain new where "scans (snd (launch_scan accepts (src_id src) SCHEDULED m (fleet_rulepack_version py_str d)
      (pepper_rotating store) (clock d) d)) = scans d @ new"
    using launch_scan_frame by blast
  then show ?thesis unfolding launched(3) using launch_scan_frame by simp
next
  case declined
  then show ?thesis by simp
qed

lemma keeps_launcher: "keeps d (snd (build_launcher py_str accepts store clock i m d))"
  by (cases rule: launcher_cases [of i d py_str accepts store clock m]) (simp_all add: keeps_launch_scan)

interpretation launcher: schedule_launcher "build_launcher py_str accepts store clock" for py_str accepts store clock
  by unfold_locales (simp add: launcher_frame)

text \<open>It never raises, and it leaves an enabled source with an active scan.\<close>

lemma launcher_result:
  "\<exists>o'. fst (build_launcher py_str accepts store clock i m d) = Inr o'"
proof (cases "get_row src_id i (sources d)")
  case (Some src)
  then have "fst (launch_scan accepts (src_id src) SCHEDULED m (fleet_rulepack_version py_str d) (pepper_rotating store) (clock d) d) \<noteq> NoResultFound"
    using launch_scan_active [of "src_id src" d src] get_row_Some [OF Some] by simp
  then show ?thesis using Some by (auto simp: build_launcher_def split: prod.splits launch_outcome.splits)
qed (simp add: build_launcher_def)

lemma launcher_active:
  assumes "get_row src_id i (sources d) = Some src" and "src_enabled src"
  shows "\<exists>x \<in> set (scans (snd (build_launcher py_str accepts store clock i m d))). s_source_id x = i \<and> active_scan x"
proof (cases rule: launcher_cases [of i d py_str accepts store clock m])
  case (launched src')
  then show ?thesis
    using launch_scan_active [of "src_id src'" d src'] get_row_Some [OF launched(1)] unfolding launched(3) by auto
next
  case declined
  then show ?thesis using assms by blast
qed

abbreviation launch_loop where
  "launch_loop croniter py_str accepts store clock \<equiv> tick_loop croniter (build_launcher py_str accepts store clock)"

lemma loop_step:
  "launch_loop croniter py_str accepts store clock now (s # ss) d =
     (let d1 = snd (build_launcher py_str accepts store clock (sch_source_id s) (sch_mode s) d);
          l = launch_loop croniter py_str accepts store clock now ss
                (d1\<lparr>schedules := update_where (\<lambda>x. sch_id x = sch_id s) (advance croniter now) (schedules d1)\<rparr>)
      in (sch_id s # fst l, fst (snd l), snd (snd l)))"
proof -
  obtain i where "fst (build_launcher py_str accepts store clock (sch_source_id s) (sch_mode s) d) = Inr i"
    using launcher_result by blast
  then show ?thesis
    by (cases "build_launcher py_str accepts store clock (sch_source_id s) (sch_mode s) d") (simp add: Let_def split_beta)
qed

lemma loop_fires_all:
  "fst (launch_loop croniter py_str accepts store clock now ss d) = map sch_id ss \<and>
   fst (snd (launch_loop croniter py_str accepts store clock now ss d)) = []"
  by (induction ss arbitrary: d) (simp_all add: loop_step Let_def del: tick_loop.simps(2))

lemma keeps_schedules [simp]: "keeps d (d\<lparr>schedules := xs\<rparr>)"
  by (rule keeps_frame) (simp_all add: draws_def)

lemma keeps_loop: "keeps d (snd (snd (launch_loop croniter py_str accepts store clock now ss d)))"
proof (induction ss arbitrary: d)
  case (Cons s ss)
  show ?case
    unfolding loop_step Let_def snd_conv
    by (rule keeps_trans [OF keeps_trans [OF keeps_launcher keeps_schedules] Cons.IH])
qed simp

lemma loop_launches:
  "set (scans d) \<subseteq> set (scans (snd (snd (launch_loop croniter py_str accepts store clock now ss d)))) \<and>
   (\<forall>s \<in> set ss. \<forall>src. get_row src_id (sch_source_id s) (sources d) = Some src \<longrightarrow> src_enabled src \<longrightarrow>
      (\<exists>x \<in> set (scans (snd (snd (launch_loop croniter py_str accepts store clock now ss d)))).
         s_source_id x = sch_source_id s \<and> active_scan x))"
proof (induction ss arbitrary: d)
  case (Cons s ss)
  let ?d1 = "snd (build_launcher py_str accepts store clock (sch_source_id s) (sch_mode s) d)"
  let ?d2 = "?d1\<lparr>schedules := update_where (\<lambda>x. sch_id x = sch_id s) (advance croniter now) (schedules ?d1)\<rparr>"
  have f: "sources ?d2 = sources d" "set (scans d) \<subseteq> set (scans ?d2)" using launcher_frame by simp_all
  have e: "snd (snd (launch_loop croniter py_str accepts store clock now (s # ss) d)) =
      snd (snd (launch_loop croniter py_str accepts store clock now ss ?d2))"
    unfolding loop_step Let_def snd_conv ..
  have a: "\<exists>x \<in> set (scans ?d2). s_source_id x = sch_source_id s \<and> active_scan x"
    if "get_row src_id (sch_source_id s) (sources d) = Some src" "src_enabled src" for src
    using launcher_active [OF that] by simp
  show ?case unfolding e using Cons.IH [of ?d2] f a by fastforce
qed simp

section \<open>Properties\<close>

lemma tick_leads:
  "tick croniter (build_launcher py_str accepts store clock) lock now d =
     (if lock d
      then (\<lparr>was_leader = True, fired = map sch_id (due_schedules d now), skipped = []\<rparr>,
            snd (snd (launch_loop croniter py_str accepts store clock now (due_schedules d now) d)))
      else (\<lparr>was_leader = False, fired = [], skipped = []\<rparr>, d))"
  using loop_fires_all [of croniter py_str accepts store clock now "due_schedules d now" d]
  by (cases "launch_loop croniter py_str accepts store clock now (due_schedules d now) d") (auto simp: tick_def)

text \<open>
  C38.  A tick of the leader fires every due schedule, skips none, and leaves each enabled source
  with a due schedule with an active scan; what the control plane promises of scans and tasks,
  among it one active scan per source, still holds.  No schedule is due afterwards, so a second
  tick at the same instant, from whichever replica, changes nothing: a due schedule fires once.
  croniter is only relied on to answer an instant later than the one it is asked about.
\<close>

theorem due_schedules_fire_once:
  assumes "\<And>c t. t < croniter c t" and "lock d" and "plane_ok d"
    and "tick croniter (build_launcher py_str accepts store clock) lock now d = (r, d')"
  shows "fired r = map sch_id (due_schedules d now) \<and> skipped r = [] \<and> plane_ok d' \<and>
    (\<forall>s \<in> set (due_schedules d now). \<forall>src. get_row src_id (sch_source_id s) (sources d) = Some src \<longrightarrow> src_enabled src \<longrightarrow>
       (\<exists>x \<in> set (scans d'). s_source_id x = sch_source_id s \<and> active_scan x)) \<and>
    due_schedules d' now = [] \<and>
    snd (tick croniter (build_launcher py_str accepts store clock) lock' now d') = d'"
proof -
  have r: "fired r = map sch_id (due_schedules d now)" "skipped r = []"
    and d': "d' = snd (snd (launch_loop croniter py_str accepts store clock now (due_schedules d now) d))"
    using assms(2,4) by (auto simp: tick_leads)
  have "due_schedules d' now = []" using launcher.tick_due [OF assms(1,4,2)] r(2) by simp
  moreover have "plane_ok d'" using keeps_loop assms(3) unfolding d' keeps_def by blast
  moreover have "snd (tick croniter (build_launcher py_str accepts store clock) lock' now d') = d'"
    unfolding tick_leads calculation(1) by simp
  ultimately show ?thesis using r loop_launches unfolding d' by blast
qed

definition demo_schedules :: db where
  "demo_schedules = demo_idle\<lparr>schedules :=
     [\<lparr>sch_id = 1, sch_source_id = 5, sch_cron = cps ''0 3 * * *'', sch_enabled = True, sch_mode = FULL,
       sch_next_run_at = None, sch_last_run_at = None\<rparr>,
      \<lparr>sch_id = 2, sch_source_id = 5, sch_cron = cps ''0 4 * * *'', sch_enabled = True, sch_mode = FULL,
       sch_next_run_at = Some 99, sch_last_run_at = None\<rparr>]\<rparr>"

theorem due_schedules_fire_once_witness:
  "(let (r, d') = tick (\<lambda>c t. t + 60) (build_launcher (\<lambda>_. []) (\<lambda>_. True) NoStore (\<lambda>_. 50)) (\<lambda>_. True) 50 demo_schedules
    in fired r = [1] \<and> due_schedules d' 50 = [] \<and> map s_source_id (scans d') = [5] \<and>
       map sch_next_run_at (schedules d') = [Some 110, Some 99] \<and>
       snd (tick (\<lambda>c t. t + 60) (build_launcher (\<lambda>_. []) (\<lambda>_. True) NoStore (\<lambda>_. 50)) (\<lambda>_. True) 50 d') = d')"
proof -
  let ?t = "tick (\<lambda>c t. t + 60) (build_launcher (\<lambda>_. []) (\<lambda>_. True) NoStore (\<lambda>_. 50)) (\<lambda>_. True) 50"
  have ok: "plane_ok demo_schedules" by (simp add: plane_ok_def demo_schedules_def demo_idle_def one_active_def)
  have "due_schedules (snd (?t demo_schedules)) 50 = [] \<and> snd (?t (snd (?t demo_schedules))) = snd (?t demo_schedules)"
    using due_schedules_fire_once [where lock = "\<lambda>_. True" and lock' = "\<lambda>_. True", OF _ _ ok prod.collapse [symmetric]] by simp
  moreover have "fired (fst (?t demo_schedules)) = [1]" by code_simp
  moreover have "map s_source_id (scans (snd (?t demo_schedules))) = [5]" by code_simp
  moreover have "map sch_next_run_at (schedules (snd (?t demo_schedules))) = [Some 110, Some 99]" by code_simp
  ultimately show ?thesis unfolding Let_def split_beta by blast
qed

end
