(* ===== verification/Rate_Limit.thy ===== *)
theory Rate_Limit
  imports Fleet "HOL-Library.AList"
begin

text \<open>
  Rate limiting, \<^verbatim>\<open>apps/api/src/iceberg_api/ratelimit.py\<close>, and the two charges that authenticating an
  engine makes, \<^verbatim>\<open>current_engine\<close> of \<^verbatim>\<open>engines/auth.py\<close>.  Times are whole seconds, as \<open>int(time)\<close> cuts
  them.  The update of the in-memory store runs under its lock and is one step here; the
  clock is read before the lock is taken, so that concurrent hits may be applied with their times out of
  order, which the property about that store excludes.  The Redis client is a parameter: what \<open>INCR\<close>
  answers, and whether it raises.
\<close>

section \<open>Decisions and stores\<close>

record decision =
  dc_allowed :: bool
  dc_limit :: nat
  dc_remaining :: nat
  dc_reset_after :: int

definition decide :: "nat \<Rightarrow> nat \<Rightarrow> int \<Rightarrow> decision" where
  "decide limit hits reset =
     \<lparr>dc_allowed = (hits \<le> limit), dc_limit = limit, dc_remaining = nat (max 0 (int limit - int hits)),
      dc_reset_after = max 1 reset\<rparr>"

text \<open>Each key with the end of its window and its hits.\<close>

type_synonym windows = "(pystr \<times> int \<times> nat) list"

definition SWEEP_THRESHOLD :: nat where "SWEEP_THRESHOLD = 10000"

definition memory_hit :: "int \<Rightarrow> pystr \<Rightarrow> nat \<Rightarrow> int \<Rightarrow> windows \<Rightarrow> decision \<times> windows" where
  "memory_hit now key limit window_seconds ws =
     (let window_start = now - now mod window_seconds;
          expires_at = window_start + window_seconds;
          ws1 = (if length ws \<ge> SWEEP_THRESHOLD then filter (\<lambda>(k, expiry, hits). expiry > now) ws else ws);
          (expiry, hits0) = (case map_of ws1 key of None \<Rightarrow> (0, 0) | Some e \<Rightarrow> e);
          hits = (if expiry > now then hits0 + 1 else 1)
      in (decide limit hits (expires_at - now), AList.update key (expires_at, hits) ws1))"

text \<open>A Redis call answers or raises; the client's state is whatever the server holds.\<close>

type_synonym 'c redis_incr = "pystr \<Rightarrow> 'c \<Rightarrow> nat option \<times> 'c"
type_synonym 'c redis_expire = "pystr \<Rightarrow> int \<Rightarrow> 'c \<Rightarrow> bool \<times> 'c"

definition redis_key :: "pystr \<Rightarrow> int \<Rightarrow> pystr" where
  "redis_key key window_start = cps ''ratelimit:'' @ key @ cps '':'' @ py_digits (nat window_start)"

definition fail_open :: "nat \<Rightarrow> int \<Rightarrow> decision" where
  "fail_open limit window_seconds =
     \<lparr>dc_allowed = True, dc_limit = limit, dc_remaining = limit, dc_reset_after = window_seconds\<rparr>"

definition redis_hit ::
  "'c redis_incr \<Rightarrow> 'c redis_expire \<Rightarrow> int \<Rightarrow> pystr \<Rightarrow> nat \<Rightarrow> int \<Rightarrow> 'c \<Rightarrow> decision \<times> 'c" where
  "redis_hit incr expire now key limit window_seconds c =
     (let window_start = now - now mod window_seconds;
          rk = redis_key key window_start
      in case incr rk c of
           (None, c1) \<Rightarrow> (fail_open limit window_seconds, c1)
         | (Some hits, c1) \<Rightarrow>
             let (answered, c2) = (if hits = 1 then expire rk (window_seconds * 2) c1 else (True, c1)) in
             if \<not> answered then (fail_open limit window_seconds, c2)
             else (decide limit hits (window_start + window_seconds - now), c2))"

section \<open>Who is charged\<close>

fun split_commas :: "pystr \<Rightarrow> pystr list" where
  "split_commas [] = [[]]"
| "split_commas (c # cs) =
     (if c = 44 then [] # split_commas cs
      else case split_commas cs of [] \<Rightarrow> [[c]] | part # parts \<Rightarrow> (c # part) # parts)"

text \<open>The value of \<open>X-Forwarded-For\<close>, if sent, and the peer address, if known.\<close>

record rate_request =
  rq_forwarded_for :: "pystr option"
  rq_peer :: "pystr option"
  rq_authorization :: "pystr option"

definition client_address :: "rate_request \<Rightarrow> nat \<Rightarrow> pystr" where
  "client_address request trusted_proxy_hops =
     (let peer = (case rq_peer request of Some host \<Rightarrow> host | None \<Rightarrow> cps ''unknown'') in
      if trusted_proxy_hops > 0
      then
        let forwarded = (case rq_forwarded_for request of Some v \<Rightarrow> v | None \<Rightarrow> []);
            hops = filter (\<lambda>p. p \<noteq> []) (map py_strip (split_commas forwarded))
        in if length hops \<ge> trusted_proxy_hops then hops ! (length hops - trusted_proxy_hops) else peer
      else peer)"

record rate_settings =
  rate_limit_enabled :: bool
  auth_rate_limit_of :: nat
  auth_rate_limit_window_seconds :: int
  engine_rate_limit :: nat
  engine_rate_limit_window_seconds :: int
  engine_auth_rate_limit :: nat
  trusted_proxy_hops :: nat

section \<open>Charging\<close>

datatype rate_error = TooManyRequests decision | EngineTokenRequired

definition enforce ::
  "(int \<Rightarrow> pystr \<Rightarrow> nat \<Rightarrow> int \<Rightarrow> 's \<Rightarrow> decision \<times> 's) \<Rightarrow> rate_settings \<Rightarrow> pystr \<Rightarrow> pystr \<Rightarrow> nat \<Rightarrow> int \<Rightarrow> int \<Rightarrow> 's \<Rightarrow>
   (rate_error + decision option) \<times> 's" where
  "enforce hit settings bucket identity limit window_seconds now st =
     (if \<not> rate_limit_enabled settings then (Inr None, st)
      else
        let (decision, st') = hit now (bucket @ cps '':'' @ identity) limit window_seconds st
        in if dc_allowed decision then (Inr (Some decision), st') else (Inl (TooManyRequests decision), st'))"

definition auth_rate_limit ::
  "(int \<Rightarrow> pystr \<Rightarrow> nat \<Rightarrow> int \<Rightarrow> 's \<Rightarrow> decision \<times> 's) \<Rightarrow> rate_settings \<Rightarrow> rate_request \<Rightarrow> int \<Rightarrow> 's \<Rightarrow>
   (rate_error + decision option) \<times> 's" where
  "auth_rate_limit hit settings request now st =
     enforce hit settings (cps ''auth'') (client_address request (trusted_proxy_hops settings))
       (auth_rate_limit_of settings) (auth_rate_limit_window_seconds settings) now st"

definition charge_rejection ::
  "(int \<Rightarrow> pystr \<Rightarrow> nat \<Rightarrow> int \<Rightarrow> 's \<Rightarrow> decision \<times> 's) \<Rightarrow> rate_settings \<Rightarrow> rate_request \<Rightarrow> int \<Rightarrow> 's \<Rightarrow>
   (rate_error + decision option) \<times> 's" where
  "charge_rejection hit settings request now st =
     enforce hit settings (cps ''engine-auth'') (client_address request (trusted_proxy_hops settings))
       (engine_auth_rate_limit settings) (engine_rate_limit_window_seconds settings) now st"

definition reject_engine ::
  "(int \<Rightarrow> pystr \<Rightarrow> nat \<Rightarrow> int \<Rightarrow> 's \<Rightarrow> decision \<times> 's) \<Rightarrow> rate_settings \<Rightarrow> rate_request \<Rightarrow> int \<Rightarrow> 's \<Rightarrow>
   (rate_error + engine) \<times> 's" where
  "reject_engine hit settings request now st =
     (case charge_rejection hit settings request now st of
        (Inl e, st') \<Rightarrow> (Inl e, st')
      | (Inr _, st') \<Rightarrow> (Inl EngineTokenRequired, st'))"

definition current_engine ::
  "(pystr \<Rightarrow> pystr) \<Rightarrow> (int \<Rightarrow> pystr \<Rightarrow> nat \<Rightarrow> int \<Rightarrow> 's \<Rightarrow> decision \<times> 's) \<Rightarrow> rate_settings \<Rightarrow> rate_request \<Rightarrow> int \<Rightarrow> db \<Rightarrow> 's \<Rightarrow>
   (rate_error + engine) \<times> 's" where
  "current_engine hash_token hit settings request now d st =
     (case presented_token (rq_authorization request) of
        None \<Rightarrow> reject_engine hit settings request now st
      | Some token \<Rightarrow>
          (case engine_for_token hash_token token d of
             None \<Rightarrow> reject_engine hit settings request now st
           | Some e \<Rightarrow>
               (case enforce hit settings (cps ''engine'') (uuid_str (eng_id e)) (engine_rate_limit settings)
                       (engine_rate_limit_window_seconds settings) now st of
                  (Inl err, st') \<Rightarrow> (Inl err, st')
                | (Inr _, st') \<Rightarrow> (Inr e, st'))))"

section \<open>Fixed windows\<close>

text \<open>A store after a run of hits, with the limit and the window that belong to each key.\<close>

definition after_hits ::
  "(int \<Rightarrow> pystr \<Rightarrow> nat \<Rightarrow> int \<Rightarrow> 's \<Rightarrow> decision \<times> 's) \<Rightarrow> 's \<Rightarrow> (pystr \<Rightarrow> nat) \<Rightarrow> (pystr \<Rightarrow> int) \<Rightarrow> (int \<times> pystr) list \<Rightarrow> 's" where
  "after_hits hit fresh limit_of win rs = fold (\<lambda>(now, key) st. snd (hit now key (limit_of key) (win key) st)) rs fresh"

text \<open>The hits of a key in the window of an instant.\<close>

definition earlier :: "(pystr \<Rightarrow> int) \<Rightarrow> (int \<times> pystr) list \<Rightarrow> pystr \<Rightarrow> int \<Rightarrow> nat" where
  "earlier win rs key t = length (filter (\<lambda>(now, k). k = key \<and> now div win key = t div win key) rs)"

text \<open>
  What a store promises: each key has the hits of its current window, a hit adds one to its own key
  and to no other, and it is allowed while the limit is not exceeded.  \<open>hits_of st key t\<close> is what the
  store counts for the key in the window of the instant \<open>t\<close>.
\<close>

locale fixed_window_store =
  fixes hit :: "int \<Rightarrow> pystr \<Rightarrow> nat \<Rightarrow> int \<Rightarrow> 's \<Rightarrow> decision \<times> 's"
    and hits_of :: "'s \<Rightarrow> pystr \<Rightarrow> int \<Rightarrow> nat"
    and ok :: "'s \<Rightarrow> bool"
    and fresh :: 's
  assumes fresh_ok: "ok fresh" and fresh_hits: "hits_of fresh key t = 0"
    and hit_ok: "ok st \<Longrightarrow> ok (snd (hit now key limit w st))"
    and hit_decides: "ok st \<Longrightarrow> dc_allowed (fst (hit now key limit w st)) \<longleftrightarrow> hits_of st key now < limit"
    and hit_counts: "ok st \<Longrightarrow> 0 < w \<Longrightarrow> now \<le> t \<Longrightarrow>
      hits_of (snd (hit now key limit w st)) key' t =
        (if key' = key then (if t div w = now div w then hits_of st key now + 1 else 0) else hits_of st key' t)"
begin

lemma earlier_snoc:
  "earlier win (rs @ [(now, k)]) key t = earlier win rs key t + (if k = key \<and> now div win key = t div win key then 1 else 0)"
  by (simp add: earlier_def)

lemma earlier_same: "t div win key = t' div win key \<Longrightarrow> earlier win rs key t = earlier win rs key t'"
  by (simp add: earlier_def)

lemma earlier_none:
  assumes "0 < win key" and "\<forall>r \<in> set rs. fst r \<le> now" and "now \<le> t" and "t div win key \<noteq> now div win key"
  shows "earlier win rs key t = 0"
proof -
  have "fst r div win key \<noteq> t div win key" if "r \<in> set rs" for r
  proof -
    have "fst r div win key \<le> now div win key" using assms(1,2) that by (simp add: zdiv_mono1)
    moreover have "now div win key \<le> t div win key" using assms(1,3) by (simp add: zdiv_mono1)
    ultimately show ?thesis using assms(4) by linarith
  qed
  then show ?thesis by (auto simp: earlier_def filter_empty_conv)
qed

lemma after_hits_counts:
  assumes "\<And>k. 0 < win k"
  shows "sorted (map fst rs) \<Longrightarrow>
    ok (after_hits hit fresh limit_of win rs) \<and>
    (\<forall>key t. (\<forall>r \<in> set rs. fst r \<le> t) \<longrightarrow> hits_of (after_hits hit fresh limit_of win rs) key t = earlier win rs key t)"
proof (induction rs rule: rev_induct)
  case Nil
  then show ?case by (simp add: after_hits_def earlier_def fresh_ok fresh_hits)
next
  case (snoc r rs)
  obtain now k where r: "r = (now, k)" by fastforce
  have past: "\<forall>x \<in> set rs. fst x \<le> now" using snoc.prems by (auto simp: r sorted_append)
  let ?st = "after_hits hit fresh limit_of win rs"
  have IH: "ok ?st" "\<And>key t. \<forall>x \<in> set rs. fst x \<le> t \<Longrightarrow> hits_of ?st key t = earlier win rs key t"
    using snoc by (auto simp: sorted_append)
  have e: "after_hits hit fresh limit_of win (rs @ [r]) = snd (hit now k (limit_of k) (win k) ?st)" by (simp add: after_hits_def r)
  have "hits_of (snd (hit now k (limit_of k) (win k) ?st)) key t = earlier win (rs @ [(now, k)]) key t"
    if t: "now \<le> t" "\<forall>x \<in> set rs. fst x \<le> t" for key t
    using hit_counts [OF IH(1) assms [of k] t(1), of k "limit_of k" key] IH(2) [OF past, of k] IH(2) [OF t(2), of key]
      earlier_same [of t win k now rs] earlier_none [of win k rs now t, OF assms past t(1)]
    by (auto simp: earlier_snoc)
  then show ?case unfolding e using hit_ok [OF IH(1)] by (simp add: r)
qed

lemma hit_exact:
  assumes "\<And>k. 0 < win k" and "sorted (map fst rs)" and "\<forall>r \<in> set rs. fst r \<le> now"
  shows "dc_allowed (fst (hit now key (limit_of key) (win key) (after_hits hit fresh limit_of win rs))) \<longleftrightarrow> earlier win rs key now < limit_of key"
  using after_hits_counts [OF assms(1,2), of limit_of] assms(3) hit_decides by simp

end

section \<open>The in-memory store\<close>

definition memory_hits :: "windows \<Rightarrow> pystr \<Rightarrow> int \<Rightarrow> nat" where
  "memory_hits ws key t = (case map_of ws key of None \<Rightarrow> 0 | Some (expiry, n) \<Rightarrow> if expiry > t then n else 0)"

lemma map_of_filter_distinct:
  assumes "distinct (map fst xs)"
  shows "map_of (filter P xs) k = (case map_of xs k of None \<Rightarrow> None | Some v \<Rightarrow> if P (k, v) then Some v else None)"
  using assms by (induction xs) (auto split: option.splits dest: map_of_SomeD simp: image_iff weak_map_of_SomeI)

definition swept :: "int \<Rightarrow> windows \<Rightarrow> windows" where
  "swept now ws = (if length ws \<ge> SWEEP_THRESHOLD then filter (\<lambda>(k, expiry, hits). expiry > now) ws else ws)"

lemma swept_hits:
  assumes "distinct (map fst ws)" and "now \<le> t"
  shows "memory_hits (swept now ws) key t = memory_hits ws key t"
  using assms by (auto simp: memory_hits_def swept_def map_of_filter_distinct split: option.splits)

lemma swept_distinct: "distinct (map fst ws) \<Longrightarrow> distinct (map fst (swept now ws))"
  by (simp add: swept_def distinct_map_filter)

lemma memory_hit_alt:
  assumes "distinct (map fst ws)"
  shows "memory_hit now key limit w ws =
    (decide limit (memory_hits ws key now + 1) (now - now mod w + w - now),
     AList.update key (now - now mod w + w, memory_hits ws key now + 1) (swept now ws))"
proof -
  have "memory_hits ws key now = memory_hits (swept now ws) key now" using swept_hits [OF assms, of now now] by simp
  then show ?thesis
    unfolding memory_hit_def swept_def [symmetric] Let_def
    by (auto simp: memory_hits_def split: option.splits prod.splits)
qed

lemma window_of:
  fixes now t w :: int
  assumes "0 < w" and "now \<le> t"
  shows "now - now mod w + w > t \<longleftrightarrow> t div w = now div w"
proof -
  have n: "now - now mod w + w = (now div w + 1) * w" by (simp add: minus_mod_eq_div_mult distrib_right)
  have le: "now div w \<le> t div w" using assms by (simp add: zdiv_mono1)
  have low: "t div w * w \<le> t" and high: "t < (t div w + 1) * w"
    using pos_mod_sign [OF assms(1), of t] pos_mod_bound [OF assms(1), of t] div_mult_mod_eq [of t w]
    unfolding distrib_right by linarith+
  show ?thesis
  proof
    assume "now - now mod w + w > t"
    then have "t div w * w < (now div w + 1) * w" unfolding n using low by linarith
    then have "t div w < now div w + 1" using assms(1) by (simp only: mult_less_cancel_right_pos)
    then show "t div w = now div w" using le by linarith
  next
    assume "t div w = now div w"
    then show "now - now mod w + w > t" unfolding n using high by simp
  qed
qed

interpretation memory: fixed_window_store memory_hit memory_hits "\<lambda>ws. distinct (map fst ws)" "[]"
proof unfold_locales
  fix now t w :: int and key key' limit and ws :: windows
  assume d: "distinct (map fst ws)" and w: "0 < w" and t: "now \<le> t"
  show "memory_hits (snd (memory_hit now key limit w ws)) key' t =
    (if key' = key then (if t div w = now div w then memory_hits ws key now + 1 else 0) else memory_hits ws key' t)"
  proof (cases "key' = key")
    case True
    then show ?thesis
      using window_of [OF w t] by (simp add: memory_hit_alt [OF d] memory_hits_def [of _ key t] update_conv')
  next
    case False
    then have "memory_hits (AList.update key v (swept now ws)) key' t = memory_hits (swept now ws) key' t" for v
      by (simp add: memory_hits_def update_conv')
    then show ?thesis using False swept_hits [OF d t] by (simp add: memory_hit_alt [OF d])
  qed
next
  fix now w :: int and key limit and ws :: windows
  assume d: "distinct (map fst ws)"
  show "distinct (map fst (snd (memory_hit now key limit w ws)))"
    using swept_distinct [OF d] by (simp add: memory_hit_alt [OF d] distinct_update)
  show "dc_allowed (fst (memory_hit now key limit w ws)) \<longleftrightarrow> memory_hits ws key now < limit"
    by (auto simp: memory_hit_alt [OF d] decide_def)
qed (simp_all add: memory_hits_def)

section \<open>Properties\<close>

text \<open>A failing Redis refuses nobody.\<close>

lemma redis_fails_open:
  "fst (incr (redis_key key (now - now mod w)) c) = None \<Longrightarrow> dc_allowed (fst (redis_hit incr expire now key limit w c))"
  by (auto simp: redis_hit_def fail_open_def Let_def split: prod.splits)

lemma bucket_key_inj:
  assumes "58 \<notin> set b" and "58 \<notin> set b'" and "b @ cps '':'' @ i = b' @ cps '':'' @ i'"
  shows "b = b' \<and> i = i'"
proof -
  have "takeWhile (\<lambda>c. c \<noteq> 58) (b @ 58 # i) = b" "takeWhile (\<lambda>c. c \<noteq> 58) (b' @ 58 # i') = b'"
    using assms(1,2) by (auto simp: takeWhile_append2 takeWhile_tail)
  then have "b = b'" using assms(3) by (simp add: cps_def)
  then show ?thesis using assms(3) by simp
qed

text \<open>A request charged to a bucket, with the limit and window of the bucket.\<close>

type_synonym charge = "int \<times> pystr \<times> pystr"

definition served :: "rate_settings \<Rightarrow> (pystr \<Rightarrow> nat) \<Rightarrow> (pystr \<Rightarrow> int) \<Rightarrow> charge list \<Rightarrow> windows" where
  "served settings limit_of win rs =
     fold (\<lambda>(now, b, i) st. snd (enforce memory_hit settings b i (limit_of b) (win b) now st)) rs []"

definition bucket_of :: "pystr \<Rightarrow> pystr" where
  "bucket_of key = takeWhile (\<lambda>c. c \<noteq> 58) key"

definition charge_key :: "charge \<Rightarrow> int \<times> pystr" where
  "charge_key r = (case r of (now, b, i) \<Rightarrow> (now, b @ cps '':'' @ i))"

lemma bucket_of_key: "58 \<notin> set b \<Longrightarrow> bucket_of (b @ cps '':'' @ i) = b"
  by (auto simp: bucket_of_def cps_def takeWhile_append2 takeWhile_tail)

lemma served_hits:
  assumes "rate_limit_enabled settings" and "list_all (\<lambda>(now, b, i). 58 \<notin> set b) rs"
  shows "served settings limit_of win rs =
    after_hits memory_hit [] (limit_of \<circ> bucket_of) (win \<circ> bucket_of) (map charge_key rs)"
  using assms(2)
proof (induction rs rule: rev_induct)
  case (snoc r rs)
  then show ?case
    using assms(1) by (cases r)
      (auto simp: served_def after_hits_def charge_key_def enforce_def bucket_of_key Let_def split_beta)
qed (simp add: served_def after_hits_def)

lemma earlier_charges:
  assumes "list_all (\<lambda>(now, b, i). 58 \<notin> set b) rs" and "58 \<notin> set b"
  shows "earlier (win \<circ> bucket_of) (map charge_key rs) (b @ cps '':'' @ i) now =
    length (filter (\<lambda>(t, b', i'). b' = b \<and> i' = i \<and> t div win b = now div win b) rs)"
  using assms
proof (induction rs)
  case (Cons r rs)
  obtain t b' i' where r: "r = (t, b', i')" by (cases r)
  have "b' @ cps '':'' @ i' = b @ cps '':'' @ i \<longleftrightarrow> b' = b \<and> i' = i"
    using Cons.prems bucket_key_inj [of b' b i' i] by (auto simp: r)
  then show ?case using Cons by (simp add: earlier_def r charge_key_def bucket_of_key)
qed (simp add: earlier_def)

text \<open>
  C39.  The in-memory limiter admits exactly the limit.  Whatever was charged before to whichever
  buckets and identities, in order of time, and however often the table was swept meanwhile: a
  request is refused if and only if the same identity was already charged the limit or more in the
  same bucket in the current window.  So one caller never spends another's budget, a flood of fresh
  addresses resets nobody's count, and a refusal names a wait within the window.
\<close>

theorem windows_admit_exactly_the_limit:
  assumes "rate_limit_enabled settings" and "\<And>b. 0 < win b"
    and "sorted (map fst (rs @ [(now, b, i)]))" and "list_all (\<lambda>(now, b, i). 58 \<notin> set b) (rs @ [(now, b, i)])"
  shows "case fst (enforce memory_hit settings b i (limit_of b) (win b) now (served settings limit_of win rs)) of
      Inl e \<Rightarrow> limit_of b \<le> length (filter (\<lambda>(t, b', i'). b' = b \<and> i' = i \<and> t div win b = now div win b) rs) \<and>
        (\<exists>d. e = TooManyRequests d \<and> 1 \<le> dc_reset_after d \<and> dc_reset_after d \<le> win b)
    | Inr _ \<Rightarrow> length (filter (\<lambda>(t, b', i'). b' = b \<and> i' = i \<and> t div win b = now div win b) rs) < limit_of b"
proof -
  let ?key = "b @ cps '':'' @ i" and ?st = "served settings limit_of win rs"
  have b: "58 \<notin> set b" and rs: "list_all (\<lambda>(now, b, i). 58 \<notin> set b) rs" using assms(4) by auto
  have times: "sorted (map fst (map charge_key rs))" "\<forall>r \<in> set (map charge_key rs). fst r \<le> now"
    using assms(3) by (auto simp: sorted_append charge_key_def split_beta comp_def)
  note st = served_hits [OF assms(1) rs, of limit_of win]
  have "dc_allowed (fst (memory_hit now ?key (limit_of b) (win b) ?st)) \<longleftrightarrow>
      length (filter (\<lambda>(t, b', i'). b' = b \<and> i' = i \<and> t div win b = now div win b) rs) < limit_of b"
    using memory.hit_exact [of "win \<circ> bucket_of" "map charge_key rs" now ?key "limit_of \<circ> bucket_of", OF _ times] assms(2)
    by (simp add: st bucket_of_key [OF b] earlier_charges [OF rs b])
  moreover have "1 \<le> dc_reset_after (fst (memory_hit now ?key (limit_of b) (win b) ?st)) \<and>
      dc_reset_after (fst (memory_hit now ?key (limit_of b) (win b) ?st)) \<le> win b"
    using assms(2) [of b] pos_mod_sign [OF assms(2), of now b]
    by (auto simp: memory_hit_def decide_def Let_def split_beta)
  ultimately show ?thesis using assms(1) by (auto simp: enforce_def Let_def split_beta)
qed

definition demo_rates :: rate_settings where
  "demo_rates = \<lparr>rate_limit_enabled = True, auth_rate_limit_of = 2, auth_rate_limit_window_seconds = 60,
     engine_rate_limit = 600, engine_rate_limit_window_seconds = 60, engine_auth_rate_limit = 30, trusted_proxy_hops = 0\<rparr>"

theorem windows_admit_exactly_the_limit_witness:
  "let rs = [(10, cps ''auth'', cps ''10.0.0.1''), (20, cps ''auth'', cps ''10.0.0.1''), (20, cps ''auth'', cps ''10.0.0.2'')];
       st = served demo_rates (\<lambda>_. 2) (\<lambda>_. 60) rs
   in dc_reset_after (case fst (enforce memory_hit demo_rates (cps ''auth'') (cps ''10.0.0.1'') 2 60 50 st) of Inl (TooManyRequests d) \<Rightarrow> d) = 10 \<and>
      (case fst (enforce memory_hit demo_rates (cps ''auth'') (cps ''10.0.0.2'') 2 60 50 st) of Inl _ \<Rightarrow> False | Inr _ \<Rightarrow> True) \<and>
      (case fst (enforce memory_hit demo_rates (cps ''auth'') (cps ''10.0.0.1'') 2 60 60 st) of Inl _ \<Rightarrow> False | Inr _ \<Rightarrow> True)"
proof -
  let ?rs = "[(10, cps ''auth'', cps ''10.0.0.1''), (20, cps ''auth'', cps ''10.0.0.1''), (20, cps ''auth'', cps ''10.0.0.2'')]"
  have a: "rate_limit_enabled demo_rates" "0 < (60 :: int)" "list_all (\<lambda>(now, b, i). 58 \<notin> set b) (?rs @ [(t, cps ''auth'', x)])" for t :: int and x
    by (simp_all add: demo_rates_def cps_def)
  note exact = windows_admit_exactly_the_limit [of demo_rates "\<lambda>_. 60" ?rs, OF a(1,2) _ a(3), where limit_of = "\<lambda>_. 2"]
  have "case fst (enforce memory_hit demo_rates (cps ''auth'') (cps ''10.0.0.2'') 2 60 50 (served demo_rates (\<lambda>_. 2) (\<lambda>_. 60) ?rs)) of
      Inl _ \<Rightarrow> False | Inr _ \<Rightarrow> True"
    using exact [of 50 "cps ''10.0.0.2''"] by (auto simp: cps_def split: sum.splits)
  moreover have "case fst (enforce memory_hit demo_rates (cps ''auth'') (cps ''10.0.0.1'') 2 60 60 (served demo_rates (\<lambda>_. 2) (\<lambda>_. 60) ?rs)) of
      Inl _ \<Rightarrow> False | Inr _ \<Rightarrow> True"
    using exact [of 60 "cps ''10.0.0.1''"] by (auto simp: cps_def split: sum.splits)
  moreover have "dc_reset_after (case fst (enforce memory_hit demo_rates (cps ''auth'') (cps ''10.0.0.1'') 2 60 50
      (served demo_rates (\<lambda>_. 2) (\<lambda>_. 60) ?rs)) of Inl (TooManyRequests d) \<Rightarrow> d) = 10" by code_simp
  ultimately show ?thesis by (simp add: Let_def)
qed

end
