(* ===== verification/Remediation.thy ===== *)
theory Remediation
  imports Retention Triage
begin

text \<open>
  Remediation actions, \<^verbatim>\<open>apps/api/src/iceberg_api/remediation/service.py\<close> with the checks of its
  \<^verbatim>\<open>schemas.py\<close> and the writing routes of \<^verbatim>\<open>routes.py\<close>, on the tables of \<^verbatim>\<open>Retention\<close>.  A request first
  loads its action and then claims the transition by a conditional update; \<open>others\<close> is what other
  transactions commit in between.  \<open>urlsplit\<close> is a parameter that answers scheme and network location.
\<close>

section \<open>Request bodies\<close>

definition MAX_EVIDENCE_LINKS :: nat where "MAX_EVIDENCE_LINKS = 10"

record evidence_link =
  el_url :: pystr
  el_label :: pystr

text \<open>Length bounds hold of the text as sent; the stored text is stripped.\<close>

definition read_label :: "pystr \<Rightarrow> pystr option" where
  "read_label v =
     (if length v < 1 \<or> length v > 200 then None
      else let trimmed = py_strip v in if trimmed = [] then None else Some trimmed)"

definition read_url :: "(pystr \<Rightarrow> pystr \<times> pystr) \<Rightarrow> pystr \<Rightarrow> pystr option" where
  "read_url urlsplit v =
     (if length v < 1 \<or> length v > 2048 then None
      else
        let (scheme, netloc) = urlsplit (py_strip v) in
        if scheme \<noteq> cps ''http'' \<and> scheme \<noteq> cps ''https'' then None
        else if netloc = [] then None
        else if 64 \<in> set netloc then None
        else Some (py_strip v))"

definition read_link :: "(pystr \<Rightarrow> pystr \<times> pystr) \<Rightarrow> evidence_link \<Rightarrow> evidence_link option" where
  "read_link urlsplit l =
     (case (read_url urlsplit (el_url l), read_label (el_label l)) of
        (Some u, Some b) \<Rightarrow> Some \<lparr>el_url = u, el_label = b\<rparr>
      | _ \<Rightarrow> None)"

record remediation_create =
  rc_kind :: remediation_action_kind
  rc_occurred_at :: "int option"
  rc_note :: "pystr option"
  rc_evidence_links :: "evidence_link list"

definition read_create :: "(pystr \<Rightarrow> pystr \<times> pystr) \<Rightarrow> int \<Rightarrow> remediation_create \<Rightarrow> remediation_create option" where
  "read_create urlsplit now c =
     (if (case rc_note c of None \<Rightarrow> False | Some n \<Rightarrow> length n > 2000) then None
      else if length (rc_evidence_links c) > MAX_EVIDENCE_LINKS then None
      else if (case rc_occurred_at c of None \<Rightarrow> False | Some t \<Rightarrow> t > now) then None
      else
        let links = map (read_link urlsplit) (rc_evidence_links c) in
        if list_ex (\<lambda>l. l = None) links then None else Some (c\<lparr>rc_evidence_links := map the links\<rparr>))"

definition read_reason :: "pystr \<Rightarrow> pystr option" where
  "read_reason v =
     (if length v < 1 \<or> length v > 2000 then None
      else let trimmed = py_strip v in if trimmed = [] then None else Some trimmed)"

section \<open>Recording, verifying, retracting\<close>

datatype remediation_error = AlreadyVerified string | AlreadyRetracted string | RemediationNotFound

definition dump_link :: "evidence_link \<Rightarrow> jdict" where
  "dump_link l = [(cps ''url'', JStr (el_url l)), (cps ''label'', JStr (el_label l))]"

fun action_kind_value :: "remediation_action_kind \<Rightarrow> pystr" where
  "action_kind_value REVOKE = cps ''revoke''"
| "action_kind_value ROTATE = cps ''rotate''"
| "action_kind_value SCOPE_REDUCE = cps ''scope_reduce''"
| "action_kind_value REMOVE_SOURCE = cps ''remove_source''"
| "action_kind_value OTHER_ACTION = cps ''other''"

text \<open>The ids and the instant the inserted rows get: action, event, audit row.\<close>

record fresh_rows =
  fr_action :: nat
  fr_event :: nat
  fr_audit :: nat
  fr_now :: int

definition remediation_event ::
  "fresh_rows \<Rightarrow> nat \<Rightarrow> nat \<Rightarrow> finding_event_kind \<Rightarrow> event_value option \<Rightarrow> event_value option \<Rightarrow> stored_event" where
  "remediation_event fr finding_id actor kind from_value to_value =
     \<lparr>ev_finding_id = finding_id, ev_actor_id = Some actor, ev_scan_id = None, ev_kind = kind,
      ev_from_value = from_value, ev_to_value = to_value, ev_comment = None, ev_id = fr_event fr,
      ev_created_at = fr_now fr\<rparr>"

definition remediation_audit ::
  "fresh_rows \<Rightarrow> nat \<Rightarrow> string \<Rightarrow> nat \<Rightarrow> (string \<times> pystr) list \<Rightarrow> stored_audit" where
  "remediation_audit fr actor action target detail =
     \<lparr>au_actor_id = Some actor, au_action = action, au_target_type = ''remediation'', au_target_id = Some target,
      au_from_value = None, au_to_value = None, au_detail = detail, au_created_at = fr_now fr, au_id = fr_audit fr\<rparr>"

definition new_action ::
  "fresh_rows \<Rightarrow> nat \<Rightarrow> remediation_create \<Rightarrow> nat \<Rightarrow> pystr option \<Rightarrow> remediation_action" where
  "new_action fr finding_id payload actor guidance =
     \<lparr>ra_id = fr_action fr, ra_created_at = fr_now fr, ra_finding_id = finding_id, ra_actor_id = Some actor,
      ra_kind = rc_kind payload, ra_occurred_at = rc_occurred_at payload, ra_note = rc_note payload,
      ra_evidence_links = map dump_link (rc_evidence_links payload), ra_guidance_version = guidance,
      ra_verification = UNVERIFIED, ra_verified_by_id = None, ra_verified_at = None, ra_retracted_at = None,
      ra_retracted_by_id = None, ra_retracted_reason = None, ra_scrubbed_at = None\<rparr>"

definition record_remediation ::
  "fresh_rows \<Rightarrow> nat \<Rightarrow> remediation_create \<Rightarrow> nat \<Rightarrow> pystr option \<Rightarrow> evidence \<Rightarrow> remediation_error + evidence" where
  "record_remediation fr finding_id payload actor guidance d =
     (if finding_id \<notin> set (map f_id (e_findings d)) then Inl RemediationNotFound
      else
        Inr (d\<lparr>e_actions := e_actions d @ [new_action fr finding_id payload actor guidance],
               e_events := e_events d @
                 [remediation_event fr finding_id actor REMEDIATION None (Some (EV_Action (rc_kind payload)))],
               e_audits := e_audits d @
                 [remediation_audit fr actor ''remediation.recorded'' (fr_action fr)
                   [(''finding_id'', uuid_str finding_id), (''kind'', action_kind_value (rc_kind payload)),
                    (''evidence_links'', py_digits (length (rc_evidence_links payload)))]]\<rparr>))"

definition load_action :: "nat \<Rightarrow> nat \<Rightarrow> evidence \<Rightarrow> remediation_action option" where
  "load_action finding_id i d =
     (case get_row ra_id i (e_actions d) of
        None \<Rightarrow> None
      | Some a \<Rightarrow> if ra_finding_id a \<noteq> finding_id then None else Some a)"

definition verify ::
  "(evidence \<Rightarrow> evidence) \<Rightarrow> fresh_rows \<Rightarrow> remediation_action \<Rightarrow> nat \<Rightarrow> pystr option \<Rightarrow> evidence \<Rightarrow> remediation_error + evidence" where
  "verify others fr action actor comment d =
     (if ra_retracted_at action \<noteq> None then Inl (AlreadyRetracted ''a retracted action cannot be verified'')
      else if ra_verification action = VERIFIED then Inl (AlreadyVerified ''this action is already verified'')
      else
        let d1 = others d;
            P = (\<lambda>a. ra_id a = ra_id action \<and> ra_retracted_at a = None \<and> ra_verification a = UNVERIFIED)
        in if rowcount P (e_actions d1) = 0 then Inl (AlreadyVerified ''this action is already verified'')
           else
             Inr (d1\<lparr>e_actions := update_where P
                       (\<lambda>a. a\<lparr>ra_verification := VERIFIED, ra_verified_by_id := Some actor, ra_verified_at := Some (fr_now fr)\<rparr>)
                       (e_actions d1),
                     e_events := e_events d1 @
                       [remediation_event fr (ra_finding_id action) actor REMEDIATION_VERIFIED
                         (Some (EV_Verification UNVERIFIED)) (Some (EV_Verification VERIFIED))],
                     e_audits := e_audits d1 @
                       [remediation_audit fr actor ''remediation.verified'' (ra_id action)
                         ((''finding_id'', uuid_str (ra_finding_id action)) #
                          (case comment of Some c \<Rightarrow> if c = [] then [] else [(''comment'', c)] | None \<Rightarrow> []))]\<rparr>))"

definition retract ::
  "(evidence \<Rightarrow> evidence) \<Rightarrow> fresh_rows \<Rightarrow> remediation_action \<Rightarrow> nat \<Rightarrow> pystr \<Rightarrow> evidence \<Rightarrow> remediation_error + evidence" where
  "retract others fr action actor reason d =
     (if ra_retracted_at action \<noteq> None then Inl (AlreadyRetracted ''this action is already retracted'')
      else
        let d1 = others d;
            P = (\<lambda>a. ra_id a = ra_id action \<and> ra_retracted_at a = None)
        in if rowcount P (e_actions d1) = 0 then Inl (AlreadyRetracted ''this action is already retracted'')
           else
             Inr (d1\<lparr>e_actions := update_where P
                       (\<lambda>a. a\<lparr>ra_retracted_at := Some (fr_now fr), ra_retracted_by_id := Some actor,
                              ra_retracted_reason := Some reason\<rparr>) (e_actions d1),
                     e_events := e_events d1 @
                       [remediation_event fr (ra_finding_id action) actor REMEDIATION_RETRACTED
                         (Some (EV_Action (ra_kind action))) None],
                     e_audits := e_audits d1 @
                       [remediation_audit fr actor ''remediation.retracted'' (ra_id action)
                         [(''finding_id'', uuid_str (ra_finding_id action)), (''reason'', reason)]]\<rparr>))"

section \<open>The routes\<close>

definition verify_remediation ::
  "(evidence \<Rightarrow> evidence) \<Rightarrow> fresh_rows \<Rightarrow> nat \<Rightarrow> nat \<Rightarrow> nat \<Rightarrow> pystr option \<Rightarrow> evidence \<Rightarrow> remediation_error + evidence" where
  "verify_remediation others fr finding_id i actor comment d =
     (case load_action finding_id i d of
        None \<Rightarrow> Inl RemediationNotFound
      | Some a \<Rightarrow> verify others fr a actor comment d)"

definition retract_remediation ::
  "(evidence \<Rightarrow> evidence) \<Rightarrow> fresh_rows \<Rightarrow> nat \<Rightarrow> nat \<Rightarrow> nat \<Rightarrow> pystr \<Rightarrow> evidence \<Rightarrow> remediation_error + evidence" where
  "retract_remediation others fr finding_id i actor reason d =
     (case load_action finding_id i d of
        None \<Rightarrow> Inl RemediationNotFound
      | Some a \<Rightarrow> retract others fr a actor reason d)"

section \<open>The evidence policy\<close>

definition applies_to :: "severity option \<Rightarrow> severity \<Rightarrow> bool" where
  "applies_to min_severity severity =
     (case min_severity of None \<Rightarrow> False | Some m \<Rightarrow> SEVERITY_RANK severity \<ge> SEVERITY_RANK m)"

definition actions_for :: "nat \<Rightarrow> evidence \<Rightarrow> remediation_action list" where
  "actions_for finding_id d =
     sort_key (\<lambda>a. (ra_created_at a, ra_id a)) (filter (\<lambda>a. ra_finding_id a = finding_id) (e_actions d))"

definition last_reopened_at :: "nat \<Rightarrow> evidence \<Rightarrow> int option" where
  "last_reopened_at finding_id d =
     (case rev (sort (map ev_created_at (filter (\<lambda>e. ev_finding_id e = finding_id \<and> ev_kind e = REOPENED) (e_events d)))) of
        [] \<Rightarrow> None
      | t # _ \<Rightarrow> Some t)"

text \<open>\<open>str(link.get("url", ""))\<close>; \<open>str\<close> of a value that is not a string is the parameter \<open>py_str\<close>.\<close>

definition link_url :: "(json \<Rightarrow> pystr) \<Rightarrow> jdict \<Rightarrow> pystr" where
  "link_url py_str link =
     (case map_of link (cps ''url'') of None \<Rightarrow> [] | Some v \<Rightarrow> json_str py_str v)"

definition carries_usable_evidence :: "(json \<Rightarrow> pystr) \<Rightarrow> remediation_action \<Rightarrow> bool" where
  "carries_usable_evidence py_str action \<longleftrightarrow>
     list_ex (\<lambda>link. py_strip (link_url py_str link) \<noteq> []) (ra_evidence_links action)"

definition qualifying_action_exists :: "(json \<Rightarrow> pystr) \<Rightarrow> nat \<Rightarrow> evidence \<Rightarrow> bool" where
  "qualifying_action_exists py_str finding_id d \<longleftrightarrow>
     (let since = last_reopened_at finding_id d in
      list_ex (\<lambda>a. ra_retracted_at a = None \<and> carries_usable_evidence py_str a \<and>
                   (case since of None \<Rightarrow> True | Some t \<Rightarrow> ra_created_at a \<ge> t)) (actions_for finding_id d))"

text \<open>\<open>_evidence\<close> of \<open>update_finding\<close>, the check that triage is given.\<close>

definition evidence_check :: "(json \<Rightarrow> pystr) \<Rightarrow> severity option \<Rightarrow> evidence \<Rightarrow> finding \<Rightarrow> bool" where
  "evidence_check py_str min_severity d f =
     (if \<not> applies_to min_severity (f_severity f) then True else qualifying_action_exists py_str (f_id f) d)"

section \<open>What a role sees\<close>

record remediation_redacted =
  rr_action_id :: nat
  rr_finding_id :: nat
  rr_actor_id :: "nat option"
  rr_kind :: remediation_action_kind
  rr_occurred_at :: "int option"
  rr_guidance_version :: "pystr option"
  rr_verification :: remediation_verification
  rr_verified_by_id :: "nat option"
  rr_verified_at :: "int option"
  rr_retracted_at :: "int option"
  rr_retracted_by_id :: "nat option"
  rr_recorded_at :: int
  rr_evidence_labels :: "pystr list"

datatype remediation_view = FullView remediation_action | RedactedView remediation_redacted

definition serialize :: "(json \<Rightarrow> pystr) \<Rightarrow> remediation_action \<Rightarrow> bool \<Rightarrow> remediation_view" where
  "serialize py_str a redacted =
     (if \<not> redacted then FullView a
      else
        RedactedView
          \<lparr>rr_action_id = ra_id a, rr_finding_id = ra_finding_id a, rr_actor_id = ra_actor_id a, rr_kind = ra_kind a,
           rr_occurred_at = ra_occurred_at a, rr_guidance_version = ra_guidance_version a,
           rr_verification = ra_verification a, rr_verified_by_id = ra_verified_by_id a,
           rr_verified_at = ra_verified_at a, rr_retracted_at = ra_retracted_at a,
           rr_retracted_by_id = ra_retracted_by_id a, rr_recorded_at = ra_created_at a,
           rr_evidence_labels =
             map (\<lambda>link. case map_of link (cps ''label'') of None \<Rightarrow> cps ''evidence'' | Some v \<Rightarrow> json_str py_str v)
               (ra_evidence_links a)\<rparr>)"

section \<open>The actions over time\<close>

text \<open>
  Requests in any order, each with whatever copy of its action it had loaded, and every write of a
  retention round; \<open>d\<close> is the state the write sees and \<open>d0\<close> the one its selection or its check saw.
  \<open>aging\<close> says whether old audit rows are purged.  A scrub writes the labels of the links it loaded,
  which are still those of the row, as nothing else rewrites them.  Ids of new actions are drawn fresh.
  The last two steps are audit rows about other things, and whatever else leaves the actions, the audit
  trail and the set of findings as they are.
\<close>

inductive remediation_step :: "bool \<Rightarrow> evidence \<Rightarrow> evidence \<Rightarrow> bool" for aging where
  recorded: "record_remediation fr i payload actor guidance d = Inr d' \<Longrightarrow> fr_action fr \<notin> ra_id ` set (e_actions d) \<Longrightarrow>
    Some (fr_action fr) \<notin> au_target_id ` set (e_audits d) \<Longrightarrow> remediation_step aging d d'"
| verified: "verify (\<lambda>_. d) fr a actor comment d0 = Inr d' \<Longrightarrow> remediation_step aging d d'"
| retracted: "retract (\<lambda>_. d) fr a actor reason d0 = Inr d' \<Longrightarrow> remediation_step aging d d'"
| scrubbed: "(\<And>x. x \<in> set (e_actions d) \<Longrightarrow> ra_id x = ra_id a \<Longrightarrow> ra_scrubbed_at x = None \<Longrightarrow>
      ra_evidence_links x = ra_evidence_links a) \<Longrightarrow>
    remediation_step aging d (snd (scrub_one now before a d))"
| purged_findings: "remediation_step aging d (snd (purge_findings days now batch (\<lambda>_. d) d0))"
| purged_events: "remediation_step aging d (snd (purge_finding_events days now batch (\<lambda>_. d) d0))"
| purged_audits: "aging \<Longrightarrow> remediation_step aging d (snd (purge_audit_events days now batch (\<lambda>_. d) d0))"
| audited: "au_target_type x \<noteq> ''remediation'' \<Longrightarrow> remediation_step aging d (d\<lparr>e_audits := e_audits d @ [x]\<rparr>)"
| elsewhere: "e_actions d' = e_actions d \<Longrightarrow> e_audits d' = e_audits d \<Longrightarrow>
    map f_id (e_findings d') = map f_id (e_findings d) \<Longrightarrow> remediation_step aging d d'"

definition trail_count :: "string \<Rightarrow> nat \<Rightarrow> evidence \<Rightarrow> nat" where
  "trail_count action i d =
     length (filter (\<lambda>x. au_target_type x = ''remediation'' \<and> au_action x = action \<and> au_target_id x = Some i) (e_audits d))"

text \<open>The rows of an action in the trail: exactly as many as there should be, or, once rows age out, at most.\<close>

definition as_many :: "bool \<Rightarrow> nat \<Rightarrow> nat \<Rightarrow> bool" where
  "as_many aging n m \<longleftrightarrow> (if aging then n \<le> m else n = m)"

definition trail_matches :: "bool \<Rightarrow> evidence \<Rightarrow> remediation_action \<Rightarrow> bool" where
  "trail_matches aging d a \<longleftrightarrow>
     as_many aging (trail_count ''remediation.recorded'' (ra_id a) d) 1 \<and>
     as_many aging (trail_count ''remediation.verified'' (ra_id a) d) (if ra_verification a = VERIFIED then 1 else 0) \<and>
     as_many aging (trail_count ''remediation.retracted'' (ra_id a) d) (if ra_retracted_at a \<noteq> None then 1 else 0)"

definition trail_ok :: "bool \<Rightarrow> evidence \<Rightarrow> bool" where
  "trail_ok aging d \<longleftrightarrow>
     distinct (map ra_id (e_actions d)) \<and> distinct (map f_id (e_findings d)) \<and> list_all (trail_matches aging d) (e_actions d)"

lemma trail_count_fresh: "Some i \<notin> au_target_id ` set (e_audits d) \<Longrightarrow> trail_count act i d = 0"
  by (force simp: trail_count_def filter_empty_conv)

text \<open>
  What may become of an action: what identifies it is final, the verdicts are set once, and note and links
  are replaced by the labels of the links at most once.
\<close>

definition same_content :: "remediation_action \<Rightarrow> remediation_action \<Rightarrow> bool" where
  "same_content a b \<longleftrightarrow>
     ra_id b = ra_id a \<and> ra_created_at b = ra_created_at a \<and> ra_finding_id b = ra_finding_id a \<and>
     ra_actor_id b = ra_actor_id a \<and> ra_kind b = ra_kind a \<and> ra_occurred_at b = ra_occurred_at a \<and>
     ra_guidance_version b = ra_guidance_version a"

definition verdict_final :: "remediation_action \<Rightarrow> remediation_action \<Rightarrow> bool" where
  "verdict_final a b \<longleftrightarrow>
     (ra_verification a = VERIFIED \<longrightarrow>
        ra_verification b = VERIFIED \<and> ra_verified_by_id b = ra_verified_by_id a \<and> ra_verified_at b = ra_verified_at a)"

definition retraction_final :: "remediation_action \<Rightarrow> remediation_action \<Rightarrow> bool" where
  "retraction_final a b \<longleftrightarrow>
     (ra_retracted_at a \<noteq> None \<longrightarrow>
        ra_retracted_at b = ra_retracted_at a \<and> ra_retracted_by_id b = ra_retracted_by_id a \<and>
        ra_retracted_reason b = ra_retracted_reason a \<and> ra_verification b = ra_verification a)"

definition proof_kept :: "remediation_action \<Rightarrow> remediation_action \<Rightarrow> bool" where
  "proof_kept a b \<longleftrightarrow>
     (if ra_scrubbed_at b = ra_scrubbed_at a
      then ra_note b = ra_note a \<and> ra_evidence_links b = ra_evidence_links a
      else ra_scrubbed_at a = None \<and> ra_note b = None \<and> ra_evidence_links b = map scrub_link (ra_evidence_links a))"

definition action_evolves :: "remediation_action \<Rightarrow> remediation_action \<Rightarrow> bool" where
  "action_evolves a b \<longleftrightarrow> same_content a b \<and> verdict_final a b \<and> retraction_final a b \<and> proof_kept a b"

lemmas evolution_defs = same_content_def verdict_final_def retraction_final_def proof_kept_def

lemma action_evolves_refl [simp]: "action_evolves a a"
  by (simp add: action_evolves_def evolution_defs)

text \<open>Every action is still there and evolved, or went with its finding; findings only go.\<close>

definition actions_evolve :: "evidence \<Rightarrow> evidence \<Rightarrow> bool" where
  "actions_evolve d d' \<longleftrightarrow>
     f_id ` set (e_findings d') \<subseteq> f_id ` set (e_findings d) \<and>
     (\<forall>a \<in> set (e_actions d). ra_finding_id a \<notin> f_id ` set (e_findings d') \<or> (\<exists>b \<in> set (e_actions d'). action_evolves a b))"

lemma action_evolves_trans: "action_evolves a b \<Longrightarrow> action_evolves b c \<Longrightarrow> action_evolves a c"
  unfolding action_evolves_def
proof (elim conjE, intro conjI)
  show "same_content a c" if "same_content a b" "same_content b c" using that by (simp add: same_content_def)
  show "verdict_final a c" if "verdict_final a b" "verdict_final b c" using that by (simp add: verdict_final_def)
  show "retraction_final a c" if "retraction_final a b" "retraction_final b c" using that by (simp add: retraction_final_def)
  show "proof_kept a c" if "proof_kept a b" "proof_kept b c"
    using that unfolding proof_kept_def by (cases "ra_scrubbed_at b = ra_scrubbed_at a") (simp_all split: if_splits)
qed

lemma actions_evolve_trans:
  assumes "actions_evolve d e" and "actions_evolve e f"
  shows "actions_evolve d f"
  unfolding actions_evolve_def
proof (intro conjI ballI)
  show "f_id ` set (e_findings f) \<subseteq> f_id ` set (e_findings d)" using assms unfolding actions_evolve_def by blast
  fix a assume a: "a \<in> set (e_actions d)"
  show "ra_finding_id a \<notin> f_id ` set (e_findings f) \<or> (\<exists>c \<in> set (e_actions f). action_evolves a c)"
  proof (cases "ra_finding_id a \<in> f_id ` set (e_findings e)")
    case True
    then obtain b where b: "b \<in> set (e_actions e)" "action_evolves a b" using assms(1) a unfolding actions_evolve_def by blast
    have "ra_finding_id b = ra_finding_id a" using b(2) by (simp add: action_evolves_def same_content_def)
    moreover have "ra_finding_id b \<notin> f_id ` set (e_findings f) \<or> (\<exists>c \<in> set (e_actions f). action_evolves b c)"
      using assms(2) b(1) unfolding actions_evolve_def by blast
    ultimately show ?thesis using action_evolves_trans [OF b(2)] by metis
  next
    case False
    then show ?thesis using assms(2) unfolding actions_evolve_def by blast
  qed
qed

text \<open>Rows rewritten in place, with the findings as they were.\<close>

lemma actions_evolve_rows:
  assumes "e_findings d' = e_findings d" and "e_actions d' = map f (e_actions d)"
    and "\<And>a. a \<in> set (e_actions d) \<Longrightarrow> action_evolves a (f a)"
  shows "actions_evolve d d'"
  using assms unfolding actions_evolve_def by auto

lemma trail_count_append:
  "trail_count act j (d\<lparr>e_actions := as, e_events := es, e_audits := e_audits d @ [remediation_audit fr actor act' i detail]\<rparr>) =
     trail_count act j d + (if act = act' \<and> j = i then 1 else 0)"
  by (auto simp: trail_count_def remediation_audit_def)

text \<open>
  A conditional update of the row \<open>i\<close> that hits it, with its audit row: both verdicts are of this form.
\<close>

definition claims :: "nat \<Rightarrow> (remediation_action \<Rightarrow> bool) \<Rightarrow> (remediation_action \<Rightarrow> remediation_action) \<Rightarrow> string \<Rightarrow> evidence \<Rightarrow> evidence \<Rightarrow> bool" where
  "claims i P f act d d' \<longleftrightarrow>
     (\<exists>r \<in> set (e_actions d). P r \<and> ra_id r = i) \<and> (\<forall>a. P a \<longrightarrow> ra_id a = i \<and> ra_id (f a) = i) \<and>
     (\<exists>es fr actor detail. d' = d\<lparr>e_actions := update_where P f (e_actions d), e_events := es,
        e_audits := e_audits d @ [remediation_audit fr actor act i detail]\<rparr>)"

lemma claims_effect:
  assumes "claims i P f act d d'"
  obtains es fr actor detail where "d' = d\<lparr>e_actions := update_where P f (e_actions d), e_events := es,
    e_audits := e_audits d @ [remediation_audit fr actor act i detail]\<rparr>"
  using assms unfolding claims_def by (elim conjE exE)

lemma claims_rows:
  assumes "claims i P f act d d'"
  shows "e_actions d' = map (\<lambda>a. if P a then f a else a) (e_actions d)"
proof -
  obtain es fr actor detail where "d' = d\<lparr>e_actions := update_where P f (e_actions d), e_events := es,
    e_audits := e_audits d @ [remediation_audit fr actor act i detail]\<rparr>" by (rule claims_effect [OF assms])
  then show ?thesis by (simp add: update_where_def)
qed

lemma claims_ids:
  assumes "claims i P f act d d'"
  shows "map ra_id (e_actions d') = map ra_id (e_actions d)"
proof -
  have "ra_id (f a) = ra_id a" if "P a" for a using assms that unfolding claims_def by metis
  then show ?thesis unfolding claims_rows [OF assms] by simp
qed

lemma claims_count:
  assumes "claims i P f act d d'"
  shows "trail_count act' j d' = trail_count act' j d + (if act' = act \<and> j = i then 1 else 0)"
proof -
  obtain es fr actor detail where "d' = d\<lparr>e_actions := update_where P f (e_actions d), e_events := es,
    e_audits := e_audits d @ [remediation_audit fr actor act i detail]\<rparr>" by (rule claims_effect [OF assms])
  then show ?thesis by (simp only: trail_count_append)
qed

lemma claims_findings: "claims i P f act d d' \<Longrightarrow> e_findings d' = e_findings d"
  by (erule claims_effect) simp

lemma claims_trail_ok:
  assumes "claims i P f act d d'" and "trail_ok aging d"
    and "\<And>a. P a \<Longrightarrow> trail_matches aging d a \<Longrightarrow> trail_matches aging d' (f a)"
  shows "trail_ok aging d'"
proof -
  have ids: "map ra_id (e_actions d') = map ra_id (e_actions d)" by (rule claims_ids [OF assms(1)])
  obtain r where r: "r \<in> set (e_actions d)" "P r" "ra_id r = i" using assms(1) unfolding claims_def by blast
  have hit: "P a" if "a \<in> set (e_actions d)" "ra_id a = i" for a
    using distinct_key_unique [of ra_id "e_actions d" a r] assms(2) that r by (auto simp: trail_ok_def)
  have "trail_matches aging d' b" if b: "b \<in> set (e_actions d')" for b
  proof -
    obtain a where a: "a \<in> set (e_actions d)" "b = (if P a then f a else a)" using b by (auto simp: claims_rows [OF assms(1)])
    then have m: "trail_matches aging d a" using assms(2) by (simp add: trail_ok_def list_all_iff)
    show ?thesis
    proof (cases "P a")
      case True
      then show ?thesis using assms(3) m a(2) by simp
    next
      case False
      then have "ra_id a \<noteq> i" using hit a(1) by blast
      then show ?thesis using m False a(2) by (simp add: trail_matches_def claims_count [OF assms(1)])
    qed
  qed
  then show ?thesis using assms(2) ids claims_findings [OF assms(1)] by (simp add: trail_ok_def list_all_iff)
qed

lemma claims_evolve:
  assumes "claims i P f act d d'" and "\<And>a. P a \<Longrightarrow> action_evolves a (f a)"
  shows "actions_evolve d d'"
  by (rule actions_evolve_rows [OF claims_findings [OF assms(1)] claims_rows [OF assms(1)]]) (simp add: assms(2))

lemma rowcount_0: "rowcount P rows = 0 \<longleftrightarrow> (\<forall>r \<in> set rows. \<not> P r)"
  by (simp add: rowcount_def filter_empty_conv)

lemma claimsI:
  assumes "rowcount P (e_actions d) \<noteq> 0" and "\<And>a. P a \<Longrightarrow> ra_id a = i \<and> ra_id (f a) = i"
  shows "claims i P f act d (d\<lparr>e_actions := update_where P f (e_actions d), e_events := es,
    e_audits := e_audits d @ [remediation_audit fr actor act i detail]\<rparr>)"
  using assms unfolding claims_def rowcount_0 by blast

lemma verify_claims:
  assumes "verify (\<lambda>_. d) fr a actor comment d0 = Inr d'"
  shows "claims (ra_id a) (\<lambda>x. ra_id x = ra_id a \<and> ra_retracted_at x = None \<and> ra_verification x = UNVERIFIED)
    (\<lambda>x. x\<lparr>ra_verification := VERIFIED, ra_verified_by_id := Some actor, ra_verified_at := Some (fr_now fr)\<rparr>)
    ''remediation.verified'' d d'"
  using assms unfolding verify_def Let_def by (auto split: if_splits intro!: claimsI)

lemma retract_claims:
  assumes "retract (\<lambda>_. d) fr a actor reason d0 = Inr d'"
  shows "claims (ra_id a) (\<lambda>x. ra_id x = ra_id a \<and> ra_retracted_at x = None)
    (\<lambda>x. x\<lparr>ra_retracted_at := Some (fr_now fr), ra_retracted_by_id := Some actor, ra_retracted_reason := Some reason\<rparr>)
    ''remediation.retracted'' d d'"
  using assms unfolding retract_def Let_def by (auto split: if_splits intro!: claimsI)

lemma scrub_rows:
  "e_actions (snd (scrub_one now before a d)) =
     map (\<lambda>x. if ra_id x = ra_id a \<and> ra_scrubbed_at x = None \<and> ra_finding_id x \<in> long_resolved before d
              then x\<lparr>ra_evidence_links := map scrub_link (ra_evidence_links a), ra_note := None, ra_scrubbed_at := Some now\<rparr>
              else x) (e_actions d)"
  by (simp add: scrub_one_def Let_def update_where_def)

lemma scrub_keeps_verdicts:
  assumes "b \<in> set (e_actions (snd (scrub_one now before a d)))"
  obtains x where "x \<in> set (e_actions d)" and "ra_id b = ra_id x" and "ra_verification b = ra_verification x"
    and "ra_retracted_at b = ra_retracted_at x"
proof -
  let ?f = "\<lambda>x. if ra_id x = ra_id a \<and> ra_scrubbed_at x = None \<and> ra_finding_id x \<in> long_resolved before d
    then x\<lparr>ra_evidence_links := map scrub_link (ra_evidence_links a), ra_note := None, ra_scrubbed_at := Some now\<rparr> else x"
  obtain x where x: "x \<in> set (e_actions d)" "b = ?f x" using assms unfolding scrub_rows set_map by (rule imageE)
  have "ra_id (?f x) = ra_id x \<and> ra_verification (?f x) = ra_verification x \<and> ra_retracted_at (?f x) = ra_retracted_at x"
    by simp
  then show ?thesis using that x by blast
qed

lemma scrub_audits: "e_audits (snd (scrub_one now before a d)) = e_audits d"
  by (simp add: scrub_one_def Let_def)

lemma scrub_findings: "e_findings (snd (scrub_one now before a d)) = e_findings d"
  by (simp add: scrub_one_def Let_def)

text \<open>Steps that leave the counts of an action alone, or only lower them.\<close>

lemma trail_matches_same:
  assumes "\<And>act. trail_count act (ra_id a) d' = trail_count act (ra_id a) d"
  shows "trail_matches aging d' a = trail_matches aging d a"
  by (simp add: trail_matches_def assms)

lemma trail_matches_less:
  assumes "\<And>act. trail_count act (ra_id a) d' \<le> trail_count act (ra_id a) d" and "trail_matches True d a"
  shows "trail_matches True d' a"
  using assms(2) order_trans [OF assms(1)] unfolding trail_matches_def as_many_def if_True by blast

lemma step_recorded:
  assumes "record_remediation fr i payload actor guidance d = Inr d'" and "fr_action fr \<notin> ra_id ` set (e_actions d)"
    and "Some (fr_action fr) \<notin> au_target_id ` set (e_audits d)" and "trail_ok aging d"
  shows "trail_ok aging d' \<and> actions_evolve d d'"
proof -
  let ?a = "new_action fr i payload actor guidance"
  have d': "e_actions d' = e_actions d @ [?a]" "e_findings d' = e_findings d"
      "\<And>act j. trail_count act j d' = trail_count act j d + (if act = ''remediation.recorded'' \<and> j = fr_action fr then 1 else 0)"
    using assms(1) by (auto simp: record_remediation_def trail_count_append split: if_splits)
  have new: "ra_id ?a = fr_action fr" "ra_verification ?a = UNVERIFIED" "ra_retracted_at ?a = None"
    by (simp_all add: new_action_def)
  have "trail_matches aging d' a" if "a \<in> set (e_actions d)" for a
  proof -
    have "ra_id a \<noteq> fr_action fr" using assms(2) that by force
    then have "trail_matches aging d' a = trail_matches aging d a" by (intro trail_matches_same) (simp add: d'(3))
    then show ?thesis using that assms(4) by (simp add: trail_ok_def list_all_iff)
  qed
  moreover have "trail_matches aging d' ?a"
    by (simp add: trail_matches_def as_many_def d'(3) new trail_count_fresh [OF assms(3)])
  ultimately have "trail_ok aging d'"
    using assms(2,4) new by (auto simp: trail_ok_def list_all_iff d'(1,2))
  moreover have "actions_evolve d d'"
    unfolding actions_evolve_def d'(1,2) using action_evolves_refl by fastforce
  ultimately show ?thesis by blast
qed

lemma step_scrubbed:
  assumes "\<And>x. x \<in> set (e_actions d) \<Longrightarrow> ra_id x = ra_id a \<Longrightarrow> ra_scrubbed_at x = None \<Longrightarrow> ra_evidence_links x = ra_evidence_links a"
    and "d' = snd (scrub_one now before a d)" and "trail_ok aging d"
  shows "trail_ok aging d' \<and> actions_evolve d d'"
proof -
  have n: "trail_count act i d' = trail_count act i d" for act i by (simp add: assms(2) trail_count_def scrub_audits)
  have ids: "map ra_id (e_actions d') = map ra_id (e_actions d)" by (auto simp: assms(2) scrub_rows)
  have "trail_matches aging d' b" if b: "b \<in> set (e_actions d')" for b
  proof -
    obtain x where x: "x \<in> set (e_actions d)" "ra_id b = ra_id x" "ra_verification b = ra_verification x"
        "ra_retracted_at b = ra_retracted_at x"
      by (rule scrub_keeps_verdicts [OF b [unfolded assms(2)]])
    have "trail_matches aging d x" using x(1) assms(3) by (simp add: trail_ok_def list_all_iff)
    then show ?thesis unfolding trail_matches_def n x(2-4) .
  qed
  moreover have "e_findings d' = e_findings d" by (simp add: assms(2) scrub_findings)
  ultimately have "trail_ok aging d'" using assms(3) unfolding trail_ok_def ids list_all_iff by simp
  moreover have "actions_evolve d d'"
    unfolding assms(2)
    by (rule actions_evolve_rows [OF scrub_findings scrub_rows]) (use assms(1) in \<open>auto simp: action_evolves_def evolution_defs\<close>)
  ultimately show ?thesis by blast
qed

lemma delete_findings_ok:
  assumes "trail_ok aging d"
  shows "trail_ok aging (snd (delete_findings P d)) \<and> actions_evolve d (snd (delete_findings P d))"
proof
  let ?d = "snd (delete_findings P d)"
  have n: "trail_count act i ?d = trail_count act i d" for act i by (simp add: delete_findings_def Let_def trail_count_def)
  have rows: "e_findings ?d = filter (\<lambda>f. \<not> P f) (e_findings d)"
      "e_actions ?d = filter (\<lambda>a. ra_finding_id a \<notin> f_id ` set (filter P (e_findings d))) (e_actions d)"
    by (simp_all add: delete_findings_def Let_def)
  show "trail_ok aging ?d"
    using assms by (auto simp: trail_ok_def list_all_iff rows trail_matches_same [OF n] distinct_map_filter)
  have "ra_finding_id a \<notin> f_id ` set (e_findings ?d)"
    if gone: "ra_finding_id a \<in> f_id ` set (filter P (e_findings d))" for a
  proof
    assume "ra_finding_id a \<in> f_id ` set (e_findings ?d)"
    then obtain f g where "f \<in> set (e_findings d)" "g \<in> set (e_findings d)" "P f" "\<not> P g" "f_id f = f_id g"
      using gone by (auto simp: rows)
    then show False using distinct_key_unique [of f_id "e_findings d" f g] assms by (auto simp: trail_ok_def)
  qed
  then have "ra_finding_id a \<notin> f_id ` set (e_findings ?d) \<or> (\<exists>b \<in> set (e_actions ?d). action_evolves a b)"
    if "a \<in> set (e_actions d)" for a
    using that action_evolves_refl by (cases "ra_finding_id a \<in> f_id ` set (filter P (e_findings d))") (auto simp: rows)
  moreover have "f_id ` set (e_findings ?d) \<subseteq> f_id ` set (e_findings d)" by (auto simp: rows)
  ultimately show "actions_evolve d ?d" by (simp add: actions_evolve_def)
qed

lemma actions_evolve_refl: "actions_evolve d d"
  unfolding actions_evolve_def using action_evolves_refl by blast

lemma same_actions_ok:
  assumes "e_actions d' = e_actions d" and "map f_id (e_findings d') = map f_id (e_findings d)" and "trail_ok aging d"
    and "\<And>a. a \<in> set (e_actions d) \<Longrightarrow> trail_matches aging d a \<Longrightarrow> trail_matches aging d' a"
  shows "trail_ok aging d' \<and> actions_evolve d d'"
proof -
  have "f_id ` set (e_findings d') = f_id ` set (e_findings d)" using assms(2) by (metis set_map)
  then show ?thesis
    using assms action_evolves_refl unfolding trail_ok_def actions_evolve_def list_all_iff by (metis order_refl)
qed

lemma filter_fewer: "length (filter (\<lambda>x. Q x \<and> P x) xs) \<le> length (filter P xs)"
  by (induction xs) auto

lemma remediation_step_ok:
  assumes "remediation_step aging d d'" and "trail_ok aging d"
  shows "trail_ok aging d' \<and> actions_evolve d d'"
  using assms(1)
proof cases
  case (recorded fr i payload actor guidance)
  then show ?thesis using step_recorded assms(2) by blast
next
  case (verified fr a actor comment d0)
  note c = verify_claims [OF verified]
  have "trail_ok aging d'"
    by (rule claims_trail_ok [OF c assms(2)]) (simp add: trail_matches_def as_many_def claims_count [OF c] split: if_splits)
  moreover have "actions_evolve d d'"
    by (rule claims_evolve [OF c]) (simp add: action_evolves_def evolution_defs)
  ultimately show ?thesis by blast
next
  case (retracted fr a actor reason d0)
  note c = retract_claims [OF retracted]
  have "trail_ok aging d'"
    by (rule claims_trail_ok [OF c assms(2)]) (simp add: trail_matches_def as_many_def claims_count [OF c] split: if_splits)
  moreover have "actions_evolve d d'"
    by (rule claims_evolve [OF c]) (simp add: action_evolves_def evolution_defs)
  ultimately show ?thesis by blast
next
  case (scrubbed a now before)
  show ?thesis by (rule step_scrubbed [OF scrubbed(2,1) assms(2)])
next
  case (purged_findings days now batch d0)
  then show ?thesis
    using delete_findings_ok [OF assms(2)] assms(2) actions_evolve_refl
    by (auto simp: purge_findings_def Let_def split: option.splits if_splits)
next
  case (purged_events days now batch d0)
  have "e_actions d' = e_actions d" "e_findings d' = e_findings d" "e_audits d' = e_audits d"
    by (auto simp: purged_events purge_finding_events_def Let_def split: option.splits)
  then show ?thesis by (intro same_actions_ok [OF _ _ assms(2)]) (simp_all add: trail_matches_def trail_count_def)
next
  case (purged_audits days now batch d0)
  have rows: "e_actions d' = e_actions d" "e_findings d' = e_findings d"
    by (auto simp: purged_audits(1) purge_audit_events_def Let_def split: option.splits)
  have "\<exists>Q. e_audits d' = filter Q (e_audits d)"
    by (auto simp: purged_audits(1) purge_audit_events_def Let_def split: option.splits intro: exI [of _ "\<lambda>_. True"])
  then obtain Q where Q: "e_audits d' = filter Q (e_audits d)" ..
  have "trail_count act i d' \<le> trail_count act i d" for act i
    unfolding trail_count_def Q filter_filter by (rule filter_fewer)
  then show ?thesis
    using purged_audits(2) rows by (intro same_actions_ok [OF _ _ assms(2)]) (auto intro: trail_matches_less)
next
  case (audited x)
  have "trail_count act i d' = trail_count act i d" for act i using audited(2) by (simp add: audited(1) trail_count_def)
  then show ?thesis by (intro same_actions_ok [OF _ _ assms(2)]) (simp_all add: audited(1) trail_matches_def)
next
  case elsewhere
  then show ?thesis by (intro same_actions_ok [OF _ _ assms(2)]) (simp_all add: trail_matches_def trail_count_def)
qed

lemma remediation_run_ok:
  assumes "(remediation_step aging)\<^sup>*\<^sup>* d d'" and "trail_ok aging d"
  shows "trail_ok aging d' \<and> actions_evolve d d'"
  using assms
proof (induction rule: rtranclp_induct)
  case base
  then show ?case using actions_evolve_refl by blast
next
  case (step e f)
  then show ?case using remediation_step_ok actions_evolve_trans by blast
qed

section \<open>Properties\<close>

text \<open>A link that retention reduced to its label is no evidence any more.\<close>

lemma scrubbed_links_do_not_qualify:
  "ra_evidence_links a = map scrub_link links \<Longrightarrow> \<not> carries_usable_evidence py_str a"
proof -
  have "link_url py_str (scrub_link l) = []" for l by (simp add: link_url_def scrub_link_def cps_def)
  then show "ra_evidence_links a = map scrub_link links \<Longrightarrow> \<not> carries_usable_evidence py_str a"
    by (simp add: carries_usable_evidence_def list_ex_iff py_strip_def)
qed

text \<open>Behind the triage route no finding at or above the bar is resolved without a qualifying action.\<close>

lemma resolution_is_evidenced:
  assumes "update_finding active_user (evidence_check py_str bar ev) i c analyst d = Inr d'"
    and "get_row f_id i (findings d) = Some f" and "moving_to c f = Some RESOLVED" and "applies_to bar (f_severity f)"
  shows "qualifying_action_exists py_str (f_id f) ev"
  using assms by (auto simp: update_finding_def triage_apply_def evidence_check_def split: if_splits sum.splits)

text \<open>
  C40.  Remediation is recorded once.  Whatever requests record, verify and retract actions, with
  however stale a copy of an action they started, while every write of the retention rounds runs
  between them: the administrative trail never has more than one row for the recording of an action,
  more than one for its verification, none if it is not verified, and the same for its retraction, and
  it has exactly these rows as long as old audit rows are not purged.  An action is deleted only with its
  finding.  Otherwise finding, kind, author, times and guidance of it never change, a verdict once given
  stays with its author and time, a retracted action is never verified, and its note and evidence links
  change at most once, when retention drops the note and reduces the links to their labels.
\<close>

theorem remediation_is_recorded_once:
  assumes "(remediation_step aging)\<^sup>*\<^sup>* d d'" and "trail_ok aging d"
  shows "distinct (map ra_id (e_actions d')) \<and> list_all (trail_matches aging d') (e_actions d') \<and>
    (\<forall>a \<in> set (e_actions d).
       ra_finding_id a \<notin> f_id ` set (e_findings d') \<or> (\<exists>b \<in> set (e_actions d'). action_evolves a b))"
  using remediation_run_ok [OF assms] unfolding trail_ok_def actions_evolve_def by blast

definition demo_open :: evidence where
  "demo_open = \<lparr>e_findings = [demo_row 1 None None], e_events = [], e_audits = [], e_actions = [], e_deliveries = []\<rparr>"

definition demo_body :: remediation_create where
  "demo_body = \<lparr>rc_kind = ROTATE, rc_occurred_at = None, rc_note = None,
     rc_evidence_links = [\<lparr>el_url = cps ''https://t/1'', el_label = cps ''t''\<rparr>]\<rparr>"

definition demo_fresh :: "nat \<Rightarrow> fresh_rows" where
  "demo_fresh n = \<lparr>fr_action = n, fr_event = n + 1, fr_audit = n + 2, fr_now = int n\<rparr>"

definition demo_recorded :: evidence where
  "demo_recorded = projr (record_remediation (demo_fresh 10) 1 demo_body 7 None demo_open)"

definition demo_verified :: evidence where
  "demo_verified = projr (verify_remediation (\<lambda>e. e) (demo_fresh 20) 1 10 8 None demo_recorded)"

text \<open>Two analysts verify at once: the second loaded the action before the first one's commit.\<close>

theorem remediation_is_recorded_once_witness:
  "map ra_verified_by_id (e_actions demo_verified) = [Some 8] \<and> list_all (trail_matches False demo_verified) (e_actions demo_verified) \<and>
   qualifying_action_exists (\<lambda>_. []) 1 demo_verified \<and>
   (case verify (\<lambda>_. demo_verified) (demo_fresh 30) (hd (e_actions demo_recorded)) 9 None demo_recorded of
      Inl e \<Rightarrow> True | Inr _ \<Rightarrow> False)"
proof -
  have r: "record_remediation (demo_fresh 10) 1 demo_body 7 None demo_open = Inr demo_recorded"
    by (simp add: demo_recorded_def record_remediation_def demo_open_def demo_row_def finding.defs stored_finding.defs demo_finding_def)
  let ?a = "new_action (demo_fresh 10) 1 demo_body 7 None"
  have acts: "e_actions demo_recorded = [?a]"
    by (simp add: demo_recorded_def record_remediation_def demo_open_def demo_row_def finding.defs stored_finding.defs demo_finding_def)
  have v: "verify (\<lambda>_. demo_recorded) (demo_fresh 20) ?a 8 None demo_recorded = Inr demo_verified"
    by (simp add: demo_verified_def verify_remediation_def load_action_def acts get_row_def new_action_def demo_fresh_def
        verify_def Let_def rowcount_def)
  have "remediation_step False demo_open demo_recorded"
    using r by (rule remediation_step.recorded) (simp_all add: demo_open_def)
  moreover have "remediation_step False demo_recorded demo_verified" by (rule remediation_step.verified [OF v])
  ultimately have "(remediation_step False)\<^sup>*\<^sup>* demo_open demo_verified" by simp
  moreover have "trail_ok False demo_open" by (simp add: trail_ok_def demo_open_def)
  ultimately have "list_all (trail_matches False demo_verified) (e_actions demo_verified)"
    using remediation_is_recorded_once by blast
  moreover have "map ra_verified_by_id (e_actions demo_verified) = [Some 8]" by code_simp
  moreover have "qualifying_action_exists (\<lambda>_. []) 1 demo_verified" by code_simp
  moreover have "case verify (\<lambda>_. demo_verified) (demo_fresh 30) (hd (e_actions demo_recorded)) 9 None demo_recorded of
      Inl e \<Rightarrow> True | Inr _ \<Rightarrow> False" by code_simp
  ultimately show ?thesis by blast
qed

end
