(* ===== verification/Spec2Isabelle.thy ===== *)
theory Spec2Isabelle
  imports Fingerprint Triage Task_Rows Rule_Loading Retention Scheduler Rate_Limit Remediation
begin

text \<open>
  \<^bold>\<open>IcebergSST\<close> finds secrets in documentation, ticket and file systems.  Scan engines read content from
  connectors, run detection rules over it and report redacted findings to a control plane, which
  stores them, reconciles them against what is known, routes them to owners and announces them;
  analysts triage, suppress and remediate them.  This library models the control plane, the shared
  core and the detection package, and proves what makes them correct.

  \<^bold>\<open>How the parts interact.\<close>  The scheduler or a person launches a scan of a source; it gets a discovery
  task, which fans out into fetch tasks.  An engine authenticates with its token, leases a task,
  detects and redacts, flushes batches of findings with a checkpoint, and submits results once.
  When every task has ended the scan is finalized: coverage reports are folded into a manifest, the
  findings the scan did not see are resolved if the evidence allows it, watermarks are stored for
  incremental scans, and announcements are put in an outbox.  Sweeps on a timer reclaim leases,
  finish stalled scans, mark silent engines, lift lapsed suppressions, escalate overdue findings,
  deliver announcements and purge what has aged out.

  \<^bold>\<open>Modelling.\<close>  A table is the list of its rows in insertion order, a row a record of its columns
  (\<^verbatim>\<open>Iceberg_Models\<close>); the database is one record, passed and returned.  A whole request or sweep is one
  function from database to answer and database, guards and early returns included; what a partial
  unique index or a conditional UPDATE decides is written as the condition it evaluates.  Where the
  code itself provides for transactions that commit between two of its statements (retention, the
  remediation verdicts), these are an argument \<open>others\<close> that may be any function on the database;
  and
  where a handler commits several times (a lease, a heartbeat, a result submission, the sweep over
  stalled scans), the control plane has its transactions as steps of their own, so that anything may
  run between them.  Elsewhere a request is one step, and row locks have no visible effect.  Python exceptions are
  the left summand of a sum (\<open>py_error\<close>).  Texts are lists of code points, bytes are integers, floats
  are the rationals they denote, timestamps are microseconds, UUIDs their value as a number.  Code
  that is not under src/ is an argument: HMAC and SHA-256, Unicode normalization, case folding and
  lower-casing, the binary logarithm, regular expression matching, croniter, the YAML loader, the
  Redis client, urlsplit, the secret store's answers, and what a transport's send answers.

  \<^bold>\<open>The theories\<close>, with the sources they model:

  \<^item> \<^verbatim>\<open>Iceberg_Prelude\<close>: errors, texts, the table operations shared by all; \<^verbatim>\<open>Iceberg_Enums\<close>
    (core/enums.py); \<^verbatim>\<open>Iceberg_Models\<close> (core/models).
  \<^item> \<^verbatim>\<open>Redaction\<close> (core/redaction.py): a snippet is the context with every match in it masked and
    its text scrubbed, no emitted context ends inside a secret, a mask reveals at most a third, the
    covering of partial copies ends.
    \<^verbatim>\<open>Fingerprint\<close> (core/fingerprint.py, correlation.py): what is hashed determines the identity, and
    the three derivations never hash the same message.
  \<^item> \<^verbatim>\<open>Detection\<close> (detect/engine.py, signals.py): reported secrets are disjoint matches of their
    rules above the threshold, and a snippet masks every match that reaches it, gated or capped or not.  \<^verbatim>\<open>Rule_Packs\<close>, \<^verbatim>\<open>Rule_Loading\<close> (detect/rules.py): the
    backtracking check decides exactly its criterion on a grammar of patterns, and a pack that loads
    has passed every check.
  \<^item> \<^verbatim>\<open>Coverage\<close>, \<^verbatim>\<open>Manifest\<close> (engines/schemas.py, scans/coverage.py): batches add up exactly, and a
    manifest claims completeness only on evidence.
  \<^item> \<^verbatim>\<open>Suppression_Matching\<close>, \<^verbatim>\<open>Suppressions\<close>, \<^verbatim>\<open>Pagination\<close>, \<^verbatim>\<open>Ownership\<close> (core/suppression.py,
    suppressions.py, pagination.py, findings/ownership.py): a suppression covers what its pattern
    reads and a new one exactly those findings, sweeps leave nothing hidden without cause, pages cover a table, routing is sticky and first-match.
  \<^item> \<^verbatim>\<open>Ingest\<close>, \<^verbatim>\<open>Triage\<close>, \<^verbatim>\<open>Remediation\<close> (engines/ingest.py, findings/triage.py, findings/routes.py, remediation/*):
    a scan never overrules a person, each real change has one event, remediation is recorded once,
    under retention too.
  \<^item> \<^verbatim>\<open>Cursors\<close>, \<^verbatim>\<open>Reconcile\<close>, \<^verbatim>\<open>Notifications\<close> (scans/cursors.py, scans/reconcile.py,
    notifications/dispatch.py): incremental scans only from trusted watermarks, handed back in the flat
    form they are stored in, resolution of exactly
    the unseen, an outbox that neither repeats nor starves.
  \<^item> \<^verbatim>\<open>Scan_Service\<close>, \<^verbatim>\<open>Settlement\<close>, \<^verbatim>\<open>Validation\<close>, \<^verbatim>\<open>Fleet\<close>, \<^verbatim>\<open>Engine_Routes\<close> (scans/service.py,
    validation/service.py, engines/auth.py, engines/fleet.py, engines/routes.py): the life of a scan
    and the handlers engines call.
  \<^item> \<^verbatim>\<open>Lease_Protocol\<close>, \<^verbatim>\<open>Plane\<close>, \<^verbatim>\<open>Control_Plane\<close>, \<^verbatim>\<open>Submissions\<close>, \<^verbatim>\<open>Task_Rows\<close>: the abstract lease automaton,
    the control plane as a transition system over requests, sweeps and transactions, that it refines the
    automaton (in which a late lease that cannot read its secrets may fail a task that is over), and
    what holds in every reachable state: one active scan per source, results recorded once, no completed
    task that missed something in its own phase, batches stored whole and in order, task rows well typed.
    Deleting a source, which takes its scans and tasks with it, is not a step.
  \<^item> \<^verbatim>\<open>Retention\<close>, \<^verbatim>\<open>Scheduler\<close>, \<^verbatim>\<open>Rate_Limit\<close> (retention.py, scheduler.py, scheduler_launcher.py, ratelimit.py,
    current_engine of engines/auth.py): purges spare live evidence under every interleaving, a due
    schedule fires once, a window admits exactly its limit.

  \<^bold>\<open>Interfaces.\<close>  Locales state what a client relies on and are interpreted on the model:
  \<open>report_accumulation\<close> (Coverage), \<open>row_handler\<close> (Suppressions, twice), \<open>follows_lease_protocol\<close>
  (Lease_Protocol, by the control plane), \<open>spared_by_purge\<close> (Retention, twice), \<open>schedule_launcher\<close>
  (Scheduler, by the launcher) and \<open>fixed_window_store\<close> (Rate_Limit, by the in-memory store).

  \<^bold>\<open>Bounds and fuel.\<close>  Three loops take fuel.  \<open>cover_rounds\<close> of Redaction has the length of the window plus
  one: every round but the last covers a position more.  \<open>in_batches\<close> of Suppressions has the number of
  findings plus one and \<open>walk_pages\<close> of Pagination a number of rounds the property quantifies over: every
  batch or page but the last moves the cursor past a row.  The lemmas show that each returns a result.
  All other loops are structural or have a measure.  Limits of the code (references kept in a
  report, batch sizes, attempts, matches per unit) are kept as the constants or settings they are.

  \<^bold>\<open>Not modelled.\<close>  Connectors and document extraction, whose behaviour is that of remote systems and
  parsers; the engine process around detection (threads, HTTP client, sandbox); sign-in, sessions
  and roles; the secret store's encryption; payload rendering and transports; hand-over to ticket
  systems; exposure clusters beyond the identifier; plain reads, CRUD over administrative tables and
  the web pages; settings, logging, metrics, migrations and process start-up; and the timer that
  runs the modelled sweeps one after another.
\<close>

end
